(* ===== verification/Ips_Prelude.thy ===== *)
theory Ips_Prelude
  imports Complex_Main "HOL-Library.Word" "HOL-Library.Signed_Division" "HOL-Library.AList"
begin

text \<open>
  What every component shares: the names of the machine types, the monotonic clock of
  common/clock.h, the byte-order helpers the C library gives the parser, and the small generic
  lemmas (lists updated by index, bounded words, truncating division) the component proofs use.
\<close>

section \<open>Machine types\<close>

type_synonym u8 = "8 word"
type_synonym u16 = "16 word"
type_synonym u32 = "32 word"
type_synonym u64 = "64 word"

text \<open>
  A \<open>TimePoint\<close> is the nanosecond count of \<open>std::chrono::steady_clock\<close>. The count is a signed
  64-bit integer in the implementation; it is an unbounded \<open>int\<close> here, and the lemma
  \<open>expiry_in_range\<close> (theory Block_List) shows that no sum the program forms leaves the 64-bit range
  for an accepted configuration. Durations given in seconds are \<open>seconds n\<close>.
\<close>

type_synonym time_point = int

definition seconds :: "int \<Rightarrow> int" where
  "seconds n = n * 1000000000"

text \<open>\<open>duration_cast<microseconds>\<close> and \<open><milliseconds>\<close>: division that truncates to zero.\<close>

definition to_microseconds :: "int \<Rightarrow> int" where
  "to_microseconds d = d sdiv 1000"

definition to_milliseconds :: "int \<Rightarrow> int" where
  "to_milliseconds d = d sdiv 1000000"

section \<open>Rule collections\<close>

named_theorems umap_simps \<open>lookups and sizes after an update of a hash map\<close>
named_theorems inv_intros \<open>introduction rules for the component invariants\<close>

section \<open>Words\<close>

text \<open>Increment of a counter that has not reached its maximum does not wrap.\<close>

lemma unat_plus_one: "unat (x + 1 :: 'a::len word) = (unat x + 1) mod 2 ^ LENGTH('a)"
  by (simp add: unat_word_ariths)

lemma unat_bound: "unat (x :: 'a::len word) < 2 ^ LENGTH('a)"
  by (rule unsigned_less)

lemma unat_u16_le: "unat (x :: u16) \<le> 65535"
  using unat_bound [of x] by simp

lemma unat_u8_le: "unat (x :: u8) \<le> 255"
  using unat_bound [of x] by simp

section \<open>Fallible steps\<close>

text \<open>Sequencing of a computation that may fail: the first error ends it.\<close>

definition ebind :: "'e + 'a \<Rightarrow> ('a \<Rightarrow> 'e + 'b) \<Rightarrow> 'e + 'b" where
  "ebind m f = (case m of Inl e \<Rightarrow> Inl e | Inr x \<Rightarrow> f x)"

lemma ebind_simps [simp]:
  "ebind (Inl e) f = Inl e"
  "ebind (Inr x) f = f x"
  by (simp_all add: ebind_def)

section \<open>Decimal text\<close>

text \<open>\<open>std::to_string\<close> and the \<open>%u\<close> conversion on an unsigned value.\<close>

fun string_of_nat :: "nat \<Rightarrow> string" where
  "string_of_nat n =
     (if n < 10 then [''0123456789'' ! n]
      else string_of_nat (n div 10) @ [''0123456789'' ! (n mod 10)])"

declare string_of_nat.simps [simp del]

lemma string_of_nat_nonempty [simp]: "string_of_nat n \<noteq> []"
  by (subst string_of_nat.simps) simp

lemma length_string_of_nat: "n < 10 ^ Suc k \<Longrightarrow> length (string_of_nat n) \<le> Suc k"
proof (induction k arbitrary: n)
  case 0
  then show ?case by (subst string_of_nat.simps) simp
next
  case (Suc k)
  show ?case
  proof (cases "n < 10")
    case True
    then show ?thesis by (subst string_of_nat.simps) simp
  next
    case False
    have "n div 10 < 10 ^ Suc k" using Suc.prems by (simp add: less_mult_imp_div_less)
    with False show ?thesis by (subst string_of_nat.simps) (simp add: Suc.IH)
  qed
qed

text \<open>Reading decimal text back: different numbers have different texts.\<close>

definition nat_of_string :: "string \<Rightarrow> nat" where
  "nat_of_string s = foldl (\<lambda>n c. 10 * n + (of_char c - 48)) 0 s"

lemma digit_value:
  assumes "d < 10"
  shows "of_char (''0123456789'' ! d) - 48 = (d :: nat)"
proof -
  have "\<forall>d < 10. of_char (''0123456789'' ! d) - 48 = (d :: nat)"
    by (simp add: All_less_Suc eval_nat_numeral)
  with assms show ?thesis by blast
qed

lemma nat_of_string_of_nat [simp]: "nat_of_string (string_of_nat n) = n"
proof (induction n rule: string_of_nat.induct)
  case (1 n)
  show ?case
  proof (cases "n < 10")
    case True
    then show ?thesis
      by (subst string_of_nat.simps) (simp add: nat_of_string_def digit_value del: nth_Cons_numeral)
  next
    case False
    then show ?thesis
      using 1 digit_value [of "n mod 10"]
      by (subst string_of_nat.simps) (simp add: nat_of_string_def)
  qed
qed

lemma string_of_nat_inject [simp]: "string_of_nat m = string_of_nat n \<longleftrightarrow> m = n"
  by (metis nat_of_string_of_nat)

section \<open>Durations\<close>

lemma seconds_mono [simp]: "seconds a \<le> seconds b \<longleftrightarrow> a \<le> b"
  by (simp add: seconds_def)

lemma seconds_pos [simp]: "0 < seconds a \<longleftrightarrow> 0 < a"
  by (simp add: seconds_def)

lemma to_microseconds_nonneg: "0 \<le> d \<Longrightarrow> to_microseconds d = d div 1000"
  by (simp add: to_microseconds_def signed_divide_int_def sgn_if)

lemma to_milliseconds_nonneg: "0 \<le> d \<Longrightarrow> to_milliseconds d = d div 1000000"
  by (simp add: to_milliseconds_def signed_divide_int_def sgn_if)

section \<open>Lists updated by index\<close>

lemma sum_list_map_update:
  fixes f :: "'a \<Rightarrow> nat"
  assumes "b < length xs"
  shows "sum_list (map f (xs[b := y])) + f (xs ! b) = sum_list (map f xs) + f y"
  using assms
proof (induction xs arbitrary: b)
  case (Cons x xs)
  then show ?case by (cases b) auto
qed simp

end
