(* ===== verification/Json.thy ===== *)
theory Json
  imports Ips_Prelude
begin

text \<open>
  JSON values as the program sees them through nlohmann::json: the kinds it distinguishes and the
  documented behaviour of the accessors it calls (\<open>contains\<close>, \<open>at\<close>, \<open>value\<close>, \<open>get\<close>). The parser of
  the library, from text to value, is a parameter of the components that use it. An accessor that
  throws \<open>json::exception\<close> gives \<open>None\<close>; all callers handle every such exception the same way.
\<close>

section \<open>Values\<close>

text \<open>A \<open>double\<close> that may come from outside the program.\<close>

datatype double = Finite real | PosInf | NegInf | NaN

definition isfinite :: "double \<Rightarrow> bool" where
  "isfinite d = (case d of Finite _ \<Rightarrow> True | _ \<Rightarrow> False)"

text \<open>
  An integer is unsigned when it is not negative and fits 64 bits, signed when it is negative and
  fits, and a floating-point number otherwise. An object is a list of members with distinct names.
\<close>

datatype json =
    JNull
  | JBool bool
  | JUnsigned u64
  | JInteger "64 word"
  | JFloat double
  | JString string
  | JArray "json list"
  | JObject "(string \<times> json) list"

section \<open>Accessors\<close>

definition is_object :: "json \<Rightarrow> bool" where
  "is_object j = (case j of JObject _ \<Rightarrow> True | _ \<Rightarrow> False)"

definition is_boolean :: "json \<Rightarrow> bool" where
  "is_boolean j = (case j of JBool _ \<Rightarrow> True | _ \<Rightarrow> False)"

definition is_string :: "json \<Rightarrow> bool" where
  "is_string j = (case j of JString _ \<Rightarrow> True | _ \<Rightarrow> False)"

definition is_number_integer :: "json \<Rightarrow> bool" where
  "is_number_integer j = (case j of JUnsigned _ \<Rightarrow> True | JInteger _ \<Rightarrow> True | _ \<Rightarrow> False)"

definition is_number :: "json \<Rightarrow> bool" where
  "is_number j = (case j of JUnsigned _ \<Rightarrow> True | JInteger _ \<Rightarrow> True | JFloat _ \<Rightarrow> True | _ \<Rightarrow> False)"

definition member :: "json \<Rightarrow> string \<Rightarrow> json option" where
  "member j key = (case j of JObject ms \<Rightarrow> map_of ms key | _ \<Rightarrow> None)"

definition contains :: "json \<Rightarrow> string \<Rightarrow> bool" where
  "contains j key \<longleftrightarrow> member j key \<noteq> None"

text \<open>\<open>j.value(key, default)\<close> for a JSON default, and for a type read by \<open>get\<close>.\<close>

definition json_value :: "json \<Rightarrow> string \<Rightarrow> json \<Rightarrow> json option" where
  "json_value j key d =
     (if is_object j then Some (case member j key of None \<Rightarrow> d | Some v \<Rightarrow> v) else None)"

definition typed_value :: "(json \<Rightarrow> 'a option) \<Rightarrow> json \<Rightarrow> string \<Rightarrow> 'a \<Rightarrow> 'a option" where
  "typed_value get j key d =
     (if is_object j then (case member j key of None \<Rightarrow> Some d | Some v \<Rightarrow> get v) else None)"

definition get_bool :: "json \<Rightarrow> bool option" where
  "get_bool j = (case j of JBool b \<Rightarrow> Some b | _ \<Rightarrow> None)"

definition get_string :: "json \<Rightarrow> string option" where
  "get_string j = (case j of JString s \<Rightarrow> Some s | _ \<Rightarrow> None)"

fun get_all :: "(json \<Rightarrow> 'a option) \<Rightarrow> json list \<Rightarrow> 'a list option" where
  "get_all get [] = Some []"
| "get_all get (j # js) =
     (case get j of None \<Rightarrow> None | Some x \<Rightarrow> map_option (Cons x) (get_all get js))"

definition get_strings :: "json \<Rightarrow> string list option" where
  "get_strings j = (case j of JArray js \<Rightarrow> get_all get_string js | _ \<Rightarrow> None)"

text \<open>\<open>get<int>()\<close> on an integer converts without a range check.\<close>

definition get_int :: "json \<Rightarrow> int option" where
  "get_int j =
     (case j of JUnsigned v \<Rightarrow> Some (sint (ucast v :: 32 word))
      | JInteger v \<Rightarrow> Some (sint (ucast v :: 32 word)) | _ \<Rightarrow> None)"

definition get_double :: "json \<Rightarrow> double option" where
  "get_double j =
     (case j of JUnsigned v \<Rightarrow> Some (Finite (real (unat v)))
      | JInteger v \<Rightarrow> Some (Finite (of_int (sint v))) | JFloat d \<Rightarrow> Some d | _ \<Rightarrow> None)"

lemma member_object: "member j key = Some v \<Longrightarrow> is_object j"
  by (auto simp: member_def is_object_def split: json.splits)

end
