(* ===== verification/Config.thy ===== *)
theory Config
  imports Json "HOL-Library.Monad_Syntax"
begin

text \<open>
  config/config.h and config/config.cpp: the configuration record with its defaults, and its reading
  from JSON text. The library's parser \<open>json_parse\<close> is a parameter, \<open>None\<close> for a syntax error. The
  function returns \<open>None\<close> wherever the code logs an error and returns \<open>nullopt\<close>.
\<close>

section \<open>The record\<close>

record ai_config =
  ai_enabled :: bool
  ai_artifact_dir :: string
  ai_queue_capacity :: nat
  ai_startup_timeout_ms :: int
  ai_response_timeout_ms :: int
  ai_max_restarts :: int
  ai_restart_reset_seconds :: int

record config =
  queue_num :: u16
  block_ttl_seconds :: int
  whitelist :: "string list"
  window_seconds :: int
  distinct_port_threshold :: nat
  syn_threshold :: u32
  ai_section :: ai_config

definition default_ai_config :: ai_config where
  "default_ai_config =
     \<lparr>ai_enabled = True, ai_artifact_dir = ''ml/artifacts'', ai_queue_capacity = 1024,
      ai_startup_timeout_ms = 10000, ai_response_timeout_ms = 2000, ai_max_restarts = 3,
      ai_restart_reset_seconds = 60\<rparr>"

definition default_config :: config where
  "default_config =
     \<lparr>queue_num = 0, block_ttl_seconds = 600, whitelist = [], window_seconds = 10,
      distinct_port_threshold = 20, syn_threshold = 100, ai_section = default_ai_config\<rparr>"

section \<open>Reading\<close>

definition read_nonnegative_integer :: "json \<Rightarrow> string \<Rightarrow> u64 \<Rightarrow> u64 option" where
  "read_nonnegative_integer obj key default_value =
     (if \<not> is_object obj then None
      else case member obj key of
        None \<Rightarrow> Some default_value
      | Some (JUnsigned v) \<Rightarrow> Some v
      | Some (JInteger v) \<Rightarrow> if 0 \<le> sint v then Some v else None
      | Some _ \<Rightarrow> None)"

definition INT_MAX :: nat where "INT_MAX = 2147483647"
definition MAX_DISTINCT_PORT_COUNT :: nat where "MAX_DISTINCT_PORT_COUNT = 65536"

text \<open>\<open>static_cast<int>\<close> of an unsigned 64-bit value.\<close>

definition to_int :: "u64 \<Rightarrow> int" where
  "to_int v = sint (ucast v :: 32 word)"

text \<open>The checks of the code before it converts.\<close>

definition ai_types_ok :: "json \<Rightarrow> bool" where
  "ai_types_ok ai \<longleftrightarrow> is_object ai \<and>
     (case member ai ''enabled'' of None \<Rightarrow> True | Some v \<Rightarrow> is_boolean v) \<and>
     (case member ai ''artifact_dir'' of None \<Rightarrow> True | Some v \<Rightarrow> is_string v)"

definition ranges_ok :: "u64 \<Rightarrow> u64 \<Rightarrow> u64 \<Rightarrow> u64 \<Rightarrow> u64 \<Rightarrow> bool" where
  "ranges_ok qn ttl win ports syn \<longleftrightarrow>
     \<not> (unat qn > 65535 \<or> ttl = 0 \<or> unat ttl > INT_MAX \<or> win = 0 \<or> unat win > INT_MAX \<or>
        ports = 0 \<or> unat ports > MAX_DISTINCT_PORT_COUNT \<or> syn = 0 \<or> unat syn > 4294967295)"

definition ai_ranges_ok :: "u64 \<Rightarrow> u64 \<Rightarrow> u64 \<Rightarrow> u64 \<Rightarrow> u64 \<Rightarrow> bool" where
  "ai_ranges_ok capacity startup response restarts reset \<longleftrightarrow>
     \<not> (capacity = 0 \<or> unat capacity > 65536 \<or> unat startup < 1000 \<or> unat startup > 60000 \<or>
        unat response < 100 \<or> unat response > 60000 \<or> unat restarts > 10 \<or>
        reset = 0 \<or> unat reset > 3600)"

definition guard :: "bool \<Rightarrow> unit option" where
  "guard b = (if b then Some () else None)"

definition read_config :: "json \<Rightarrow> config option" where
  "read_config j = do {
     rules \<leftarrow> json_value j ''rules'' (JObject []);
     port_scan \<leftarrow> json_value rules ''port_scan'' (JObject []);
     syn_flood \<leftarrow> json_value rules ''syn_flood'' (JObject []);
     ai \<leftarrow> json_value j ''ai'' (JObject []);
     guard (ai_types_ok ai);
     qn \<leftarrow> read_nonnegative_integer j ''queue_num'' 0;
     ttl \<leftarrow> read_nonnegative_integer j ''block_ttl_seconds'' 600;
     win \<leftarrow> read_nonnegative_integer rules ''window_seconds'' 10;
     ports \<leftarrow> read_nonnegative_integer port_scan ''distinct_port_threshold'' 20;
     syn \<leftarrow> read_nonnegative_integer syn_flood ''syn_threshold'' 100;
     capacity \<leftarrow> read_nonnegative_integer ai ''queue_capacity'' 1024;
     startup \<leftarrow> read_nonnegative_integer ai ''startup_timeout_ms'' 10000;
     response \<leftarrow> read_nonnegative_integer ai ''response_timeout_ms'' 2000;
     restarts \<leftarrow> read_nonnegative_integer ai ''max_restarts'' 3;
     reset \<leftarrow> read_nonnegative_integer ai ''restart_reset_seconds'' 60;
     wl \<leftarrow> typed_value get_strings j ''whitelist'' [];
     guard (ranges_ok qn ttl win ports syn);
     guard (ai_ranges_ok capacity startup response restarts reset);
     enabled \<leftarrow> typed_value get_bool ai ''enabled'' True;
     dir \<leftarrow> typed_value get_string ai ''artifact_dir'' ''ml/artifacts'';
     guard (dir \<noteq> '''');
     Some \<lparr>queue_num = ucast qn, block_ttl_seconds = to_int ttl, whitelist = wl,
           window_seconds = to_int win, distinct_port_threshold = unat ports,
           syn_threshold = ucast syn,
           ai_section =
             \<lparr>ai_enabled = enabled, ai_artifact_dir = dir, ai_queue_capacity = unat capacity,
              ai_startup_timeout_ms = to_int startup, ai_response_timeout_ms = to_int response,
              ai_max_restarts = to_int restarts, ai_restart_reset_seconds = to_int reset\<rparr>\<rparr>
   }"

definition parse_config :: "(string \<Rightarrow> json option) \<Rightarrow> string \<Rightarrow> config option" where
  "parse_config json_parse json_text =
     (case json_parse json_text of None \<Rightarrow> None | Some j \<Rightarrow> read_config j)"

text \<open>The file is \<open>None\<close> when it cannot be opened.\<close>

definition load_config :: "(string \<Rightarrow> json option) \<Rightarrow> string option \<Rightarrow> config option" where
  "load_config json_parse file =
     (case file of None \<Rightarrow> Some default_config | Some text \<Rightarrow> parse_config json_parse text)"

section \<open>What is accepted\<close>

definition config_ok :: "config \<Rightarrow> bool" where
  "config_ok cfg \<longleftrightarrow>
     0 < block_ttl_seconds cfg \<and> block_ttl_seconds cfg \<le> 2147483647 \<and>
     0 < window_seconds cfg \<and> window_seconds cfg \<le> 2147483647 \<and>
     0 < distinct_port_threshold cfg \<and> distinct_port_threshold cfg \<le> 65536 \<and>
     0 < unat (syn_threshold cfg) \<and>
     (let ai = ai_section cfg in
        0 < ai_queue_capacity ai \<and> ai_queue_capacity ai \<le> 65536 \<and>
        1000 \<le> ai_startup_timeout_ms ai \<and> ai_startup_timeout_ms ai \<le> 60000 \<and>
        100 \<le> ai_response_timeout_ms ai \<and> ai_response_timeout_ms ai \<le> 60000 \<and>
        0 \<le> ai_max_restarts ai \<and> ai_max_restarts ai \<le> 10 \<and>
        0 < ai_restart_reset_seconds ai \<and> ai_restart_reset_seconds ai \<le> 3600 \<and>
        ai_artifact_dir ai \<noteq> [])"

text \<open>An integer member as the text has it, and its default.\<close>

definition field :: "json \<Rightarrow> string \<Rightarrow> nat \<Rightarrow> nat" where
  "field j key d =
     (case member j key of
        Some (JUnsigned v) \<Rightarrow> unat v | Some (JInteger v) \<Rightarrow> nat (sint v) | _ \<Rightarrow> d)"

definition field_ok :: "json \<Rightarrow> string \<Rightarrow> bool" where
  "field_ok j key \<longleftrightarrow> is_object j \<and>
     (case member j key of
        None \<Rightarrow> True | Some (JUnsigned v) \<Rightarrow> True | Some (JInteger v) \<Rightarrow> 0 \<le> sint v | _ \<Rightarrow> False)"

definition section_of :: "json \<Rightarrow> string \<Rightarrow> json" where
  "section_of j key = (case member j key of None \<Rightarrow> JObject [] | Some v \<Rightarrow> v)"

lemma unat_sint_nonneg: "0 \<le> sint (v :: 64 word) \<Longrightarrow> unat v = nat (sint v)"
proof -
  assume "0 \<le> sint v"
  moreover have "sint v < 2 ^ 64" using sint_lt [of v] by simp
  ultimately have "take_bit LENGTH(64) (sint v) = sint v" by (intro take_bit_int_eq_self) simp_all
  then have "uint v = sint v" by (simp only: uint_sint)
  then show ?thesis by (simp only: unat_eq_nat_uint)
qed

lemma to_int_small: "unat v \<le> INT_MAX \<Longrightarrow> to_int v = int (unat v)"
proof -
  assume "unat v \<le> INT_MAX"
  then have "int (unat v) \<le> 2147483647" by (simp add: INT_MAX_def del: of_nat_unat)
  then have v: "0 \<le> uint v" "uint v < 2 ^ 31" by simp_all
  then have "uint (ucast v :: 32 word) = uint v"
    by (simp add: unsigned_ucast_eq take_bit_int_eq_self)
  moreover have "signed_take_bit 31 (uint v) = uint v"
    using v by (intro signed_take_bit_int_eq_self) linarith+
  ultimately show ?thesis by (simp add: to_int_def sint_uint)
qed

lemma read_integer_Some:
  "read_nonnegative_integer j key d = Some v \<Longrightarrow> field_ok j key \<and> unat v = field j key (unat d)"
proof (cases "member j key")
  case None
  then show "read_nonnegative_integer j key d = Some v \<Longrightarrow> ?thesis"
    by (simp add: read_nonnegative_integer_def field_ok_def field_def split: if_splits)
next
  case (Some w)
  then show "read_nonnegative_integer j key d = Some v \<Longrightarrow> ?thesis"
    using unat_sint_nonneg
    by (cases w) (simp_all add: read_nonnegative_integer_def field_ok_def field_def split: if_splits)
qed

lemma json_value_Some:
  "json_value j key (JObject []) = Some v \<longleftrightarrow> is_object j \<and> v = section_of j key"
  by (auto simp: json_value_def section_of_def)

lemma guard_Some: "guard b = Some u \<longleftrightarrow> b"
  by (simp add: guard_def)

lemma ucast_small:
  "unat (v :: u64) \<le> 65535 \<Longrightarrow> unat (ucast v :: u16) = unat v"
  "unat (v :: u64) \<le> 4294967295 \<Longrightarrow> unat (ucast v :: u32) = unat v"
  by (simp_all add: unsigned_ucast_eq take_bit_nat_eq_self)

text \<open>Everything an accepted value has passed.\<close>

lemma read_config_Some:
  assumes "read_config j = Some cfg"
  obtains qn ttl win ports syn capacity startup response restarts reset enabled dir wl where
    "read_nonnegative_integer j ''queue_num'' 0 = Some qn"
    "read_nonnegative_integer j ''block_ttl_seconds'' 600 = Some ttl"
    "read_nonnegative_integer (section_of j ''rules'') ''window_seconds'' 10 = Some win"
    "read_nonnegative_integer (section_of (section_of j ''rules'') ''port_scan'') ''distinct_port_threshold'' 20 = Some ports"
    "read_nonnegative_integer (section_of (section_of j ''rules'') ''syn_flood'') ''syn_threshold'' 100 = Some syn"
    "read_nonnegative_integer (section_of j ''ai'') ''queue_capacity'' 1024 = Some capacity"
    "read_nonnegative_integer (section_of j ''ai'') ''startup_timeout_ms'' 10000 = Some startup"
    "read_nonnegative_integer (section_of j ''ai'') ''response_timeout_ms'' 2000 = Some response"
    "read_nonnegative_integer (section_of j ''ai'') ''max_restarts'' 3 = Some restarts"
    "read_nonnegative_integer (section_of j ''ai'') ''restart_reset_seconds'' 60 = Some reset"
    "typed_value get_strings j ''whitelist'' [] = Some wl"
    "ranges_ok qn ttl win ports syn" "ai_ranges_ok capacity startup response restarts reset"
    "dir \<noteq> []"
    "typed_value get_bool (section_of j ''ai'') ''enabled'' True = Some enabled"
    "typed_value get_string (section_of j ''ai'') ''artifact_dir'' ''ml/artifacts'' = Some dir"
    "cfg = \<lparr>queue_num = ucast qn, block_ttl_seconds = to_int ttl, whitelist = wl,
           window_seconds = to_int win, distinct_port_threshold = unat ports,
           syn_threshold = ucast syn,
           ai_section =
             \<lparr>ai_enabled = enabled, ai_artifact_dir = dir, ai_queue_capacity = unat capacity,
              ai_startup_timeout_ms = to_int startup, ai_response_timeout_ms = to_int response,
              ai_max_restarts = to_int restarts, ai_restart_reset_seconds = to_int reset\<rparr>\<rparr>"
  using assms unfolding read_config_def
  by (clarsimp simp: Option.bind_eq_Some_conv guard_Some json_value_Some)

text \<open>A member that is read by its type is in the text with that type, or has its default.\<close>

lemma get_all_strings: "get_all get_string js = Some xs \<longleftrightarrow> js = map JString xs"
proof (induction js arbitrary: xs)
  case (Cons j js)
  then show ?case by (cases j; cases xs) (auto simp: get_string_def)
qed auto

lemma typed_member:
  "typed_value get_bool j key d = Some b \<Longrightarrow> member j key = Some (JBool b) \<or> member j key = None \<and> b = d"
  "typed_value get_string j key d' = Some t \<Longrightarrow> member j key = Some (JString t) \<or> member j key = None \<and> t = d'"
  "typed_value get_strings j key ds = Some xs \<Longrightarrow>
     member j key = Some (JArray (map JString xs)) \<or> member j key = None \<and> xs = ds"
  by (auto simp: typed_value_def get_bool_def get_string_def get_strings_def get_all_strings
      split: if_splits option.splits json.splits)

text \<open>A configuration that says what the text says: every integer setting is the number of the text or
  its default, and the list, the flag and the directory are those of the text or their defaults.\<close>

definition says :: "config \<Rightarrow> json \<Rightarrow> bool" where
  "says cfg j \<longleftrightarrow>
     (let rules = section_of j ''rules''; ai = section_of j ''ai''; c = ai_section cfg in
      unat (queue_num cfg) = field j ''queue_num'' 0 \<and>
      block_ttl_seconds cfg = int (field j ''block_ttl_seconds'' 600) \<and>
      (member j ''whitelist'' = Some (JArray (map JString (whitelist cfg))) \<or>
         member j ''whitelist'' = None \<and> whitelist cfg = []) \<and>
      window_seconds cfg = int (field rules ''window_seconds'' 10) \<and>
      distinct_port_threshold cfg = field (section_of rules ''port_scan'') ''distinct_port_threshold'' 20 \<and>
      unat (syn_threshold cfg) = field (section_of rules ''syn_flood'') ''syn_threshold'' 100 \<and>
      (member ai ''enabled'' = Some (JBool (ai_enabled c)) \<or> member ai ''enabled'' = None \<and> ai_enabled c) \<and>
      (member ai ''artifact_dir'' = Some (JString (ai_artifact_dir c)) \<or>
         member ai ''artifact_dir'' = None \<and> ai_artifact_dir c = ''ml/artifacts'') \<and>
      ai_queue_capacity c = field ai ''queue_capacity'' 1024 \<and>
      ai_startup_timeout_ms c = int (field ai ''startup_timeout_ms'' 10000) \<and>
      ai_response_timeout_ms c = int (field ai ''response_timeout_ms'' 2000) \<and>
      ai_max_restarts c = int (field ai ''max_restarts'' 3) \<and>
      ai_restart_reset_seconds c = int (field ai ''restart_reset_seconds'' 60))"

text \<open>The converted values are the ones read: no conversion loses anything after the range checks.\<close>

lemma read_config_values:
  assumes "read_config j = Some cfg"
  shows "config_ok cfg \<and> says cfg j"
  using assms
proof (rule read_config_Some)
  fix qn ttl win ports syn capacity startup response restarts reset enabled dir wl
  assume reads: "read_nonnegative_integer j ''queue_num'' 0 = Some qn"
    "read_nonnegative_integer j ''block_ttl_seconds'' 600 = Some ttl"
    "read_nonnegative_integer (section_of j ''rules'') ''window_seconds'' 10 = Some win"
    "read_nonnegative_integer (section_of (section_of j ''rules'') ''port_scan'') ''distinct_port_threshold'' 20 = Some ports"
    "read_nonnegative_integer (section_of (section_of j ''rules'') ''syn_flood'') ''syn_threshold'' 100 = Some syn"
    "read_nonnegative_integer (section_of j ''ai'') ''queue_capacity'' 1024 = Some capacity"
    "read_nonnegative_integer (section_of j ''ai'') ''startup_timeout_ms'' 10000 = Some startup"
    "read_nonnegative_integer (section_of j ''ai'') ''response_timeout_ms'' 2000 = Some response"
    "read_nonnegative_integer (section_of j ''ai'') ''max_restarts'' 3 = Some restarts"
    "read_nonnegative_integer (section_of j ''ai'') ''restart_reset_seconds'' 60 = Some reset"
    and typed: "typed_value get_strings j ''whitelist'' [] = Some wl"
    "typed_value get_bool (section_of j ''ai'') ''enabled'' True = Some enabled"
    "typed_value get_string (section_of j ''ai'') ''artifact_dir'' ''ml/artifacts'' = Some dir"
  assume r: "ranges_ok qn ttl win ports syn" "ai_ranges_ok capacity startup response restarts reset"
    "dir \<noteq> []"
    and cfg: "cfg = \<lparr>queue_num = ucast qn, block_ttl_seconds = to_int ttl, whitelist = wl,
         window_seconds = to_int win, distinct_port_threshold = unat ports,
         syn_threshold = ucast syn,
         ai_section =
           \<lparr>ai_enabled = enabled, ai_artifact_dir = dir, ai_queue_capacity = unat capacity,
            ai_startup_timeout_ms = to_int startup, ai_response_timeout_ms = to_int response,
            ai_max_restarts = to_int restarts, ai_restart_reset_seconds = to_int reset\<rparr>\<rparr>"
  have small: "unat ttl \<le> INT_MAX" "unat win \<le> INT_MAX" "unat startup \<le> INT_MAX"
    "unat response \<le> INT_MAX" "unat restarts \<le> INT_MAX" "unat reset \<le> INT_MAX"
    "unat qn \<le> 65535" "unat syn \<le> 4294967295"
    using r by (simp_all add: ranges_ok_def ai_ranges_ok_def INT_MAX_def)
  have "config_ok cfg"
    using r small by (simp add: cfg config_ok_def ranges_ok_def ai_ranges_ok_def INT_MAX_def
        MAX_DISTINCT_PORT_COUNT_def to_int_small ucast_small unat_gt_0 del: of_nat_unat)
  moreover have "says cfg j"
    using small reads [THEN read_integer_Some] typed_member(3) [OF typed(1)] typed_member(1) [OF typed(2)]
      typed_member(2) [OF typed(3)]
    by (simp add: cfg says_def Let_def to_int_small ucast_small del: of_nat_unat)
  ultimately show ?thesis ..
qed

text \<open>C40. A configuration that is accepted is one the rest of the program can run with, and it says
  what the text says: all lifetimes, windows, thresholds and limits are in their ranges; every integer
  setting is the number of the text, or its default where the text has none, without truncation; and
  the whitelist, the switch of the model and its directory are those of the text or their defaults.\<close>

theorem accepted_config_exact:
  assumes "json_parse json_text = Some j" "parse_config json_parse json_text = Some cfg"
  shows "config_ok cfg \<and> says cfg j"
  using assms by (intro read_config_values) (simp add: parse_config_def)

definition sample_json :: json where
  "sample_json = JObject [(''block_ttl_seconds'', JUnsigned 30), (''whitelist'', JArray [JString ''10.0.0.1'']),
     (''rules'', JObject [(''syn_flood'', JObject [(''syn_threshold'', JUnsigned 5)])]),
     (''ai'', JObject [(''enabled'', JBool False), (''max_restarts'', JUnsigned 0)])]"

lemma read_sample_json:
  "read_config sample_json = Some (default_config\<lparr>block_ttl_seconds := 30, whitelist := [''10.0.0.1''],
     syn_threshold := 5, ai_section := default_ai_config\<lparr>ai_enabled := False, ai_max_restarts := 0\<rparr>\<rparr>)"
  by (simp add: read_config_def sample_json_def json_value_def is_object_def member_def ai_types_ok_def guard_def
      read_nonnegative_integer_def typed_value_def ranges_ok_def ai_ranges_ok_def INT_MAX_def get_strings_def
      get_string_def get_bool_def is_boolean_def
      MAX_DISTINCT_PORT_COUNT_def to_int_def default_config_def default_ai_config_def)

theorem accepted_config_exact_witness:
  "says (default_config\<lparr>block_ttl_seconds := 30, whitelist := [''10.0.0.1''], syn_threshold := 5,
     ai_section := default_ai_config\<lparr>ai_enabled := False, ai_max_restarts := 0\<rparr>\<rparr>) sample_json"
  using accepted_config_exact [of "\<lambda>_. Some sample_json" "''{...}''" sample_json
      "default_config\<lparr>block_ttl_seconds := 30, whitelist := [''10.0.0.1''], syn_threshold := 5,
         ai_section := default_ai_config\<lparr>ai_enabled := False, ai_max_restarts := 0\<rparr>\<rparr>"] read_sample_json
  by (simp add: parse_config_def)

text \<open>A missing file means the defaults, and so does an empty object; text that does not parse, or
  whose value is not an object, stops the start; and the defaults are themselves in range.\<close>

theorem config_fallbacks:
  "load_config json_parse None = Some default_config \<and>
   parse_config (\<lambda>_. Some (JObject [])) json_text = Some default_config \<and>
   load_config (\<lambda>_. None) (Some json_text) = None \<and>
   (is_object j \<or> parse_config (\<lambda>_. Some j) json_text = None) \<and>
   config_ok default_config"
proof -
  have "read_config (JObject []) = Some default_config"
    by (simp add: read_config_def json_value_def is_object_def member_def ai_types_ok_def guard_def
        read_nonnegative_integer_def typed_value_def ranges_ok_def ai_ranges_ok_def INT_MAX_def
        MAX_DISTINCT_PORT_COUNT_def to_int_def default_config_def default_ai_config_def)
  moreover have "is_object j \<or> read_config j = None" by (simp add: read_config_def json_value_def)
  moreover have "config_ok default_config"
    by (simp add: config_ok_def default_config_def default_ai_config_def)
  ultimately show ?thesis by (simp add: load_config_def parse_config_def)
qed

definition integer_settings :: "json \<Rightarrow> (json \<times> string) list" where
  "integer_settings j =
     [(j, ''queue_num''), (j, ''block_ttl_seconds''),
      (section_of j ''rules'', ''window_seconds''),
      (section_of (section_of j ''rules'') ''port_scan'', ''distinct_port_threshold''),
      (section_of (section_of j ''rules'') ''syn_flood'', ''syn_threshold''),
      (section_of j ''ai'', ''queue_capacity''), (section_of j ''ai'', ''startup_timeout_ms''),
      (section_of j ''ai'', ''response_timeout_ms''), (section_of j ''ai'', ''max_restarts''),
      (section_of j ''ai'', ''restart_reset_seconds'')]"

text \<open>A setting of the wrong kind is never replaced by its default: when an integer setting is
  present and is not a non-negative integer (negative, fractional, text, null, a list), the
  configuration is rejected. The setting may be at the top level, in a rule or in the AI section.\<close>

theorem wrong_integer_rejected:
  assumes "(obj, key) \<in> set (integer_settings j)" "\<not> field_ok obj key"
  shows "parse_config (\<lambda>_. Some j) json_text = None"
proof (cases "read_config j")
  case None
  then show ?thesis by (simp add: parse_config_def)
next
  case (Some cfg)
  then have "field_ok obj key"
  proof (rule read_config_Some)
    fix qn ttl win ports syn capacity startup response restarts reset :: u64
    assume "read_nonnegative_integer j ''queue_num'' 0 = Some qn"
      "read_nonnegative_integer j ''block_ttl_seconds'' 600 = Some ttl"
      "read_nonnegative_integer (section_of j ''rules'') ''window_seconds'' 10 = Some win"
      "read_nonnegative_integer (section_of (section_of j ''rules'') ''port_scan'') ''distinct_port_threshold'' 20 = Some ports"
      "read_nonnegative_integer (section_of (section_of j ''rules'') ''syn_flood'') ''syn_threshold'' 100 = Some syn"
      "read_nonnegative_integer (section_of j ''ai'') ''queue_capacity'' 1024 = Some capacity"
      "read_nonnegative_integer (section_of j ''ai'') ''startup_timeout_ms'' 10000 = Some startup"
      "read_nonnegative_integer (section_of j ''ai'') ''response_timeout_ms'' 2000 = Some response"
      "read_nonnegative_integer (section_of j ''ai'') ''max_restarts'' 3 = Some restarts"
      "read_nonnegative_integer (section_of j ''ai'') ''restart_reset_seconds'' 60 = Some reset"
    note this [THEN read_integer_Some]
    with assms(1) show ?thesis by (auto simp: integer_settings_def)
  qed
  with assms(2) show ?thesis by simp
qed

theorem wrong_integer_rejected_witness:
  "parse_config (\<lambda>_. Some (JObject [(''block_ttl_seconds'', JString ''60'')])) ''{...}'' = None"
  using wrong_integer_rejected [of "JObject [(''block_ttl_seconds'', JString ''60'')]" "''block_ttl_seconds''"
      "JObject [(''block_ttl_seconds'', JString ''60'')]"]
  by (simp add: integer_settings_def field_ok_def member_def is_object_def)

end
