(* ===== verification/Supervisor.thy ===== *)
theory Supervisor
  imports Json Config
begin

unbundle bit_operations_syntax

text \<open>
  app/ai_process_supervisor.h and app/ai_process_supervisor.cpp: the supervisor of the Python
  process that scores flows. It starts the process, waits for its ready line, restarts it with a
  growing delay when it fails and gives up after the configured number of restarts.

  Every slot runs to its end on the Qt event loop, so each is one function on the supervisor's
  state. The exception is \<open>waitForFinished\<close>: while a slot waits there, Qt delivers further signals of
  the process, and their slots run inside the one that waits. What arrives during such a wait is part
  of the model's input: the type \<open>stopping\<close> says which signals the two waits of \<open>stop_process\<close>
  deliver, and each of these signals says again what its own slot would meet if it stopped the
  process. The file system and the path functions of Qt are parameters; so is the ready handler, whose
  exceptions the code catches. Calls to the outside are recorded in \<open>sv_effects\<close>.
\<close>

section \<open>Paths\<close>

record file_stat =
  st_mode :: u32
  st_uid :: u32

text \<open>\<open>lstat\<close> with its error text, \<open>cleanPath\<close> of the absolute path, the absolute path of the
  containing directory, and the path of a file in a directory.\<close>

record path_env =
  pe_lstat :: "string \<Rightarrow> string + file_stat"
  pe_clean :: "string \<Rightarrow> string"
  pe_parent :: "string \<Rightarrow> string"
  pe_file_path :: "string \<Rightarrow> string \<Rightarrow> string"

datatype path_error =
    Lstat_failed string string
  | Symbolic_link string
  | Unexpected_type string
  | Not_root_owned string
  | Writable_by_others string

definition file_type :: "file_stat \<Rightarrow> u32" where
  "file_type s = st_mode s AND 0xF000"

definition writable_by_others :: "file_stat \<Rightarrow> bool" where
  "writable_by_others s \<longleftrightarrow> st_mode s AND (0x10 OR 0x02) \<noteq> 0"

definition validate_root_owned_path :: "path_env \<Rightarrow> string \<Rightarrow> bool \<Rightarrow> path_error + unit" where
  "validate_root_owned_path fs path expect_directory =
     (case pe_lstat fs path of
        Inl err \<Rightarrow> Inl (Lstat_failed path err)
      | Inr s \<Rightarrow>
          if file_type s = 0xA000 then Inl (Symbolic_link path)
          else if (expect_directory \<and> file_type s \<noteq> 0x4000) \<or> (\<not> expect_directory \<and> file_type s \<noteq> 0x8000)
          then Inl (Unexpected_type path)
          else if st_uid s \<noteq> 0 then Inl (Not_root_owned path)
          else if writable_by_others s then Inl (Writable_by_others path)
          else Inr ())"

partial_function (option) secure_tree :: "path_env \<Rightarrow> string \<Rightarrow> (path_error + unit) option" where
  "secure_tree fs current =
     (case validate_root_owned_path fs current True of
        Inl e \<Rightarrow> Some (Inl e)
      | Inr u \<Rightarrow> if pe_parent fs current = current then Some (Inr ()) else secure_tree fs (pe_parent fs current))"

definition validate_secure_directory_tree :: "path_env \<Rightarrow> string \<Rightarrow> (path_error + unit) option" where
  "validate_secure_directory_tree fs path = secure_tree fs (pe_clean fs path)"

text \<open>The checks in the order of the code; the first error ends them.\<close>

definition then_check :: "(path_error + unit) option \<Rightarrow> (path_error + unit) option \<Rightarrow> (path_error + unit) option" where
  "then_check a b = (case a of Some (Inr u) \<Rightarrow> b | _ \<Rightarrow> a)"

definition RUNTIME_DIRECTORY :: string where
  "RUNTIME_DIRECTORY = ''/opt/ips-with-ai/python-packages''"

definition REQUIRED_MODULES :: "string list" where
  "REQUIRED_MODULES =
     [''ml/__init__.py'', ''ml/online_server.py'', ''ml/artifacts.py'', ''ml/features.py'', ''ml/model.py'']"

definition validate_python_paths :: "path_env \<Rightarrow> string \<Rightarrow> (path_error + unit) option" where
  "validate_python_paths fs checkout =
     then_check (validate_secure_directory_tree fs checkout)
       (then_check (validate_secure_directory_tree fs (pe_file_path fs checkout ''ml''))
         (then_check (validate_secure_directory_tree fs RUNTIME_DIRECTORY)
           (foldr (\<lambda>m. then_check (Some (validate_root_owned_path fs (pe_file_path fs checkout m) False)))
              REQUIRED_MODULES (Some (Inr ())))))"

section \<open>The state\<close>

datatype ai_state = DISABLED | STARTING | ONLINE | RESTART_WAIT | OFFLINE | STOPPING

text \<open>The reasons of a failure and the detail texts of the states.\<close>

datatype sup_failure =
    Startup_timeout
  | Qprocess_error int string
  | Process_exit int int
  | Unsafe_python_path path_error
  | Stale_socket
  | Ready_handler_error string
  | Transport_failure string

datatype detail =
    No_detail
  | Disabled_by_config
  | Starting_process
  | Restarting_process
  | Ai_online
  | Waiting_after sup_failure
  | Exhausted_after sup_failure int
  | Shutting_down

datatype effect =
    State_notified ai_state detail
  | Ready_notified string string
  | Process_started
  | Process_terminated
  | Process_killed
  | Socket_removed

record ai_supervisor =
  sv_config :: ai_config
  sv_state :: ai_state
  sv_detail :: detail
  sv_model_version :: string
  sv_restart_count :: u64
  sv_restart_attempts :: int
  sv_failure_handled :: bool
  sv_stop_requested :: bool
  sv_stdout_buffer :: string
  sv_stderr_buffer :: string
  sv_startup_timer :: "int option"
  sv_restart_timer :: "int option"
  sv_stable_timer :: "int option"
  sv_running :: bool
  sv_socket_path :: string
  sv_endpoint :: string
  sv_working_directory :: string
  sv_effects :: "effect list"

text \<open>A timer that is not running is \<open>None\<close>, one that is running has its interval in milliseconds.\<close>

definition new_supervisor :: "ai_config \<Rightarrow> nat \<Rightarrow> string \<Rightarrow> ai_supervisor" where
  "new_supervisor cfg pid cwd =
     (let socket_path = ''/tmp/ips-with-ai-'' @ string_of_nat pid @ ''.sock'' in
      \<lparr>sv_config = cfg, sv_state = DISABLED, sv_detail = No_detail, sv_model_version = [],
       sv_restart_count = 0, sv_restart_attempts = 0, sv_failure_handled = False,
       sv_stop_requested = False, sv_stdout_buffer = [], sv_stderr_buffer = [],
       sv_startup_timer = None, sv_restart_timer = None, sv_stable_timer = None,
       sv_running = False, sv_socket_path = socket_path, sv_endpoint = ''ipc://'' @ socket_path,
       sv_working_directory = cwd, sv_effects = []\<rparr>)"

record process_setup =
  ps_program :: string
  ps_arguments :: "string list"
  ps_environment :: "(string \<times> string) list"

definition process_setup_of :: "ai_supervisor \<Rightarrow> process_setup" where
  "process_setup_of sv =
     \<lparr>ps_program = ''/usr/bin/python3'',
      ps_arguments = [''-m'', ''ml.online_server'', ''--endpoint'', sv_endpoint sv, ''--artifact-dir'',
        ai_artifact_dir (sv_config sv)],
      ps_environment =
        [(''LANG'', ''C.UTF-8''), (''LC_ALL'', ''C.UTF-8''), (''PATH'', ''/usr/bin:/bin''),
         (''PYTHONDONTWRITEBYTECODE'', ''1''), (''PYTHONNOUSERSITE'', ''1''),
         (''PYTHONPATH'', ''/opt/ips-with-ai/python-packages:'' @ sv_working_directory sv)]\<rparr>"

definition effect :: "effect \<Rightarrow> ai_supervisor \<Rightarrow> ai_supervisor" where
  "effect e sv = sv\<lparr>sv_effects := sv_effects sv @ [e]\<rparr>"

definition set_state :: "ai_state \<Rightarrow> detail \<Rightarrow> ai_supervisor \<Rightarrow> ai_supervisor" where
  "set_state s d sv = effect (State_notified s d) (sv\<lparr>sv_state := s, sv_detail := d\<rparr>)"

text \<open>The call of \<open>remove_socket\<close>; whether it succeeds matters to \<open>start_attempt\<close> only.\<close>

definition remove_socket :: "ai_supervisor \<Rightarrow> ai_supervisor" where
  "remove_socket sv = effect Socket_removed sv"

definition socket_removed :: "bool \<Rightarrow> bool \<Rightarrow> bool" where
  "socket_removed exists removable \<longleftrightarrow> \<not> exists \<or> removable"

section \<open>Failures\<close>

definition restart_delay_ms :: "int \<Rightarrow> int" where
  "restart_delay_ms attempt_index = min (1000 * 2 ^ nat (min attempt_index 2)) 4000"

text \<open>\<open>stop\<close> is the call of \<open>stop_process\<close> with what its waits meet.\<close>

definition handle_failure ::
    "(ai_supervisor \<Rightarrow> ai_supervisor) \<Rightarrow> sup_failure \<Rightarrow> ai_supervisor \<Rightarrow> ai_supervisor" where
  "handle_failure stop reason sv =
     (if sv_stop_requested sv \<or> sv_state sv = STOPPING \<or> sv_failure_handled sv then sv
      else
        let sv = sv\<lparr>sv_failure_handled := True, sv_startup_timer := None, sv_stable_timer := None,
                    sv_model_version := []\<rparr>;
            max_restarts = ai_max_restarts (sv_config sv);
            can_restart = (sv_restart_attempts sv < max_restarts);
            sv = (if can_restart then set_state RESTART_WAIT (Waiting_after reason) sv
                  else set_state OFFLINE (Exhausted_after reason max_restarts) sv);
            sv = remove_socket (stop sv)
        in if can_restart \<and> \<not> sv_stop_requested sv
           then sv\<lparr>sv_restart_timer := Some (restart_delay_ms (sv_restart_attempts sv))\<rparr>
           else sv)"

section \<open>Output of the process\<close>

definition next_line :: "string \<Rightarrow> (string \<times> string) option" where
  "next_line buffer =
     (if CHR 0x0A \<in> set buffer
      then Some (takeWhile (\<lambda>c. c \<noteq> CHR 0x0A) buffer, tl (dropWhile (\<lambda>c. c \<noteq> CHR 0x0A) buffer))
      else None)"

definition chop_cr :: "string \<Rightarrow> string" where
  "chop_cr line = (if line \<noteq> [] \<and> last line = CHR 0x0D then butlast line else line)"

text \<open>The model version a ready line announces.\<close>

definition ready_line :: "(string \<Rightarrow> json option) \<Rightarrow> string \<Rightarrow> string option" where
  "ready_line json_parse line =
     (case json_parse line of
        None \<Rightarrow> None
      | Some ready \<Rightarrow>
          if is_object ready \<and> member ready ''event'' = Some (JString ''AI_READY'') \<and>
             (case member ready ''schema_version'' of
                None \<Rightarrow> False | Some v \<Rightarrow> is_number_integer v \<and> get_int v = Some 1)
          then case member ready ''model_version'' of
                 Some (JString version) \<Rightarrow> if version \<noteq> [] then Some version else None
               | _ \<Rightarrow> None
          else None)"

definition handle_stdout_line ::
    "(string \<Rightarrow> json option) \<Rightarrow> (string \<Rightarrow> string \<Rightarrow> string option) \<Rightarrow>
     (ai_supervisor \<Rightarrow> ai_supervisor) \<Rightarrow> string \<Rightarrow> ai_supervisor \<Rightarrow> ai_supervisor" where
  "handle_stdout_line json_parse ready_handler stop line sv =
     (if sv_state sv = STARTING then
        case ready_line json_parse line of
          None \<Rightarrow> sv
        | Some version \<Rightarrow>
            let sv = sv\<lparr>sv_startup_timer := None, sv_model_version := version\<rparr>;
                sv = effect (Ready_notified (sv_endpoint sv) version) sv
            in case ready_handler (sv_endpoint sv) version of
                 Some err \<Rightarrow> handle_failure stop (Ready_handler_error err) sv
               | None \<Rightarrow>
                   (set_state ONLINE Ai_online sv)
                     \<lparr>sv_stable_timer := Some (ai_restart_reset_seconds (sv_config sv) * 1000)\<rparr>
      else sv)"

text \<open>The loop takes one line at a time from the buffer. The number of line ends bounds it: the slots
  that run inside a line leave no complete line behind.\<close>

primrec stdout_loop ::
    "(string \<Rightarrow> json option) \<Rightarrow> (string \<Rightarrow> string \<Rightarrow> string option) \<Rightarrow>
     (ai_supervisor \<Rightarrow> ai_supervisor) \<Rightarrow> nat \<Rightarrow> ai_supervisor \<Rightarrow> ai_supervisor" where
  "stdout_loop json_parse ready_handler stop 0 sv = sv"
| "stdout_loop json_parse ready_handler stop (Suc n) sv =
     (case next_line (sv_stdout_buffer sv) of
        None \<Rightarrow> sv
      | Some (line, rest) \<Rightarrow>
          stdout_loop json_parse ready_handler stop n
            (handle_stdout_line json_parse ready_handler stop (chop_cr line) (sv\<lparr>sv_stdout_buffer := rest\<rparr>)))"

definition handle_stdout ::
    "(string \<Rightarrow> json option) \<Rightarrow> (string \<Rightarrow> string \<Rightarrow> string option) \<Rightarrow>
     (ai_supervisor \<Rightarrow> ai_supervisor) \<Rightarrow> string \<Rightarrow> ai_supervisor \<Rightarrow> ai_supervisor" where
  "handle_stdout json_parse ready_handler stop bytes sv =
     (let sv = sv\<lparr>sv_stdout_buffer := sv_stdout_buffer sv @ bytes\<rparr> in
      stdout_loop json_parse ready_handler stop (count_list (sv_stdout_buffer sv) (CHR 0x0A)) sv)"

text \<open>The error output is only logged; what stays in the buffer is its last, incomplete line.\<close>

definition handle_stderr :: "string \<Rightarrow> ai_supervisor \<Rightarrow> ai_supervisor" where
  "handle_stderr bytes sv =
     (let buffer = sv_stderr_buffer sv @ bytes in
      sv\<lparr>sv_stderr_buffer := rev (takeWhile (\<lambda>c. c \<noteq> CHR 0x0A) (rev buffer))\<rparr>)"

definition flush_partial_output :: "ai_supervisor \<Rightarrow> ai_supervisor" where
  "flush_partial_output sv = sv\<lparr>sv_stdout_buffer := [], sv_stderr_buffer := []\<rparr>"

section \<open>Signals of the process\<close>

text \<open>
  A signal with what its slot meets if it stops the process. \<open>Error_occurred\<close> says whether the process
  still runs; with \<open>Finished\<close> come the last bytes of both outputs. \<open>Stopping\<close> has, for the wait after
  \<open>terminate\<close> and for the wait after \<open>kill\<close>, the signals that come in and whether \<open>waitForFinished\<close>
  reports that the process has finished: then it runs no more.
\<close>

datatype signal =
    Output string stopping
  | Errors string
  | Error_occurred int string bool stopping
  | Finished int int string string stopping
and stopping = Stopping "signal list" bool "signal list" bool

fun on_signal ::
      "(string \<Rightarrow> json option) \<Rightarrow> (string \<Rightarrow> string \<Rightarrow> string option) \<Rightarrow> signal \<Rightarrow>
       ai_supervisor \<Rightarrow> ai_supervisor"
  and stop_process ::
      "(string \<Rightarrow> json option) \<Rightarrow> (string \<Rightarrow> string \<Rightarrow> string option) \<Rightarrow> stopping \<Rightarrow>
       ai_supervisor \<Rightarrow> ai_supervisor" where
  "on_signal json_parse ready_handler (Output bytes w) =
     handle_stdout json_parse ready_handler (stop_process json_parse ready_handler w) bytes"
| "on_signal json_parse ready_handler (Errors bytes) = handle_stderr bytes"
| "on_signal json_parse ready_handler (Error_occurred code message running w) =
     (\<lambda>sv. handle_failure (stop_process json_parse ready_handler w) (Qprocess_error code message)
       (sv\<lparr>sv_running := running\<rparr>))"
| "on_signal json_parse ready_handler (Finished exit_code status out err w) =
     (\<lambda>sv.
        let stop = stop_process json_parse ready_handler w;
            sv = handle_stdout json_parse ready_handler stop out (sv\<lparr>sv_running := False\<rparr>);
            sv = flush_partial_output (handle_stderr err sv)
        in if sv_state sv \<noteq> STOPPING then handle_failure stop (Process_exit exit_code status) sv else sv)"
| "stop_process json_parse ready_handler (Stopping during_terminate finished during_kill killed) =
     (\<lambda>sv.
        if \<not> sv_running sv then sv
        else
          let sv = fold (on_signal json_parse ready_handler) during_terminate (effect Process_terminated sv)
          in if finished then sv\<lparr>sv_running := False\<rparr>
             else
               let sv = fold (on_signal json_parse ready_handler) during_kill (effect Process_killed sv)
               in if killed then sv\<lparr>sv_running := False\<rparr> else sv)"

section \<open>Calls and timers\<close>

definition start_attempt ::
    "(ai_supervisor \<Rightarrow> ai_supervisor) \<Rightarrow> path_error + unit \<Rightarrow> bool \<Rightarrow> ai_supervisor \<Rightarrow> ai_supervisor" where
  "start_attempt stop checked removed sv =
     (if sv_stop_requested sv then sv
      else
        let sv = sv\<lparr>sv_failure_handled := False, sv_stdout_buffer := [], sv_stderr_buffer := [],
                    sv_model_version := []\<rparr>;
            sv = set_state STARTING
                   (if sv_restart_attempts sv = 0 then Starting_process else Restarting_process) sv
        in case checked of
             Inl path_error \<Rightarrow> handle_failure stop (Unsafe_python_path path_error) sv
           | Inr u \<Rightarrow>
               let sv = remove_socket sv in
               if \<not> removed then handle_failure stop Stale_socket sv
               else effect Process_started
                 (sv\<lparr>sv_startup_timer := Some (ai_startup_timeout_ms (sv_config sv)), sv_running := True\<rparr>))"

definition supervisor_start ::
    "(ai_supervisor \<Rightarrow> ai_supervisor) \<Rightarrow> path_error + unit \<Rightarrow> bool \<Rightarrow> ai_supervisor \<Rightarrow> ai_supervisor" where
  "supervisor_start stop checked removed sv =
     (if sv_stop_requested sv \<or> sv_state sv = STARTING \<or> sv_state sv = ONLINE \<or> sv_state sv = RESTART_WAIT
      then sv
      else if \<not> ai_enabled (sv_config sv) then set_state DISABLED Disabled_by_config sv
      else start_attempt stop checked removed (sv\<lparr>sv_restart_attempts := 0\<rparr>))"

definition supervisor_stop :: "(ai_supervisor \<Rightarrow> ai_supervisor) \<Rightarrow> ai_supervisor \<Rightarrow> ai_supervisor" where
  "supervisor_stop stop sv =
     (if sv_stop_requested sv then sv
      else
        let sv = set_state STOPPING Shutting_down (sv\<lparr>sv_stop_requested := True\<rparr>);
            sv = sv\<lparr>sv_startup_timer := None, sv_restart_timer := None, sv_stable_timer := None\<rparr>
        in remove_socket (stop sv))"

definition report_transport_failure ::
    "(ai_supervisor \<Rightarrow> ai_supervisor) \<Rightarrow> string \<Rightarrow> ai_supervisor \<Rightarrow> ai_supervisor" where
  "report_transport_failure stop reason sv =
     (if sv_state sv = ONLINE then handle_failure stop (Transport_failure reason) sv else sv)"

definition startup_timeout :: "(ai_supervisor \<Rightarrow> ai_supervisor) \<Rightarrow> ai_supervisor \<Rightarrow> ai_supervisor" where
  "startup_timeout stop sv = handle_failure stop Startup_timeout (sv\<lparr>sv_startup_timer := None\<rparr>)"

definition restart_timeout ::
    "(ai_supervisor \<Rightarrow> ai_supervisor) \<Rightarrow> path_error + unit \<Rightarrow> bool \<Rightarrow> ai_supervisor \<Rightarrow> ai_supervisor" where
  "restart_timeout stop checked removed sv =
     start_attempt stop checked removed
       (sv\<lparr>sv_restart_timer := None, sv_restart_attempts := sv_restart_attempts sv + 1,
           sv_restart_count := sv_restart_count sv + 1\<rparr>)"

definition stable_timeout :: "ai_supervisor \<Rightarrow> ai_supervisor" where
  "stable_timeout sv = sv\<lparr>sv_stable_timer := None, sv_restart_attempts := 0\<rparr>"

record supervisor_snapshot =
  sn_state :: ai_state
  sn_model_version :: string
  sn_restart_count :: u64
  sn_detail :: detail

definition snapshot :: "ai_supervisor \<Rightarrow> supervisor_snapshot" where
  "snapshot sv =
     \<lparr>sn_state = sv_state sv, sn_model_version = sv_model_version sv,
      sn_restart_count = sv_restart_count sv, sn_detail = sv_detail sv\<rparr>"

section \<open>The event loop\<close>

text \<open>
  One turn of the event loop. A turn is labelled with what the number of restarts depends on. A timer
  only fires while it runs. An attempt to start checks the paths as the file system has them at that
  moment; a check that never ended would give no step. Signals come from a process that was started.
\<close>

datatype turn = Begin | Restart | Stable | Other

inductive sup_step ::
    "(string \<Rightarrow> json option) \<Rightarrow> (string \<Rightarrow> string \<Rightarrow> string option) \<Rightarrow>
     ai_supervisor \<Rightarrow> turn \<Rightarrow> ai_supervisor \<Rightarrow> bool"
  for json_parse :: "string \<Rightarrow> json option" and ready_handler :: "string \<Rightarrow> string \<Rightarrow> string option" where
  Called_start: "validate_python_paths fs (sv_working_directory sv) = Some checked \<Longrightarrow>
    sup_step json_parse ready_handler sv Begin
      (supervisor_start (stop_process json_parse ready_handler w) checked (socket_removed ex rm) sv)"
| Called_stop: "sup_step json_parse ready_handler sv Other
    (supervisor_stop (stop_process json_parse ready_handler w) sv)"
| Called_report: "sup_step json_parse ready_handler sv Other
    (report_transport_failure (stop_process json_parse ready_handler w) reason sv)"
| Startup_fires: "sv_startup_timer sv = Some ms \<Longrightarrow>
    sup_step json_parse ready_handler sv Other (startup_timeout (stop_process json_parse ready_handler w) sv)"
| Restart_fires: "sv_restart_timer sv = Some ms \<Longrightarrow>
    validate_python_paths fs (sv_working_directory sv) = Some checked \<Longrightarrow>
    sup_step json_parse ready_handler sv Restart
      (restart_timeout (stop_process json_parse ready_handler w) checked (socket_removed ex rm) sv)"
| Stable_fires: "sv_stable_timer sv = Some ms \<Longrightarrow>
    sup_step json_parse ready_handler sv Stable (stable_timeout sv)"
| Signalled: "sv_running sv \<Longrightarrow>
    sup_step json_parse ready_handler sv Other (on_signal json_parse ready_handler s sv)"

inductive sup_run ::
    "(string \<Rightarrow> json option) \<Rightarrow> (string \<Rightarrow> string \<Rightarrow> string option) \<Rightarrow>
     ai_supervisor \<Rightarrow> turn list \<Rightarrow> ai_supervisor \<Rightarrow> bool"
  for json_parse :: "string \<Rightarrow> json option" and ready_handler :: "string \<Rightarrow> string \<Rightarrow> string option" where
  No_turn: "sup_run json_parse ready_handler sv [] sv"
| One_turn: "sup_run json_parse ready_handler sv ts sv' \<Longrightarrow> sup_step json_parse ready_handler sv' t sv'' \<Longrightarrow>
    sup_run json_parse ready_handler sv (ts @ [t]) sv''"

inductive_cases sup_stepE: "sup_step json_parse ready_handler sv t sv'"

end
