(* ===== verification/Supervisor_Properties.thy ===== *)
theory Supervisor_Properties
  imports Supervisor
begin

text \<open>
  What the supervisor guarantees: at most one reaction to the failures of one attempt, however the
  signals of a dying process nest; the restart limit and the delays; a final stop; a process started
  from paths only root can write; and a reading of the process's output that does not depend on how
  it arrives in pieces.

  The locale \<open>quiet_stop\<close> is the contract between the slots and the waits of \<open>stop_process\<close>: once a
  failure is being handled, or the program stops, a wait changes nothing but buffers. The slots are
  verified against the contract, and \<open>stop_process\<close> fulfils it.
\<close>

section \<open>Slots that run inside a wait\<close>

definition settled :: "ai_supervisor \<Rightarrow> bool" where
  "settled sv \<longleftrightarrow> (sv_stop_requested sv \<or> sv_state sv = STOPPING \<or> sv_failure_handled sv) \<and>
     sv_state sv \<noteq> STARTING"

definition line_ends :: "string \<Rightarrow> nat" where
  "line_ends s = count_list s (CHR 0x0A)"

definition rebuffer :: "bool \<Rightarrow> string \<Rightarrow> string \<Rightarrow> ai_supervisor \<Rightarrow> ai_supervisor" where
  "rebuffer r out err sv = sv\<lparr>sv_running := r, sv_stdout_buffer := out, sv_stderr_buffer := err\<rparr>"

text \<open>Nothing changed but the buffers and whether the process runs, and no line came in.\<close>

definition rebuffered :: "ai_supervisor \<Rightarrow> ai_supervisor \<Rightarrow> bool" where
  "rebuffered sv sv' \<longleftrightarrow>
     (\<exists>r out err. sv' = rebuffer r out err sv \<and> line_ends out \<le> line_ends (sv_stdout_buffer sv))"

lemma rebuffer_sel [simp]:
  "sv_state (rebuffer r out err sv) = sv_state sv"
  "sv_stdout_buffer (rebuffer r out err sv) = out"
  "sv_stderr_buffer (rebuffer r out err sv) = err"
  "sv_effects (rebuffer r out err sv) = sv_effects sv"
  "settled (rebuffer r out err sv) = settled sv"
  "rebuffer r out err (rebuffer r' out' err' sv) = rebuffer r out err sv"
  by (simp_all add: rebuffer_def settled_def)

lemma rebuffer_same: "rebuffer (sv_running sv) (sv_stdout_buffer sv) (sv_stderr_buffer sv) sv = sv"
  by (simp add: rebuffer_def)

lemma rebufferedI:
  "sv' = rebuffer r out err sv \<Longrightarrow> line_ends out \<le> line_ends (sv_stdout_buffer sv) \<Longrightarrow> rebuffered sv sv'"
  by (auto simp: rebuffered_def)

lemma rebuffered_refl [simp]: "rebuffered sv sv"
  by (rule rebufferedI [OF rebuffer_same [symmetric]]) simp

lemma rebuffered_trans [trans]: "rebuffered a b \<Longrightarrow> rebuffered b c \<Longrightarrow> rebuffered a c"
  unfolding rebuffered_def by (elim exE conjE) (use le_trans in \<open>auto 4 3\<close>)

lemma rebuffered_settled: "rebuffered sv sv' \<Longrightarrow> settled sv' = settled sv"
  by (auto simp: rebuffered_def)

lemma settled_failure [simp]: "settled sv \<Longrightarrow> handle_failure stop reason sv = sv"
  by (auto simp: settled_def handle_failure_def)

lemma settled_line [simp]: "settled sv \<Longrightarrow> handle_stdout_line jp rh stop line sv = sv"
  by (auto simp: settled_def handle_stdout_line_def)

lemma next_line_Some:
  assumes "next_line b = Some (line, rest)"
  shows "b = line @ CHR 0x0A # rest \<and> CHR 0x0A \<notin> set line"
proof -
  have nl: "CHR 0x0A \<in> set b" and eqs: "line = takeWhile (\<lambda>c. c \<noteq> CHR 0x0A) b"
    "rest = tl (dropWhile (\<lambda>c. c \<noteq> CHR 0x0A) b)"
    using assms by (auto simp: next_line_def split: if_splits)
  show ?thesis unfolding eqs using nl by (induction b) auto
qed

lemma next_line_None: "next_line b = None \<longleftrightarrow> CHR 0x0A \<notin> set b"
  by (simp add: next_line_def)

lemma next_line_ends:
  "next_line b = Some (line, rest) \<Longrightarrow> line_ends b = Suc (line_ends rest)"
  "next_line b = None \<Longrightarrow> line_ends b = 0"
  by (auto simp: line_ends_def next_line_None count_list_0_iff dest!: next_line_Some)

lemma settled_loop:
  "settled sv \<Longrightarrow> \<exists>out. stdout_loop jp rh stop n sv = sv\<lparr>sv_stdout_buffer := out\<rparr> \<and>
     line_ends out = line_ends (sv_stdout_buffer sv) - n"
proof (induction n arbitrary: sv)
  case (Suc n)
  show ?case
  proof (cases "next_line (sv_stdout_buffer sv)")
    case None
    then show ?thesis by (auto simp: next_line_ends intro!: exI [where x = "sv_stdout_buffer sv"])
  next
    case (Some lr)
    then obtain line rest where lr: "next_line (sv_stdout_buffer sv) = Some (line, rest)"
      by (cases lr) auto
    have s: "settled (sv\<lparr>sv_stdout_buffer := rest\<rparr>)" using Suc.prems by (simp add: settled_def)
    then show ?thesis
      using Suc.IH [OF s] lr by (auto simp: next_line_ends)
  qed
qed (auto intro!: exI [where x = "sv_stdout_buffer sv" for sv])

lemma settled_stdout:
  assumes "settled sv"
  shows "rebuffered sv (handle_stdout jp rh stop bytes sv)"
proof -
  have s: "settled (sv\<lparr>sv_stdout_buffer := sv_stdout_buffer sv @ bytes\<rparr>)"
    using assms by (simp add: settled_def)
  obtain out where
    "stdout_loop jp rh stop (count_list (sv_stdout_buffer sv @ bytes) (CHR 0x0A))
       (sv\<lparr>sv_stdout_buffer := sv_stdout_buffer sv @ bytes\<rparr>) = sv\<lparr>sv_stdout_buffer := out\<rparr>"
    "line_ends out = 0"
    using settled_loop [OF s, of jp rh stop "count_list (sv_stdout_buffer sv @ bytes) (CHR 0x0A)"]
    by (auto simp: line_ends_def)
  then show ?thesis
    by (intro rebufferedI [where r = "sv_running sv" and out = out and err = "sv_stderr_buffer sv"])
      (simp_all add: handle_stdout_def rebuffer_def)
qed

lemma settled_stderr: "rebuffered sv (handle_stderr bytes sv)"
  by (rule rebufferedI [where r = "sv_running sv" and out = "sv_stdout_buffer sv" and
        err = "sv_stderr_buffer (handle_stderr bytes sv)"])
    (simp_all add: handle_stderr_def rebuffer_def)

lemma rebuffered_flush: "rebuffered sv (flush_partial_output sv)"
  by (rule rebufferedI [where r = "sv_running sv" and out = "[]" and err = "[]"])
    (simp_all add: flush_partial_output_def rebuffer_def line_ends_def)

lemma rebuffered_running: "rebuffered sv (sv\<lparr>sv_running := r\<rparr>)"
  by (rule rebufferedI [where r = r and out = "sv_stdout_buffer sv" and err = "sv_stderr_buffer sv"])
    (simp_all add: rebuffer_def)

text \<open>Whatever a process reports while a slot waits for its end, nothing is done about it.\<close>

lemma settled_signal:
  assumes "settled sv"
  shows "rebuffered sv (on_signal jp rh s sv)"
proof (cases s)
  case (Output bytes w)
  with assms show ?thesis by (simp add: settled_stdout)
next
  case (Errors bytes)
  then show ?thesis by (simp add: settled_stderr)
next
  case (Error_occurred code message running w)
  have "settled (sv\<lparr>sv_running := running\<rparr>)" using assms by (simp add: settled_def)
  with Error_occurred show ?thesis by (simp add: rebuffered_running)
next
  case (Finished exit_code status out err w)
  let ?s0 = "sv\<lparr>sv_running := False\<rparr>"
  let ?s1 = "handle_stdout jp rh (stop_process jp rh w) out ?s0"
  let ?s2 = "flush_partial_output (handle_stderr err ?s1)"
  have s0: "settled ?s0" using assms by (simp add: settled_def)
  have "rebuffered sv ?s0" by (rule rebuffered_running)
  also have "rebuffered ?s0 ?s1" by (rule settled_stdout [OF s0])
  also have "rebuffered ?s1 (handle_stderr err ?s1)" by (rule settled_stderr)
  also have "rebuffered (handle_stderr err ?s1) ?s2" by (rule rebuffered_flush)
  finally have b: "rebuffered sv ?s2" .
  with assms have "settled ?s2" by (simp add: rebuffered_settled)
  with b Finished show ?thesis by (simp add: Let_def)
qed

lemma settled_signals: "settled sv \<Longrightarrow> rebuffered sv (fold (on_signal jp rh) ss sv)"
proof (induction ss arbitrary: sv)
  case (Cons s ss)
  have "rebuffered sv (on_signal jp rh s sv)" by (rule settled_signal [OF Cons.prems])
  moreover from this have "settled (on_signal jp rh s sv)" using Cons.prems by (simp add: rebuffered_settled)
  then have "rebuffered (on_signal jp rh s sv) (fold (on_signal jp rh) ss (on_signal jp rh s sv))"
    by (rule Cons.IH)
  ultimately show ?case by (auto intro: rebuffered_trans)
qed simp

section \<open>The contract of a wait\<close>

definition stop_effects :: "effect list set" where
  "stop_effects = {[], [Process_terminated], [Process_terminated, Process_killed]}"

text \<open>A process that still runs after the waits has been terminated and killed.\<close>

lemma settled_stop:
  assumes "settled sv"
  shows "\<exists>es \<in> stop_effects.
    rebuffered (sv\<lparr>sv_effects := sv_effects sv @ es\<rparr>) (stop_process jp rh w sv) \<and>
    (sv_running (stop_process jp rh w sv) \<longrightarrow> es = [Process_terminated, Process_killed])"
proof (cases w)
  case (Stopping d fin k killed)
  let ?t = "effect Process_terminated sv"
  let ?s1 = "fold (on_signal jp rh) d ?t"
  have st: "settled ?t" using assms by (simp add: settled_def effect_def)
  have b1: "rebuffered ?t ?s1" by (rule settled_signals [OF st])
  then obtain r out err where s1: "?s1 = rebuffer r out err ?t"
      "line_ends out \<le> line_ends (sv_stdout_buffer ?t)"
    by (auto simp: rebuffered_def)
  have sk: "settled (effect Process_killed ?s1)"
    using st unfolding s1 by (simp add: settled_def effect_def rebuffer_def)
  have "rebuffered (effect Process_killed ?s1) (fold (on_signal jp rh) k (effect Process_killed ?s1))"
    by (rule settled_signals [OF sk])
  moreover have "rebuffered (effect Process_killed ?t) (effect Process_killed ?s1)"
    by (rule rebufferedI [where r = r and out = out and err = err])
      (use s1 in \<open>simp_all add: effect_def rebuffer_def\<close>)
  ultimately have b2: "rebuffered (effect Process_killed ?t)
      (fold (on_signal jp rh) k (effect Process_killed ?s1))"
    by (rule rebuffered_trans [rotated])
  consider "\<not> sv_running sv" | "sv_running sv" fin | "sv_running sv" "\<not> fin" by blast
  then show ?thesis
  proof cases
    case 1
    then show ?thesis using Stopping by (intro bexI [where x = "[]"]) (simp_all add: stop_effects_def)
  next
    case 2
    then show ?thesis using Stopping rebuffered_trans [OF b1 rebuffered_running [where r = False]]
      by (intro bexI [where x = "[Process_terminated]"]) (simp_all add: stop_effects_def effect_def)
  next
    case 3
    then show ?thesis using Stopping b2 rebuffered_trans [OF b2 rebuffered_running [where r = False]]
      by (intro bexI [where x = "[Process_terminated, Process_killed]"])
        (simp_all add: stop_effects_def effect_def Let_def)
  qed
qed

section \<open>The invariant\<close>

text \<open>The timers that run and the counters, by the state the supervisor is in.\<close>

definition core_inv :: "ai_supervisor \<Rightarrow> bool" where
  "core_inv sv \<longleftrightarrow>
     (sv_stop_requested sv \<longleftrightarrow> sv_state sv = STOPPING) \<and>
     sv_startup_timer sv =
       (if sv_state sv = STARTING then Some (ai_startup_timeout_ms (sv_config sv)) else None) \<and>
     sv_restart_timer sv =
       (if sv_state sv = RESTART_WAIT then Some (restart_delay_ms (sv_restart_attempts sv)) else None) \<and>
     (sv_state sv = ONLINE \<and> sv_stable_timer sv = Some (ai_restart_reset_seconds (sv_config sv) * 1000) \<or>
      sv_state sv = ONLINE \<and> sv_stable_timer sv = None \<and> sv_restart_attempts sv = 0 \<or>
      sv_state sv \<noteq> ONLINE \<and> sv_stable_timer sv = None) \<and>
     (sv_state sv \<noteq> STOPPING \<longrightarrow>
       (sv_failure_handled sv \<longleftrightarrow> sv_state sv \<in> {RESTART_WAIT, OFFLINE}) \<and>
       (sv_model_version sv \<noteq> [] \<longleftrightarrow> sv_state sv = ONLINE)) \<and>
     0 \<le> sv_restart_attempts sv \<and> sv_restart_attempts sv \<le> ai_max_restarts (sv_config sv) \<and>
     (sv_state sv = RESTART_WAIT \<longrightarrow> sv_restart_attempts sv < ai_max_restarts (sv_config sv)) \<and>
     (sv_state sv = OFFLINE \<longrightarrow> sv_restart_attempts sv = ai_max_restarts (sv_config sv)) \<and>
     (sv_state sv \<notin> {DISABLED, STOPPING} \<longrightarrow> ai_enabled (sv_config sv))"

definition sup_inv :: "ai_supervisor \<Rightarrow> bool" where
  "sup_inv sv \<longleftrightarrow> core_inv sv \<and> (sv_state sv = DISABLED \<longrightarrow> \<not> sv_running sv)"

text \<open>What a slot may rely on when it reports a failure of the current attempt.\<close>

definition attempt_ok :: "ai_supervisor \<Rightarrow> bool" where
  "attempt_ok sv \<longleftrightarrow> sv_state sv \<in> {STARTING, ONLINE} \<and> \<not> sv_stop_requested sv \<and>
     \<not> sv_failure_handled sv \<and> sv_restart_timer sv = None \<and>
     0 \<le> sv_restart_attempts sv \<and> sv_restart_attempts sv \<le> ai_max_restarts (sv_config sv) \<and>
     ai_enabled (sv_config sv)"

lemma core_rebuffer [simp]: "core_inv (rebuffer r out err sv) = core_inv sv"
  by (simp add: rebuffer_def core_inv_def)

lemma core_rebuffered: "rebuffered sv sv' \<Longrightarrow> core_inv sv' = core_inv sv"
  by (auto simp: rebuffered_def)

lemma state_rebuffered: "rebuffered sv sv' \<Longrightarrow> sv_state sv' = sv_state sv"
  by (auto simp: rebuffered_def)

lemma core_effect [simp]:
  "core_inv (sv\<lparr>sv_effects := es\<rparr>) = core_inv sv"
  "core_inv (effect e sv) = core_inv sv"
  "sv_state (effect e sv) = sv_state sv"
  by (simp_all add: effect_def core_inv_def)

lemma core_attempt_ok: "core_inv sv \<Longrightarrow> sv_state sv \<in> {STARTING, ONLINE} \<Longrightarrow> attempt_ok sv"
  by (auto simp: core_inv_def attempt_ok_def)

lemma core_settled: "core_inv sv \<Longrightarrow> sv_state sv \<in> {RESTART_WAIT, OFFLINE, STOPPING} \<Longrightarrow> settled sv"
  by (auto simp: core_inv_def settled_def)

text \<open>The reaction to a failure, up to what the buffers hold afterwards.\<close>

definition after_failure :: "sup_failure \<Rightarrow> effect list \<Rightarrow> ai_supervisor \<Rightarrow> ai_supervisor" where
  "after_failure reason es sv =
     (let max_restarts = ai_max_restarts (sv_config sv);
          restart = (sv_restart_attempts sv < max_restarts);
          s = (if restart then RESTART_WAIT else OFFLINE);
          d = (if restart then Waiting_after reason else Exhausted_after reason max_restarts)
      in sv\<lparr>sv_failure_handled := True, sv_startup_timer := None, sv_stable_timer := None,
            sv_model_version := [], sv_state := s, sv_detail := d,
            sv_restart_timer :=
              (if restart then Some (restart_delay_ms (sv_restart_attempts sv)) else sv_restart_timer sv),
            sv_effects := sv_effects sv @ [State_notified s d] @ es @ [Socket_removed]\<rparr>)"

lemma after_failure_core: "attempt_ok sv \<Longrightarrow> core_inv (after_failure reason es sv)"
  by (auto simp: attempt_ok_def core_inv_def after_failure_def Let_def)

lemma after_failure_state: "sv_state (after_failure reason es sv) \<in> {RESTART_WAIT, OFFLINE}"
  by (simp add: after_failure_def Let_def)

locale quiet_stop =
  fixes stop :: "ai_supervisor \<Rightarrow> ai_supervisor"
  assumes quiet: "settled sv \<Longrightarrow>
    \<exists>es \<in> stop_effects. rebuffered (sv\<lparr>sv_effects := sv_effects sv @ es\<rparr>) (stop sv)"
begin

lemma failure_result:
  assumes "\<not> sv_stop_requested sv" "sv_state sv \<noteq> STOPPING" "\<not> sv_failure_handled sv"
  shows "\<exists>es \<in> stop_effects. rebuffered (after_failure reason es sv) (handle_failure stop reason sv)"
proof -
  let ?r = "sv_restart_attempts sv < ai_max_restarts (sv_config sv)"
  let ?s = "sv\<lparr>sv_failure_handled := True, sv_startup_timer := None, sv_stable_timer := None,
    sv_model_version := []\<rparr>"
  let ?n = "if ?r then set_state RESTART_WAIT (Waiting_after reason) ?s
    else set_state OFFLINE (Exhausted_after reason (ai_max_restarts (sv_config sv))) ?s"
  have "settled ?n" by (simp add: settled_def set_state_def effect_def)
  from quiet [OF this] obtain es r out err where es: "es \<in> stop_effects"
    and stop: "stop ?n = rebuffer r out err (?n\<lparr>sv_effects := sv_effects ?n @ es\<rparr>)"
      "line_ends out \<le> line_ends (sv_stdout_buffer ?n)"
    by (auto simp: rebuffered_def)
  have "rebuffered (after_failure reason es sv) (handle_failure stop reason sv)"
  proof (rule rebufferedI)
    show "handle_failure stop reason sv = rebuffer r out err (after_failure reason es sv)"
      using assms stop(1)
      by (cases ?r) (simp_all add: handle_failure_def after_failure_def Let_def remove_socket_def
          effect_def set_state_def rebuffer_def)
    show "line_ends out \<le> line_ends (sv_stdout_buffer (after_failure reason es sv))"
      using stop(2) by (cases ?r) (simp_all add: after_failure_def Let_def set_state_def effect_def)
  qed
  with es show ?thesis by blast
qed

lemma failure_core:
  assumes "attempt_ok sv"
  shows "core_inv (handle_failure stop reason sv) \<and>
    sv_state (handle_failure stop reason sv) \<in> {RESTART_WAIT, OFFLINE}"
proof -
  have "\<not> sv_stop_requested sv" "sv_state sv \<noteq> STOPPING" "\<not> sv_failure_handled sv"
    using assms by (auto simp: attempt_ok_def)
  from failure_result [OF this, of reason] obtain es where
    "rebuffered (after_failure reason es sv) (handle_failure stop reason sv)" by blast
  then show ?thesis
    using after_failure_core [OF assms, of reason es] after_failure_state [of reason es sv]
    by (simp add: core_rebuffered state_rebuffered)
qed

lemma failure_ok:
  assumes "core_inv sv" "sv_state sv \<noteq> DISABLED"
  shows "core_inv (handle_failure stop reason sv) \<and>
    sv_state (handle_failure stop reason sv) \<in> {RESTART_WAIT, OFFLINE, STOPPING}"
proof (cases "sv_state sv \<in> {STARTING, ONLINE}")
  case True
  with failure_core [OF core_attempt_ok [OF assms(1) True], of reason] show ?thesis by auto
next
  case False
  with assms(2) have m: "sv_state sv \<in> {RESTART_WAIT, OFFLINE, STOPPING}" by (cases "sv_state sv") auto
  with core_settled [OF assms(1) m] assms show ?thesis by simp
qed

lemma line_ok:
  assumes "core_inv sv" "sv_state sv \<noteq> DISABLED"
  shows "core_inv (handle_stdout_line jp rh stop line sv) \<and>
    sv_state (handle_stdout_line jp rh stop line sv) \<noteq> DISABLED"
proof (cases "sv_state sv = STARTING \<and> ready_line jp line \<noteq> None")
  case True
  then obtain v where v: "ready_line jp line = Some v" by blast
  have vn: "v \<noteq> []" using v by (auto simp: ready_line_def split: option.splits if_splits json.splits)
  let ?s = "effect (Ready_notified (sv_endpoint sv) v) (sv\<lparr>sv_startup_timer := None, sv_model_version := v\<rparr>)"
  have ok: "attempt_ok ?s" using assms True by (auto simp: core_inv_def attempt_ok_def effect_def)
  show ?thesis
  proof (cases "rh (sv_endpoint sv) v")
    case (Some e)
    then show ?thesis using True v failure_core [OF ok, of "Ready_handler_error e"]
      by (auto simp: handle_stdout_line_def Let_def effect_def)
  next
    case None
    then show ?thesis using True v vn assms
      by (auto simp: handle_stdout_line_def Let_def set_state_def effect_def core_inv_def)
  qed
next
  case False
  with assms show ?thesis by (auto simp: handle_stdout_line_def)
qed

lemma loop_ok:
  assumes "core_inv sv" "sv_state sv \<noteq> DISABLED"
  shows "core_inv (stdout_loop jp rh stop n sv) \<and> sv_state (stdout_loop jp rh stop n sv) \<noteq> DISABLED"
  using assms
proof (induction n arbitrary: sv)
  case (Suc n)
  show ?case
  proof (cases "next_line (sv_stdout_buffer sv)")
    case (Some lr)
    obtain line rest where lr: "lr = (line, rest)" by (cases lr)
    have "core_inv (sv\<lparr>sv_stdout_buffer := rest\<rparr>)" "sv_state (sv\<lparr>sv_stdout_buffer := rest\<rparr>) \<noteq> DISABLED"
      using Suc.prems by (simp_all add: core_inv_def)
    from line_ok [OF this, of jp rh "chop_cr line"] Some lr Suc.IH show ?thesis by simp
  qed (use Suc.prems in simp)
qed simp

lemma stdout_ok:
  assumes "core_inv sv" "sv_state sv \<noteq> DISABLED"
  shows "core_inv (handle_stdout jp rh stop bytes sv) \<and> sv_state (handle_stdout jp rh stop bytes sv) \<noteq> DISABLED"
proof -
  have "core_inv (sv\<lparr>sv_stdout_buffer := sv_stdout_buffer sv @ bytes\<rparr>)"
    "sv_state (sv\<lparr>sv_stdout_buffer := sv_stdout_buffer sv @ bytes\<rparr>) \<noteq> DISABLED"
    using assms by (simp_all add: core_inv_def)
  from loop_ok [OF this] show ?thesis by (simp add: handle_stdout_def Let_def)
qed

lemma start_attempt_inv:
  assumes "\<not> sv_stop_requested sv" "sv_startup_timer sv = None" "sv_restart_timer sv = None"
    "sv_stable_timer sv = None" "0 \<le> sv_restart_attempts sv"
    "sv_restart_attempts sv \<le> ai_max_restarts (sv_config sv)" "ai_enabled (sv_config sv)"
  shows "sup_inv (start_attempt stop checked removed sv)"
proof -
  let ?s = "set_state STARTING (if sv_restart_attempts sv = 0 then Starting_process else Restarting_process)
    (sv\<lparr>sv_failure_handled := False, sv_stdout_buffer := [], sv_stderr_buffer := [], sv_model_version := []\<rparr>)"
  have ok: "attempt_ok ?s" "attempt_ok (remove_socket ?s)"
    using assms by (simp_all add: attempt_ok_def set_state_def effect_def remove_socket_def)
  consider (path) e where "checked = Inl e" | (socket) u where "checked = Inr u" "\<not> removed"
    | (go) u where "checked = Inr u" removed
    by (cases checked) auto
  then show ?thesis
  proof cases
    case path
    then show ?thesis using assms(1) failure_core [OF ok(1), of "Unsafe_python_path e"]
      by (auto simp: start_attempt_def Let_def sup_inv_def)
  next
    case socket
    then show ?thesis using assms(1) failure_core [OF ok(2), of Stale_socket]
      by (auto simp: start_attempt_def Let_def sup_inv_def)
  next
    case go
    then show ?thesis using assms
      by (simp add: start_attempt_def Let_def sup_inv_def core_inv_def set_state_def effect_def remove_socket_def)
  qed
qed

lemma start_inv:
  assumes "sup_inv sv"
  shows "sup_inv (supervisor_start stop checked removed sv)"
proof -
  consider (busy) "sv_stop_requested sv \<or> sv_state sv \<in> {STARTING, ONLINE, RESTART_WAIT}"
    | (idle) "\<not> sv_stop_requested sv" "sv_state sv = DISABLED \<or> sv_state sv = OFFLINE"
    using assms by (cases "sv_state sv") (auto simp: sup_inv_def core_inv_def)
  then show ?thesis
  proof cases
    case busy
    then show ?thesis using assms by (auto simp: supervisor_start_def)
  next
    case idle
    have t: "sv_startup_timer sv = None \<and> sv_restart_timer sv = None \<and> sv_stable_timer sv = None \<and>
        0 \<le> ai_max_restarts (sv_config sv)"
      using assms idle by (auto simp: sup_inv_def core_inv_def)
    have "sup_inv (start_attempt stop checked removed (sv\<lparr>sv_restart_attempts := 0\<rparr>))"
      if "ai_enabled (sv_config sv)"
      by (rule start_attempt_inv) (use that idle t in simp_all)
    moreover have "sup_inv (set_state DISABLED Disabled_by_config sv)" if "\<not> ai_enabled (sv_config sv)"
      using that assms idle by (auto simp: sup_inv_def core_inv_def set_state_def effect_def)
    ultimately show ?thesis using idle by (auto simp: supervisor_start_def)
  qed
qed

lemma stop_inv:
  assumes "sup_inv sv"
  shows "sup_inv (supervisor_stop stop sv)"
proof (cases "sv_stop_requested sv")
  case False
  let ?s = "(set_state STOPPING Shutting_down (sv\<lparr>sv_stop_requested := True\<rparr>))
    \<lparr>sv_startup_timer := None, sv_restart_timer := None, sv_stable_timer := None\<rparr>"
  have c: "core_inv ?s" using assms by (auto simp: sup_inv_def core_inv_def set_state_def effect_def)
  have s: "settled ?s" "sv_state ?s = STOPPING" by (simp_all add: settled_def set_state_def effect_def)
  from quiet [OF s(1)] obtain es where b: "rebuffered (?s\<lparr>sv_effects := sv_effects ?s @ es\<rparr>) (stop ?s)" by blast
  have "core_inv (?s\<lparr>sv_effects := sv_effects ?s @ es\<rparr>)" using c by (simp only: core_effect)
  with core_rebuffered [OF b] state_rebuffered [OF b] s(2)
  have "core_inv (stop ?s)" "sv_state (stop ?s) = STOPPING" by simp_all
  moreover have "supervisor_stop stop sv = effect Socket_removed (stop ?s)"
    using False by (simp add: supervisor_stop_def Let_def remove_socket_def)
  ultimately show ?thesis by (simp add: sup_inv_def)
qed (use assms in \<open>simp add: supervisor_stop_def\<close>)

end

interpretation waits: quiet_stop "stop_process jp rh w" for jp rh w
  by unfold_locales (use settled_stop in blast)

section \<open>Every step keeps the invariant\<close>

text \<open>A process that has ended is a failure, unless it was asked to end.\<close>

lemma finished_failed:
  assumes "core_inv sv" "sv_state sv \<noteq> DISABLED"
  shows "core_inv (on_signal jp rh (Finished exit_code status out err w) sv) \<and>
    sv_state (on_signal jp rh (Finished exit_code status out err w) sv) \<in> {RESTART_WAIT, OFFLINE, STOPPING}"
proof -
  let ?s1 = "handle_stdout jp rh (stop_process jp rh w) out (sv\<lparr>sv_running := False\<rparr>)"
  let ?s2 = "flush_partial_output (handle_stderr err ?s1)"
  have "core_inv (sv\<lparr>sv_running := False\<rparr>)" "sv_state (sv\<lparr>sv_running := False\<rparr>) \<noteq> DISABLED"
    using assms by (simp_all add: core_inv_def)
  then have "core_inv ?s1 \<and> sv_state ?s1 \<noteq> DISABLED" by (rule waits.stdout_ok)
  moreover have b: "rebuffered ?s1 ?s2" by (rule rebuffered_trans [OF settled_stderr rebuffered_flush])
  ultimately have s2: "core_inv ?s2" "sv_state ?s2 \<noteq> DISABLED"
    by (simp_all add: core_rebuffered [OF b] state_rebuffered [OF b])
  then show ?thesis using waits.failure_ok [OF s2, of jp rh w "Process_exit exit_code status"]
    by (auto simp: Let_def)
qed

lemma signal_inv:
  assumes "sup_inv sv" "sv_running sv"
  shows "sup_inv (on_signal jp rh s sv)"
proof -
  have c: "core_inv sv" "sv_state sv \<noteq> DISABLED" using assms by (auto simp: sup_inv_def)
  have r: "core_inv (sv\<lparr>sv_running := r\<rparr>)" "sv_state (sv\<lparr>sv_running := r\<rparr>) \<noteq> DISABLED" for r
    using c by (simp_all add: core_inv_def)
  show ?thesis
  proof (cases s)
    case (Output bytes w)
    then show ?thesis using waits.stdout_ok [OF c, of jp rh jp rh w bytes] by (simp add: sup_inv_def)
  next
    case (Errors bytes)
    have "rebuffered sv (handle_stderr bytes sv)" by (rule settled_stderr)
    with c Errors show ?thesis by (simp add: sup_inv_def core_rebuffered state_rebuffered)
  next
    case (Error_occurred code message running w)
    have "core_inv (on_signal jp rh s sv) \<and> sv_state (on_signal jp rh s sv) \<in> {RESTART_WAIT, OFFLINE, STOPPING}"
      unfolding Error_occurred on_signal.simps by (rule waits.failure_ok [OF r])
    then show ?thesis by (auto simp: sup_inv_def)
  next
    case (Finished exit_code status out err w)
    then show ?thesis using finished_failed [OF c, of jp rh exit_code status out err w]
      by (auto simp: sup_inv_def)
  qed
qed

lemma step_inv:
  assumes "sup_step jp rh sv t sv'" "sup_inv sv"
  shows "sup_inv sv'"
  using assms(1)
proof (cases rule: sup_step.cases)
  case Called_start
  then show ?thesis using waits.start_inv [OF assms(2)] by simp
next
  case Called_stop
  then show ?thesis using waits.stop_inv [OF assms(2)] by simp
next
  case (Called_report w reason)
  have c: "core_inv sv" using assms(2) by (simp add: sup_inv_def)
  show ?thesis using Called_report assms(2)
      waits.failure_core [OF core_attempt_ok [OF c], of jp rh w "Transport_failure reason"]
    by (auto simp: report_transport_failure_def sup_inv_def)
next
  case (Startup_fires ms w)
  have "attempt_ok (sv\<lparr>sv_startup_timer := None\<rparr>)"
    using assms(2) Startup_fires
    by (auto simp: sup_inv_def core_inv_def attempt_ok_def split: if_splits)
  from waits.failure_core [OF this, of jp rh w Startup_timeout] Startup_fires show ?thesis
    by (auto simp: startup_timeout_def sup_inv_def)
next
  case (Restart_fires ms fs checked w ex rm)
  then have "sv_state sv = RESTART_WAIT" using assms(2) by (auto simp: sup_inv_def core_inv_def split: if_splits)
  with assms(2) show ?thesis unfolding Restart_fires restart_timeout_def
    by (intro waits.start_attempt_inv) (auto simp: sup_inv_def core_inv_def)
next
  case Stable_fires
  then show ?thesis using assms(2) by (auto simp: stable_timeout_def sup_inv_def core_inv_def)
next
  case Signalled
  then show ?thesis using signal_inv [OF assms(2)] by simp
qed

lemma run_inv:
  assumes "sup_run jp rh sv ts sv'" "sup_inv sv"
  shows "sup_inv sv'"
  using assms by (induction rule: sup_run.induct) (auto intro: step_inv)

lemma new_inv: "0 \<le> ai_max_restarts cfg \<Longrightarrow> sup_inv (new_supervisor cfg pid cwd)"
  by (simp add: new_supervisor_def Let_def sup_inv_def core_inv_def)

section \<open>What a slot leaves alone\<close>

definition starts :: "ai_supervisor \<Rightarrow> nat" where
  "starts sv = count_list (sv_effects sv) Process_started"

text \<open>The counters, the settings and the number of starts, which only an attempt to start changes.\<close>

definition fixed :: "ai_supervisor \<Rightarrow> ai_config \<times> string \<times> string \<times> int \<times> u64 \<times> nat" where
  "fixed sv = (sv_config sv, sv_endpoint sv, sv_working_directory sv, sv_restart_attempts sv,
     sv_restart_count sv, starts sv)"

lemma fixed_rebuffered: "rebuffered sv sv' \<Longrightarrow> fixed sv' = fixed sv"
  by (auto simp: rebuffered_def rebuffer_def fixed_def starts_def)

lemma stop_effects_starts: "es \<in> stop_effects \<Longrightarrow> count_list es Process_started = 0"
  by (auto simp: stop_effects_def)

lemma after_failure_fixed: "es \<in> stop_effects \<Longrightarrow> fixed (after_failure reason es sv) = fixed sv"
  by (simp add: fixed_def starts_def after_failure_def Let_def stop_effects_starts)

lemma fixed_update [simp]:
  "fixed (sv\<lparr>sv_stdout_buffer := b\<rparr>) = fixed sv" "fixed (sv\<lparr>sv_running := r\<rparr>) = fixed sv"
  "fixed (sv\<lparr>sv_startup_timer := ti\<rparr>) = fixed sv"
  by (simp_all add: fixed_def starts_def)

context quiet_stop
begin

lemma failure_fixed [simp]: "fixed (handle_failure stop reason sv) = fixed sv"
proof (cases "sv_stop_requested sv \<or> sv_state sv = STOPPING \<or> sv_failure_handled sv")
  case True
  then show ?thesis by (simp add: handle_failure_def)
next
  case False
  then obtain es where "es \<in> stop_effects"
    "rebuffered (after_failure reason es sv) (handle_failure stop reason sv)"
    using failure_result [of sv reason] by auto
  then show ?thesis by (simp add: fixed_rebuffered after_failure_fixed)
qed

lemma line_fixed [simp]: "fixed (handle_stdout_line jp rh stop line sv) = fixed sv"
  by (simp add: handle_stdout_line_def Let_def split: option.split)
    (simp add: fixed_def starts_def effect_def set_state_def)

lemma loop_fixed [simp]: "fixed (stdout_loop jp rh stop n sv) = fixed sv"
  by (induction n arbitrary: sv) (simp_all split: option.split prod.split)

lemma stdout_fixed [simp]: "fixed (handle_stdout jp rh stop bytes sv) = fixed sv"
  by (simp add: handle_stdout_def Let_def)

lemma stop_fixed:
  assumes "settled sv"
  shows "fixed (stop sv) = fixed sv"
proof -
  obtain es where es: "es \<in> stop_effects" "rebuffered (sv\<lparr>sv_effects := sv_effects sv @ es\<rparr>) (stop sv)"
    using quiet [OF assms] by blast
  show ?thesis unfolding fixed_rebuffered [OF es(2)]
    using es(1) by (simp add: fixed_def starts_def stop_effects_starts)
qed

lemma supervisor_stop_fixed: "fixed (supervisor_stop stop sv) = fixed sv"
proof -
  let ?s = "(set_state STOPPING Shutting_down (sv\<lparr>sv_stop_requested := True\<rparr>))
    \<lparr>sv_startup_timer := None, sv_restart_timer := None, sv_stable_timer := None\<rparr>"
  have "fixed (stop ?s) = fixed ?s" by (rule stop_fixed) (simp add: settled_def set_state_def effect_def)
  then show ?thesis
    by (simp add: supervisor_stop_def Let_def remove_socket_def)
      (simp add: fixed_def starts_def set_state_def effect_def)
qed

text \<open>An attempt starts the process exactly when the checks passed.\<close>

lemma start_attempt_fixed:
  "fixed (start_attempt stop checked removed sv) =
     (sv_config sv, sv_endpoint sv, sv_working_directory sv, sv_restart_attempts sv, sv_restart_count sv,
      starts sv + (if \<not> sv_stop_requested sv \<and> checked = Inr () \<and> removed then 1 else 0))"
proof -
  let ?s = "set_state STARTING (if sv_restart_attempts sv = 0 then Starting_process else Restarting_process)
    (sv\<lparr>sv_failure_handled := False, sv_stdout_buffer := [], sv_stderr_buffer := [], sv_model_version := []\<rparr>)"
  have "fixed ?s = fixed sv" "fixed (remove_socket ?s) = fixed sv"
    by (simp_all add: fixed_def starts_def set_state_def effect_def remove_socket_def)
  then show ?thesis
    by (cases checked)
      (simp_all add: start_attempt_def Let_def,
       simp_all add: fixed_def starts_def effect_def remove_socket_def set_state_def)
qed

end

lemma signal_fixed: "fixed (on_signal jp rh s sv) = fixed sv"
proof (cases s)
  case (Finished exit_code status out err w)
  let ?s1 = "handle_stdout jp rh (stop_process jp rh w) out (sv\<lparr>sv_running := False\<rparr>)"
  have "fixed (flush_partial_output (handle_stderr err ?s1)) = fixed ?s1"
    by (rule fixed_rebuffered [OF rebuffered_trans [OF settled_stderr rebuffered_flush]])
  with Finished show ?thesis by (simp add: Let_def)
qed (simp_all add: fixed_rebuffered [OF settled_stderr])

text \<open>By the kind of a turn: which of them count a restart, and which of them start the process.\<close>

lemma step_fixed:
  assumes "sup_step jp rh sv t sv'"
  shows "(t = Other \<longrightarrow> fixed sv' = fixed sv) \<and> sv_config sv' = sv_config sv \<and>
    sv_endpoint sv' = sv_endpoint sv \<and> sv_working_directory sv' = sv_working_directory sv \<and>
    (t = Restart \<longrightarrow> sv_restart_attempts sv' = sv_restart_attempts sv + 1) \<and>
    (starts sv' = starts sv \<or> starts sv' = starts sv + 1 \<and> t \<in> {Begin, Restart} \<and>
       (\<exists>fs. validate_python_paths fs (sv_working_directory sv) = Some (Inr ())))"
  using assms
proof (cases rule: sup_step.cases)
  case (Called_start fs checked w ex rm)
  have "fixed (start_attempt (stop_process jp rh w) checked (socket_removed ex rm) (sv\<lparr>sv_restart_attempts := 0\<rparr>)) =
    (sv_config sv, sv_endpoint sv, sv_working_directory sv, 0, sv_restart_count sv,
     starts sv + (if \<not> sv_stop_requested sv \<and> checked = Inr () \<and> socket_removed ex rm then 1 else 0))"
    by (subst waits.start_attempt_fixed) (simp add: starts_def)
  then show ?thesis using Called_start
    by (auto simp: supervisor_start_def fixed_def) (auto simp: starts_def set_state_def effect_def)
next
  case (Restart_fires ms fs checked w ex rm)
  have "fixed sv' =
    (sv_config sv, sv_endpoint sv, sv_working_directory sv, sv_restart_attempts sv + 1, sv_restart_count sv + 1,
     starts sv + (if \<not> sv_stop_requested sv \<and> checked = Inr () \<and> socket_removed ex rm then 1 else 0))"
    unfolding Restart_fires restart_timeout_def by (subst waits.start_attempt_fixed) (simp add: starts_def)
  then show ?thesis using Restart_fires by (auto simp: fixed_def)
next
  case (Called_stop w)
  then show ?thesis using waits.supervisor_stop_fixed [of jp rh w sv] by (auto simp: fixed_def)
next
  case (Called_report w reason)
  then have "fixed sv' = fixed sv" by (simp add: report_transport_failure_def)
  with Called_report show ?thesis by (auto simp: fixed_def)
next
  case (Startup_fires ms w)
  then have "fixed sv' = fixed sv" by (simp add: startup_timeout_def)
  with Startup_fires show ?thesis by (auto simp: fixed_def)
next
  case Stable_fires
  then show ?thesis by (auto simp: stable_timeout_def fixed_def starts_def)
next
  case (Signalled s)
  then show ?thesis using signal_fixed [of jp rh s sv] by (auto simp: fixed_def)
qed

section \<open>Failures\<close>

lemma run_config: "sup_run jp rh sv ts sv' \<Longrightarrow> sv_config sv' = sv_config sv \<and> sv_endpoint sv' = sv_endpoint sv \<and>
    sv_working_directory sv' = sv_working_directory sv"
  by (induction rule: sup_run.induct) (auto dest: step_fixed)

lemma new_fields [simp]:
  "sv_config (new_supervisor cfg pid cwd) = cfg" "sv_working_directory (new_supervisor cfg pid cwd) = cwd"
  "sv_state (new_supervisor cfg pid cwd) = DISABLED" "sv_restart_attempts (new_supervisor cfg pid cwd) = 0"
  by (simp_all add: new_supervisor_def Let_def)

lemma restart_delay: "0 \<le> n \<Longrightarrow>
  restart_delay_ms n = (if n = 0 then 1000 else if n = 1 then 2000 else 4000)"
  by (cases "n = 0 \<or> n = 1") (auto simp: restart_delay_ms_def min_absorb2)

lemma after_failure_fields:
  fixes sv :: ai_supervisor
  defines "r \<equiv> sv_restart_attempts sv < ai_max_restarts (sv_config sv)"
  shows "sv_state (after_failure reason es sv) = (if r then RESTART_WAIT else OFFLINE)"
    "sv_detail (after_failure reason es sv) =
      (if r then Waiting_after reason else Exhausted_after reason (ai_max_restarts (sv_config sv)))"
    "sv_restart_attempts (after_failure reason es sv) = sv_restart_attempts sv"
    "sv_model_version (after_failure reason es sv) = []"
    "sv_startup_timer (after_failure reason es sv) = None"
    "sv_stable_timer (after_failure reason es sv) = None"
    "sv_restart_timer (after_failure reason es sv) =
      (if r then Some (restart_delay_ms (sv_restart_attempts sv)) else sv_restart_timer sv)"
    "sv_effects (after_failure reason es sv) = sv_effects sv @
      [State_notified (if r then RESTART_WAIT else OFFLINE)
        (if r then Waiting_after reason else Exhausted_after reason (ai_max_restarts (sv_config sv)))] @
      es @ [Socket_removed]"
  by (simp_all add: after_failure_def Let_def r_def)

lemma rebuffer_fields [simp]:
  "sv_detail (rebuffer r out err sv) = sv_detail sv"
  "sv_restart_attempts (rebuffer r out err sv) = sv_restart_attempts sv"
  "sv_model_version (rebuffer r out err sv) = sv_model_version sv"
  "sv_startup_timer (rebuffer r out err sv) = sv_startup_timer sv"
  "sv_stable_timer (rebuffer r out err sv) = sv_stable_timer sv"
  "sv_restart_timer (rebuffer r out err sv) = sv_restart_timer sv"
  by (simp_all add: rebuffer_def)

text \<open>C15. While the process starts or is online, any failure is reacted to in one way, whatever the
  dying process still reports during the waits: one notification, at most one terminate and one kill,
  one removal of the socket. As long as restarts are left the restart timer then runs with 1000, 2000
  or 4000 milliseconds; after the last one the supervisor is offline with no timer left.\<close>

theorem failure_reaction:
  assumes "0 \<le> ai_max_restarts cfg"
    and "sup_run jp rh (new_supervisor cfg pid cwd) ts sv"
    and "sv_state sv \<in> {STARTING, ONLINE}"
  shows "let sv' = handle_failure (stop_process jp rh w) reason sv;
             n = sv_restart_attempts sv;
             s = (if n < ai_max_restarts cfg then RESTART_WAIT else OFFLINE);
             d = (if n < ai_max_restarts cfg then Waiting_after reason
                  else Exhausted_after reason (ai_max_restarts cfg))
         in sv_state sv' = s \<and> sv_detail sv' = d \<and> sv_restart_attempts sv' = n \<and>
            sv_model_version sv' = [] \<and> sv_startup_timer sv' = None \<and> sv_stable_timer sv' = None \<and>
            sv_restart_timer sv' =
              (if n < ai_max_restarts cfg
               then Some (if n = 0 then 1000 else if n = 1 then 2000 else 4000) else None) \<and>
            (\<exists>es. sv_effects sv' = sv_effects sv @ [State_notified s d] @ es @ [Socket_removed] \<and>
               es \<in> {[], [Process_terminated], [Process_terminated, Process_killed]})"
proof -
  have inv: "sup_inv sv" by (rule run_inv [OF assms(2) new_inv [OF assms(1)]])
  have cfg: "sv_config sv = cfg" using run_config [OF assms(2)] by simp
  have act: "\<not> sv_stop_requested sv" "sv_state sv \<noteq> STOPPING" "\<not> sv_failure_handled sv"
    "sv_restart_timer sv = None" "0 \<le> sv_restart_attempts sv"
    using core_attempt_ok [OF _ assms(3)] inv assms(3) by (auto simp: sup_inv_def attempt_ok_def)
  obtain es r out err where es: "es \<in> stop_effects"
    and res: "handle_failure (stop_process jp rh w) reason sv = rebuffer r out err (after_failure reason es sv)"
    using waits.failure_result [OF act(1-3), of reason jp rh w] by (auto simp: rebuffered_def)
  show ?thesis
    unfolding res Let_def rebuffer_sel rebuffer_fields after_failure_fields cfg act(4)
      restart_delay [OF act(5)]
    using es unfolding stop_effects_def [symmetric]
    by (intro conjI exI [where x = es] refl) simp_all
qed

text \<open>A file system in which every check fails, and one with directories and files of root only.\<close>

definition no_files :: path_env where
  "no_files = \<lparr>pe_lstat = (\<lambda>p. Inl ''ENOENT''), pe_clean = id, pe_parent = id,
     pe_file_path = (\<lambda>d f. d @ ''/'' @ f)\<rparr>"

definition root_files :: path_env where
  "root_files = \<lparr>pe_lstat = (\<lambda>p. Inr \<lparr>st_mode = (if p \<noteq> [] \<and> last p = CHR ''y'' then 0x81A4 else 0x41ED), st_uid = 0\<rparr>),
     pe_clean = id, pe_parent = (\<lambda>p. ''/''), pe_file_path = (\<lambda>d f. d @ ''/'' @ f)\<rparr>"

lemma file_fields [simp]:
  "pe_lstat no_files p = Inl ''ENOENT''" "pe_clean no_files p = p" "pe_parent no_files p = p"
  "pe_file_path no_files d f = d @ ''/'' @ f"
  "pe_lstat root_files p = Inr \<lparr>st_mode = (if p \<noteq> [] \<and> last p = CHR ''y'' then 0x81A4 else 0x41ED), st_uid = 0\<rparr>"
  "pe_clean root_files p = p" "pe_parent root_files p = ''/''" "pe_file_path root_files d f = d @ ''/'' @ f"
  by (simp_all add: no_files_def root_files_def)

lemma no_files_refused:
  "validate_python_paths no_files ''/ips'' = Some (Inl (Lstat_failed ''/ips'' ''ENOENT''))"
  by (simp add: validate_python_paths_def validate_secure_directory_tree_def then_check_def
      secure_tree.simps [of no_files] validate_root_owned_path_def)

lemma root_checks:
  "p \<noteq> [] \<Longrightarrow> last p \<noteq> CHR ''y'' \<Longrightarrow> validate_root_owned_path root_files p True = Inr ()"
  "p \<noteq> [] \<Longrightarrow> last p = CHR ''y'' \<Longrightarrow> validate_root_owned_path root_files p False = Inr ()"
  by (simp_all add: validate_root_owned_path_def file_type_def writable_by_others_def)

lemma root_tree:
  assumes "p \<noteq> []" "last p \<noteq> CHR ''y''"
  shows "secure_tree root_files p = Some (Inr ())"
proof -
  have "secure_tree root_files ''/'' = Some (Inr ())"
    by (simp add: secure_tree.simps [of root_files "''/''"] root_checks)
  then show ?thesis by (subst secure_tree.simps) (simp add: root_checks assms)
qed

lemma root_files_accepted: "validate_python_paths root_files ''/ips'' = Some (Inr ())"
  by (simp add: validate_python_paths_def validate_secure_directory_tree_def root_tree root_checks
      RUNTIME_DIRECTORY_def then_check_def REQUIRED_MODULES_def)

text \<open>A first start that goes well, and one that is refused because a path cannot be read.\<close>

definition first_start ::
    "(string \<Rightarrow> json option) \<Rightarrow> (string \<Rightarrow> string \<Rightarrow> string option) \<Rightarrow> ai_supervisor" where
  "first_start jp rh = supervisor_start (stop_process jp rh (Stopping [] True [] True)) (Inr ())
     (socket_removed False False) (new_supervisor default_ai_config 7 ''/ips'')"

definition refused_start ::
    "(string \<Rightarrow> json option) \<Rightarrow> (string \<Rightarrow> string \<Rightarrow> string option) \<Rightarrow> ai_supervisor" where
  "refused_start jp rh = supervisor_start (stop_process jp rh (Stopping [] True [] True))
     (Inl (Lstat_failed ''/ips'' ''ENOENT'')) (socket_removed False False)
     (new_supervisor default_ai_config 7 ''/ips'')"

lemmas slot_defs = supervisor_start_def start_attempt_def new_supervisor_def socket_removed_def
  default_ai_config_def set_state_def effect_def remove_socket_def handle_failure_def restart_delay_ms_def

lemma default_max: "0 \<le> ai_max_restarts default_ai_config" "0 < ai_max_restarts default_ai_config"
  by (simp_all add: default_ai_config_def)

lemma first_start_step: "sup_step jp rh (new_supervisor default_ai_config 7 ''/ips'') Begin (first_start jp rh)"
  unfolding first_start_def by (rule Called_start [of root_files]) (simp add: root_files_accepted)

lemma first_start_run: "sup_run jp rh (new_supervisor default_ai_config 7 ''/ips'') ([] @ [Begin]) (first_start jp rh)"
  by (rule One_turn [OF No_turn first_start_step])

lemma first_start_fields [simp]:
  "sv_state (first_start jp rh) = STARTING" "sv_restart_attempts (first_start jp rh) = 0"
  "sv_running (first_start jp rh)" "\<not> sv_stop_requested (first_start jp rh)"
  "sv_stdout_buffer (first_start jp rh) = []" "sv_startup_timer (first_start jp rh) = Some 10000"
  "count_list (sv_effects (first_start jp rh)) Process_started = 1"
  by (simp_all add: first_start_def slot_defs Let_def)

lemma refused_start_run:
  "sup_run jp rh (new_supervisor default_ai_config 7 ''/ips'') ([] @ [Begin]) (refused_start jp rh)"
  unfolding refused_start_def
  by (rule One_turn [OF No_turn Called_start [of no_files]]) (simp add: no_files_refused)

lemma refused_start_fields [simp]:
  "sv_state (refused_start jp rh) = RESTART_WAIT" "sv_restart_attempts (refused_start jp rh) = 0"
  "sv_restart_timer (refused_start jp rh) = Some 1000" "sv_working_directory (refused_start jp rh) = ''/ips''"
  by (simp_all add: refused_start_def slot_defs Let_def)

theorem failure_reaction_witness:
  "\<exists>sv. sv_state sv \<in> {STARTING, ONLINE} \<and>
     sv_restart_timer (handle_failure (stop_process Map.empty (\<lambda>e v. None)
       (Stopping [Error_occurred 1 ''Crashed'' True (Stopping [] True [] True)] False [] False)) Startup_timeout sv) = Some 1000"
proof -
  have st: "sv_state (first_start Map.empty (\<lambda>e v. None)) \<in> {STARTING, ONLINE}" by simp
  from failure_reaction [OF default_max(1) first_start_run st, of
      "Stopping [Error_occurred 1 ''Crashed'' True (Stopping [] True [] True)] False [] False" Startup_timeout]
  show ?thesis using st default_max(2) unfolding Let_def
    by (intro exI [where x = "first_start Map.empty (\<lambda>e v. None)"] conjI) simp_all
qed

lemma rebuffered_effects:
  "sv_effects (sv\<lparr>sv_running := r, sv_stdout_buffer := out, sv_stderr_buffer := err\<rparr>) = sv_effects sv"
  by simp

text \<open>Once a failure of the attempt has been handled, or the program stops, no signal of the process
  has any effect: not an error, not an exit, not even a ready line, however the signals nest. Only the
  output buffers change.\<close>

theorem late_signals_ignored:
  assumes "0 \<le> ai_max_restarts cfg"
    and "sup_run jp rh (new_supervisor cfg pid cwd) ts sv"
    and "sv_state sv \<in> {RESTART_WAIT, OFFLINE, STOPPING}"
  shows "\<exists>r out err. on_signal jp rh s sv =
    sv\<lparr>sv_running := r, sv_stdout_buffer := out, sv_stderr_buffer := err\<rparr>"
proof -
  have "sup_inv sv" by (rule run_inv [OF assms(2) new_inv [OF assms(1)]])
  then have "settled sv" using core_settled [OF _ assms(3)] by (simp add: sup_inv_def)
  from settled_signal [OF this, of jp rh s] show ?thesis by (auto simp: rebuffered_def rebuffer_def)
qed

theorem late_signals_ignored_witness:
  "\<exists>sv. sv_state sv = RESTART_WAIT \<and>
     sv_effects (on_signal Map.empty (\<lambda>e v. None) (Finished 1 0 [] [] (Stopping [] True [] True)) sv) = sv_effects sv"
proof -
  let ?sv = "refused_start Map.empty (\<lambda>e v. None)"
  have st: "sv_state ?sv \<in> {RESTART_WAIT, OFFLINE, STOPPING}" by simp
  from late_signals_ignored [OF default_max(1) refused_start_run st, of "Finished 1 0 [] [] (Stopping [] True [] True)"]
  obtain r out err where e: "on_signal Map.empty (\<lambda>e v. None) (Finished 1 0 [] [] (Stopping [] True [] True)) ?sv =
    ?sv\<lparr>sv_running := r, sv_stdout_buffer := out, sv_stderr_buffer := err\<rparr>" by blast
  show ?thesis
    by (intro exI [where x = ?sv] conjI refused_start_fields(1)) (simp only: e rebuffered_effects)
qed

text \<open>C16. Until the process stays online long enough, or the program calls \<open>start\<close> again, it is
  restarted at most as often as configured, whatever happens.\<close>

theorem restarts_bounded:
  assumes "0 \<le> ai_max_restarts cfg"
    and "sup_run jp rh (new_supervisor cfg pid cwd) ts sv"
    and "sup_run jp rh sv ts' sv'"
    and "set ts' \<subseteq> {Restart, Other}"
  shows "int (count_list ts' Restart) \<le> ai_max_restarts cfg - sv_restart_attempts sv \<and>
    sv_restart_attempts sv' = sv_restart_attempts sv + int (count_list ts' Restart)"
proof -
  have inv: "sup_inv sv" by (rule run_inv [OF assms(2) new_inv [OF assms(1)]])
  have count: "sv_restart_attempts sv' = sv_restart_attempts sv + int (count_list ts' Restart)"
    using assms(3,4)
  proof (induction rule: sup_run.induct)
    case (One_turn a ts b t c)
    then have "t = Restart \<or> t = Other" by auto
    with One_turn step_fixed [OF One_turn(2)] show ?case by (auto simp: fixed_def)
  qed simp
  have "sup_inv sv'" by (rule run_inv [OF assms(3) inv])
  then have "sv_restart_attempts sv' \<le> ai_max_restarts (sv_config sv')"
    by (simp add: sup_inv_def core_inv_def)
  with count run_config [OF assms(2)] run_config [OF assms(3)] show ?thesis by simp
qed

theorem restarts_bounded_witness:
  "\<exists>sv sv'. sv_state sv = RESTART_WAIT \<and> sv_state sv' = RESTART_WAIT \<and>
     sup_run Map.empty (\<lambda>e v. None) sv [Restart] sv' \<and> sv_restart_attempts sv' = 1"
proof -
  let ?sv = "refused_start Map.empty (\<lambda>e v. None)"
  let ?sv' = "restart_timeout (stop_process Map.empty (\<lambda>e v. None) (Stopping [] True [] True))
    (Inl (Lstat_failed ''/ips'' ''ENOENT'')) (socket_removed False False) ?sv"
  have st': "sv_state ?sv' = RESTART_WAIT"
    by (simp add: refused_start_def restart_timeout_def slot_defs Let_def)
  have "sup_step Map.empty (\<lambda>e v. None) ?sv Restart ?sv'"
    by (rule Restart_fires [of _ _ no_files]) (simp_all only: refused_start_fields no_files_refused)
  with No_turn have run: "sup_run Map.empty (\<lambda>e v. None) ?sv ([] @ [Restart]) ?sv'" by (rule One_turn)
  from restarts_bounded [OF default_max(1) refused_start_run run] have "sv_restart_attempts ?sv' = 1"
    by (simp only: append_Nil) simp
  moreover from run have "sup_run Map.empty (\<lambda>e v. None) ?sv [Restart] ?sv'" by (simp only: append_Nil)
  ultimately show ?thesis using refused_start_fields(1) st' by blast
qed

section \<open>The end\<close>

lemma stopping_step:
  assumes "sup_step jp rh sv t sv'" "sup_inv sv" "sv_state sv = STOPPING"
  shows "sv_state sv' = STOPPING \<and> sv_effects sv' = sv_effects sv"
proof -
  have s: "settled sv" "sv_stop_requested sv" "sv_startup_timer sv = None" "sv_restart_timer sv = None"
    "sv_stable_timer sv = None"
    using assms(2,3) by (auto simp: sup_inv_def core_inv_def settled_def)
  from assms(1) show ?thesis
  proof (cases rule: sup_step.cases)
    case (Signalled u)
    then show ?thesis using settled_signal [OF s(1), of jp rh u] assms(3)
      by (auto simp: rebuffered_def)
  qed (use s assms(3) in \<open>auto simp: supervisor_start_def supervisor_stop_def report_transport_failure_def\<close>)
qed

text \<open>Only \<open>stop\<close> requests the end.\<close>

context quiet_stop
begin

lemma failure_request [simp]: "sv_stop_requested (handle_failure stop reason sv) = sv_stop_requested sv"
proof (cases "sv_stop_requested sv \<or> sv_state sv = STOPPING \<or> sv_failure_handled sv")
  case False
  then obtain es where "rebuffered (after_failure reason es sv) (handle_failure stop reason sv)"
    using failure_result [of sv reason] by auto
  then show ?thesis by (auto simp: rebuffered_def rebuffer_def after_failure_def Let_def)
qed (simp add: handle_failure_def)

lemma line_request [simp]: "sv_stop_requested (handle_stdout_line jp rh stop line sv) = sv_stop_requested sv"
  by (simp add: handle_stdout_line_def Let_def effect_def set_state_def split: option.split)

lemma loop_request [simp]: "sv_stop_requested (stdout_loop jp rh stop n sv) = sv_stop_requested sv"
  by (induction n arbitrary: sv) (simp_all split: option.split prod.split)

lemma stdout_request [simp]: "sv_stop_requested (handle_stdout jp rh stop bytes sv) = sv_stop_requested sv"
  by (simp add: handle_stdout_def Let_def)

lemma start_attempt_request [simp]:
  "sv_stop_requested (start_attempt stop checked removed sv) = sv_stop_requested sv"
  by (simp add: start_attempt_def Let_def set_state_def effect_def remove_socket_def split: sum.split)

end

lemma signal_request: "sv_stop_requested (on_signal jp rh s sv) = sv_stop_requested sv"
  by (cases s) (simp_all add: Let_def handle_stderr_def flush_partial_output_def)

text \<open>A process that still runs in the last state has been asked to terminate and killed.\<close>

definition swept :: "ai_supervisor \<Rightarrow> bool" where
  "swept sv \<longleftrightarrow> (sv_state sv = STOPPING \<and> sv_running sv \<longrightarrow>
     (\<exists>es. sv_effects sv =
        es @ [State_notified STOPPING Shutting_down, Process_terminated, Process_killed, Socket_removed]))"

lemma swept_stop:
  assumes "sv_state sv \<noteq> STOPPING" "\<not> sv_stop_requested sv"
  shows "swept (supervisor_stop (stop_process jp rh w) sv)"
proof -
  let ?s = "(set_state STOPPING Shutting_down (sv\<lparr>sv_stop_requested := True\<rparr>))
    \<lparr>sv_startup_timer := None, sv_restart_timer := None, sv_stable_timer := None\<rparr>"
  have s: "settled ?s" by (simp add: settled_def set_state_def effect_def)
  have last: "supervisor_stop (stop_process jp rh w) sv = effect Socket_removed (stop_process jp rh w ?s)"
    using assms(2) by (simp add: supervisor_stop_def Let_def remove_socket_def)
  obtain es where es: "rebuffered (?s\<lparr>sv_effects := sv_effects ?s @ es\<rparr>) (stop_process jp rh w ?s)"
    "sv_running (stop_process jp rh w ?s) \<longrightarrow> es = [Process_terminated, Process_killed]"
    using settled_stop [OF s, of jp rh w] by blast
  then have "sv_effects (stop_process jp rh w ?s) = sv_effects sv @ State_notified STOPPING Shutting_down # es"
    by (auto simp: rebuffered_def rebuffer_def set_state_def effect_def)
  with es(2) show ?thesis unfolding swept_def last by (auto simp: effect_def)
qed

lemma step_keeps_swept:
  assumes "sup_step jp rh sv t sv'" "sup_inv sv" "swept sv"
  shows "swept sv'"
proof (cases "sv_state sv = STOPPING")
  case True
  have s: "sv_stop_requested sv" "sv_startup_timer sv = None" "sv_restart_timer sv = None" "sv_stable_timer sv = None"
    using assms(2) True by (auto simp: sup_inv_def core_inv_def)
  have "sv_running sv' \<Longrightarrow> sv_running sv" using assms(1)
    by (cases rule: sup_step.cases)
      (use s True in \<open>auto simp: supervisor_start_def supervisor_stop_def report_transport_failure_def\<close>)
  with stopping_step [OF assms(1,2) True] assms(3) True show ?thesis by (simp add: swept_def)
next
  case False
  then have go: "\<not> sv_stop_requested sv" using assms(2) by (simp add: sup_inv_def core_inv_def)
  have inv: "sup_inv sv'" by (rule step_inv [OF assms(1,2)])
  from assms(1) show ?thesis
  proof (cases rule: sup_step.cases)
    case (Called_stop w)
    with swept_stop [OF False go] show ?thesis by simp
  qed (use go inv in \<open>auto simp: sup_inv_def core_inv_def swept_def supervisor_start_def report_transport_failure_def
      startup_timeout_def restart_timeout_def stable_timeout_def signal_request set_state_def effect_def
      split: if_splits\<close>)
qed

text \<open>After \<open>stop\<close> nothing happens any more: the supervisor stays in its last state, no timer runs,
  and no later call, timer or signal starts, stops or announces anything. The call itself announces
  the end, asks the process to terminate, kills it if it does not, and removes the socket.\<close>

theorem stop_is_final:
  assumes "0 \<le> ai_max_restarts cfg"
    and "sup_run jp rh (new_supervisor cfg pid cwd) ts sv"
    and "sv_state sv \<in> {DISABLED, STARTING, ONLINE, RESTART_WAIT, OFFLINE}"
    and "sup_run jp rh (supervisor_stop (stop_process jp rh w) sv) ts' sv'"
  shows "sv_state sv' = STOPPING \<and> sv_startup_timer sv' = None \<and> sv_restart_timer sv' = None \<and>
    sv_stable_timer sv' = None \<and>
    (\<exists>es. sv_effects sv' = sv_effects sv @ [State_notified STOPPING Shutting_down] @ es @ [Socket_removed] \<and>
       es \<in> {[], [Process_terminated], [Process_terminated, Process_killed]})"
proof -
  let ?last = "supervisor_stop (stop_process jp rh w) sv"
  have inv: "sup_inv sv" by (rule run_inv [OF assms(2) new_inv [OF assms(1)]])
  have inv': "sup_inv ?last" by (rule waits.stop_inv [OF inv])
  have run: "sv_state sv' = STOPPING \<and> sv_effects sv' = sv_effects ?last" if "sv_state ?last = STOPPING"
    using assms(4) that inv'
  proof (induction rule: sup_run.induct)
    case (One_turn a ts b t c)
    then have "sup_inv b" using run_inv by blast
    with One_turn stopping_step [OF One_turn(2)] show ?case by simp
  qed simp
  let ?s = "(set_state STOPPING Shutting_down (sv\<lparr>sv_stop_requested := True\<rparr>))
    \<lparr>sv_startup_timer := None, sv_restart_timer := None, sv_stable_timer := None\<rparr>"
  have "settled ?s" by (simp add: settled_def set_state_def effect_def)
  from waits.quiet [OF this, of jp rh w] obtain es r out err where es: "es \<in> stop_effects"
    and st: "stop_process jp rh w ?s = rebuffer r out err (?s\<lparr>sv_effects := sv_effects ?s @ es\<rparr>)"
    by (auto simp: rebuffered_def)
  have go: "\<not> sv_stop_requested sv" using inv assms(3) by (auto simp: sup_inv_def core_inv_def)
  have fini: "?last = effect Socket_removed (rebuffer r out err (?s\<lparr>sv_effects := sv_effects ?s @ es\<rparr>))"
    using go by (simp add: supervisor_stop_def Let_def remove_socket_def st)
  have fin: "sv_state ?last = STOPPING"
    "sv_effects ?last = sv_effects sv @ [State_notified STOPPING Shutting_down] @ es @ [Socket_removed]"
    unfolding fini by (simp_all add: effect_def set_state_def)
  have "sup_inv sv'" by (rule run_inv [OF assms(4) inv'])
  with run [OF fin(1)] fin(2) es show ?thesis
    by (simp add: sup_inv_def core_inv_def stop_effects_def)
qed

theorem stop_is_final_witness:
  "\<exists>sv. sv_state sv = STARTING \<and>
     sv_effects (supervisor_stop (stop_process Map.empty (\<lambda>e v. None) (Stopping [] False [] False)) sv) =
       sv_effects sv @ [State_notified STOPPING Shutting_down, Process_terminated, Process_killed, Socket_removed]"
proof -
  let ?sv = "first_start Map.empty (\<lambda>e v. None)"
  let ?last = "supervisor_stop (stop_process Map.empty (\<lambda>e v. None) (Stopping [] False [] False)) ?sv"
  have one: "sv_state ?sv \<in> {DISABLED, STARTING, ONLINE, RESTART_WAIT, OFFLINE}" by simp
  have "sv_state ?last = STOPPING" using stop_is_final [OF default_max(1) first_start_run one No_turn] by blast
  moreover have "sv_effects ?last =
      sv_effects ?sv @ [State_notified STOPPING Shutting_down, Process_terminated, Process_killed, Socket_removed]"
    by (simp add: supervisor_stop_def Let_def set_state_def effect_def remove_socket_def)
  ultimately show ?thesis using first_start_fields(1) by blast
qed

section \<open>What is started\<close>

text \<open>A file or directory that only root can replace or change.\<close>

definition root_only :: "path_env \<Rightarrow> string \<Rightarrow> bool \<Rightarrow> bool" where
  "root_only fs path directory \<longleftrightarrow>
     (\<exists>s. pe_lstat fs path = Inr s \<and> file_type s = (if directory then 0x4000 else 0x8000) \<and>
        st_uid s = 0 \<and> \<not> writable_by_others s)"

lemma validate_root_only: "validate_root_owned_path fs path d = Inr () \<longleftrightarrow> root_only fs path d"
  by (auto simp: validate_root_owned_path_def root_only_def split: sum.splits)

lemma funpow_fixed: "f x = x \<Longrightarrow> (f ^^ i) x = x"
  by (induction i) simp_all

lemma secure_tree_sound:
  "secure_tree fs p = Some r \<Longrightarrow> r = Inr () \<longrightarrow> (\<forall>i. root_only fs ((pe_parent fs ^^ i) p) True)"
proof (rule secure_tree.raw_induct [where P = "\<lambda>fs p r. r = Inr () \<longrightarrow>
    (\<forall>i. root_only fs ((pe_parent fs ^^ i) p) True)"])
  fix f and fs :: path_env and current and r :: "path_error + unit"
  let ?up = "pe_parent fs"
  assume IH: "\<And>(fs :: path_env) c r. f fs c = Some r \<Longrightarrow> r = Inr () \<longrightarrow> (\<forall>i. root_only fs ((pe_parent fs ^^ i) c) True)"
    and res: "(case validate_root_owned_path fs current True of
        Inl e \<Rightarrow> Some (Inl e)
      | Inr u \<Rightarrow> if ?up current = current then Some (Inr ()) else f fs (?up current)) = Some r"
  show "r = Inr () \<longrightarrow> (\<forall>i. root_only fs ((?up ^^ i) current) True)"
  proof (intro impI allI)
    fix i assume r: "r = Inr ()"
    have here: "root_only fs current True"
      using res r by (auto simp: validate_root_only [symmetric] split: sum.splits)
    show "root_only fs ((?up ^^ i) current) True"
    proof (cases "?up current = current")
      case True
      with here show ?thesis by (simp add: funpow_fixed)
    next
      case False
      then have "f fs (?up current) = Some r" using res r by (simp split: sum.splits)
      from IH [OF this] r have "root_only fs ((?up ^^ j) (?up current)) True" for j by blast
      with here show ?thesis by (cases i) (simp_all add: funpow_swap1)
    qed
  qed
qed

lemma all_le_Suc: "(\<forall>i \<le> Suc n. P i) \<longleftrightarrow> P 0 \<and> (\<forall>i \<le> n. P (Suc i))"
  by (metis Suc_le_mono le0 not0_implies_Suc)

text \<open>The walk up the directories ends and finds what it looks for, whenever going up ends.\<close>

lemma secure_tree_complete:
  assumes "pe_parent fs ((pe_parent fs ^^ n) p) = (pe_parent fs ^^ n) p"
  shows "\<exists>r. secure_tree fs p = Some r \<and>
    (r = Inr () \<longleftrightarrow> (\<forall>i \<le> n. root_only fs ((pe_parent fs ^^ i) p) True))"
  using assms
proof (induction n arbitrary: p)
  case 0
  then show ?case
    by (subst secure_tree.simps)
      (auto simp: validate_root_only [symmetric] split: sum.split)
next
  case (Suc n)
  have bound: "(\<forall>i \<le> Suc n. root_only fs ((pe_parent fs ^^ i) p) True) \<longleftrightarrow>
    root_only fs p True \<and> (\<forall>i \<le> n. root_only fs ((pe_parent fs ^^ i) (pe_parent fs p)) True)"
    by (subst all_le_Suc) (simp add: funpow_swap1)
  obtain r where r: "secure_tree fs (pe_parent fs p) = Some r"
    "r = Inr () \<longleftrightarrow> (\<forall>i \<le> n. root_only fs ((pe_parent fs ^^ i) (pe_parent fs p)) True)"
    using Suc.IH [of "pe_parent fs p"] Suc.prems by (auto simp: funpow_swap1)
  show ?case
  proof (cases "validate_root_owned_path fs p True")
    case (Inl e)
    then have "\<not> root_only fs p True" by (simp add: validate_root_only [symmetric])
    with Inl show ?thesis unfolding bound by (subst secure_tree.simps) simp
  next
    case (Inr u)
    then have here: "root_only fs p True" by (simp add: validate_root_only [symmetric])
    show ?thesis
    proof (cases "pe_parent fs p = p")
      case True
      with Inr here show ?thesis by (subst secure_tree.simps) (simp add: funpow_fixed)
    next
      case False
      with Inr here r show ?thesis unfolding bound by (subst secure_tree.simps) simp
    qed
  qed
qed

lemma then_check_Inr [simp]: "then_check a b = Some (Inr ()) \<longleftrightarrow> a = Some (Inr ()) \<and> b = Some (Inr ())"
  by (auto simp: then_check_def split: option.splits sum.splits)

lemma python_paths_Inr:
  assumes "validate_python_paths fs checkout = Some (Inr ())"
  shows "(\<forall>top \<in> {checkout, pe_file_path fs checkout ''ml'', RUNTIME_DIRECTORY}.
      \<forall>i. root_only fs ((pe_parent fs ^^ i) (pe_clean fs top)) True) \<and>
    (\<forall>m \<in> set REQUIRED_MODULES. root_only fs (pe_file_path fs checkout m) False)"
  using assms
  by (auto simp: validate_python_paths_def validate_secure_directory_tree_def REQUIRED_MODULES_def
      validate_root_only dest: secure_tree_sound)

lemma attempt_starts:
  shows "starts (supervisor_start (stop_process jp rh w) checked removed sv) = starts sv \<or>
      checked = Inr () \<and> removed \<and> starts (supervisor_start (stop_process jp rh w) checked removed sv) = starts sv + 1"
    and "starts (restart_timeout (stop_process jp rh w) checked removed sv) = starts sv \<or>
      checked = Inr () \<and> removed \<and> starts (restart_timeout (stop_process jp rh w) checked removed sv) = starts sv + 1"
proof -
  have "starts (start_attempt (stop_process jp rh w) checked removed (sv\<lparr>sv_restart_attempts := 0\<rparr>)) =
    starts sv + (if \<not> sv_stop_requested sv \<and> checked = Inr () \<and> removed then 1 else 0)"
    using waits.start_attempt_fixed [of jp rh w checked removed "sv\<lparr>sv_restart_attempts := 0\<rparr>"]
    by (simp add: fixed_def) (simp add: starts_def)
  then show "starts (supervisor_start (stop_process jp rh w) checked removed sv) = starts sv \<or>
      checked = Inr () \<and> removed \<and> starts (supervisor_start (stop_process jp rh w) checked removed sv) = starts sv + 1"
    by (auto simp: supervisor_start_def) (auto simp: starts_def set_state_def effect_def)
  let ?sv = "sv\<lparr>sv_restart_timer := None, sv_restart_attempts := sv_restart_attempts sv + 1,
    sv_restart_count := sv_restart_count sv + 1\<rparr>"
  have "starts (start_attempt (stop_process jp rh w) checked removed ?sv) =
    starts sv + (if \<not> sv_stop_requested sv \<and> checked = Inr () \<and> removed then 1 else 0)"
    using waits.start_attempt_fixed [of jp rh w checked removed ?sv]
    by (simp add: fixed_def) (simp add: starts_def)
  then show "starts (restart_timeout (stop_process jp rh w) checked removed sv) = starts sv \<or>
      checked = Inr () \<and> removed \<and> starts (restart_timeout (stop_process jp rh w) checked removed sv) = starts sv + 1"
    by (auto simp: restart_timeout_def)
qed

text \<open>C29. When the first call or the restart timer starts the process, then once, after the old socket is
  gone, and the file system it has just checked has the checkout, its \<open>ml\<close> directory and the package
  directory, every directory above them, and the modules that are run owned by root, of the expected
  kind and not writable by others. No other step starts a process.\<close>

theorem started_from_root_only_paths:
  assumes "validate_python_paths fs (sv_working_directory sv) = Some checked"
    and "sv' \<in> {supervisor_start (stop_process jp rh w) checked removed sv,
      restart_timeout (stop_process jp rh w) checked removed sv}"
    and "count_list (sv_effects sv) Process_started < count_list (sv_effects sv') Process_started"
  shows "count_list (sv_effects sv') Process_started = count_list (sv_effects sv) Process_started + 1 \<and> removed \<and>
    (\<forall>top \<in> {sv_working_directory sv, pe_file_path fs (sv_working_directory sv) ''ml'', RUNTIME_DIRECTORY}.
        \<forall>i. root_only fs ((pe_parent fs ^^ i) (pe_clean fs top)) True) \<and>
    (\<forall>m \<in> set REQUIRED_MODULES. root_only fs (pe_file_path fs (sv_working_directory sv) m) False) \<and>
    (\<forall>t sv''. sup_step jp rh sv t sv'' \<and> t \<notin> {Begin, Restart} \<longrightarrow>
        count_list (sv_effects sv'') Process_started = count_list (sv_effects sv) Process_started)"
proof -
  have "checked = Inr () \<and> removed \<and> starts sv' = starts sv + 1"
    using assms(2,3) attempt_starts [of jp rh w checked removed sv] unfolding starts_def by auto
  moreover have "\<forall>t sv''. sup_step jp rh sv t sv'' \<and> t \<notin> {Begin, Restart} \<longrightarrow> starts sv'' = starts sv"
    using step_fixed by blast
  ultimately show ?thesis
    using python_paths_Inr [of fs "sv_working_directory sv"] assms(1) unfolding starts_def by simp
qed

text \<open>The file system of the first start, where everything is a directory or a module of root's.\<close>

theorem started_from_root_only_paths_witness:
  "count_list (sv_effects (first_start Map.empty (\<lambda>e v. None))) Process_started = 1 \<and>
   validate_python_paths root_files ''/ips'' = Some (Inr ()) \<and>
   (\<forall>i. root_only root_files ((pe_parent root_files ^^ i) (pe_clean root_files RUNTIME_DIRECTORY)) True)"
proof -
  let ?new = "new_supervisor default_ai_config 7 ''/ips''"
  let ?stop = "stop_process Map.empty (\<lambda>e v. None) (Stopping [] True [] True)"
  have checked: "validate_python_paths root_files (sv_working_directory ?new) = Some (Inr ())"
    by (simp add: root_files_accepted)
  have began: "first_start Map.empty (\<lambda>e v. None) \<in>
    {supervisor_start ?stop (Inr ()) (socket_removed False False) ?new,
     restart_timeout ?stop (Inr ()) (socket_removed False False) ?new}"
    unfolding first_start_def by (rule insertI1)
  have "count_list (sv_effects ?new) Process_started <
      count_list (sv_effects (first_start Map.empty (\<lambda>e v. None))) Process_started"
    by (simp, simp add: new_supervisor_def Let_def)
  from started_from_root_only_paths [OF checked began this]
  have "\<forall>i. root_only root_files ((pe_parent root_files ^^ i) (pe_clean root_files RUNTIME_DIRECTORY)) True"
    by blast
  then show ?thesis by (intro conjI) (simp_all add: root_files_accepted)
qed

section \<open>Coming online\<close>

lemma loop_idle:
  "sv_state sv \<noteq> STARTING \<Longrightarrow> \<exists>out. stdout_loop jp rh stop n sv = sv\<lparr>sv_stdout_buffer := out\<rparr>"
proof (induction n arbitrary: sv)
  case (Suc n)
  show ?case
  proof (cases "next_line (sv_stdout_buffer sv)")
    case (Some lr)
    obtain line rest where lr: "lr = (line, rest)" by (cases lr)
    have "\<exists>out. stdout_loop jp rh stop n (sv\<lparr>sv_stdout_buffer := rest\<rparr>) = (sv\<lparr>sv_stdout_buffer := rest\<rparr>)\<lparr>sv_stdout_buffer := out\<rparr>"
      by (rule Suc.IH) (use Suc.prems in simp)
    with Suc.prems Some lr show ?thesis by (auto simp: handle_stdout_line_def)
  qed (auto intro!: exI [where x = "sv_stdout_buffer sv"])
next
  case 0
  show ?case by (intro exI [where x = "sv_stdout_buffer sv"]) simp
qed

text \<open>The supervisor after a ready line, but for the buffer.\<close>

definition online_after :: "string \<Rightarrow> ai_supervisor \<Rightarrow> ai_supervisor" where
  "online_after version sv =
     sv\<lparr>sv_state := ONLINE, sv_detail := Ai_online, sv_model_version := version, sv_startup_timer := None,
        sv_stable_timer := Some (ai_restart_reset_seconds (sv_config sv) * 1000),
        sv_effects := sv_effects sv @ [Ready_notified (sv_endpoint sv) version, State_notified ONLINE Ai_online]\<rparr>"

text \<open>A buffer that holds a complete line, from which the returned version is read.\<close>

definition holds_ready_line :: "(string \<Rightarrow> json option) \<Rightarrow> string \<Rightarrow> string \<Rightarrow> bool" where
  "holds_ready_line jp version buffer \<longleftrightarrow>
     (\<exists>a line b. buffer = a @ line @ CHR 0x0A # b \<and> (a = [] \<or> last a = CHR 0x0A) \<and> CHR 0x0A \<notin> set line \<and>
        ready_line jp (chop_cr line) = Some version)"

lemma holds_ready_line_Cons:
  "holds_ready_line jp version rest \<Longrightarrow> holds_ready_line jp version (line @ CHR 0x0A # rest)"
  unfolding holds_ready_line_def
proof (elim exE conjE)
  fix a l b
  assume "rest = a @ l @ CHR 0x0A # b" "a = [] \<or> last a = CHR 0x0A" "CHR 0x0A \<notin> set l"
    "ready_line jp (chop_cr l) = Some version"
  then show "\<exists>a l b. line @ CHR 0x0A # rest = a @ l @ CHR 0x0A # b \<and> (a = [] \<or> last a = CHR 0x0A) \<and>
    CHR 0x0A \<notin> set l \<and> ready_line jp (chop_cr l) = Some version"
    by (intro exI [where x = "line @ CHR 0x0A # a"] exI [where x = l] exI [where x = b]) auto
qed

context quiet_stop
begin

lemma loop_online:
  assumes "core_inv sv" "sv_state sv = STARTING" "sv_state (stdout_loop jp rh stop n sv) = ONLINE"
  shows "\<exists>version out. holds_ready_line jp version (sv_stdout_buffer sv) \<and> rh (sv_endpoint sv) version = None \<and>
    stdout_loop jp rh stop n sv = (online_after version sv)\<lparr>sv_stdout_buffer := out\<rparr>"
  using assms
proof (induction n arbitrary: sv)
  case (Suc n)
  obtain line rest where nl: "next_line (sv_stdout_buffer sv) = Some (line, rest)"
    using Suc.prems(2,3) by (cases "next_line (sv_stdout_buffer sv)") auto
  have buf: "sv_stdout_buffer sv = line @ CHR 0x0A # rest" "CHR 0x0A \<notin> set line"
    using next_line_Some [OF nl] by simp_all
  let ?sv = "sv\<lparr>sv_stdout_buffer := rest\<rparr>"
  have core: "core_inv ?sv" "sv_state ?sv = STARTING" using Suc.prems by (simp_all add: core_inv_def)
  show ?case
  proof (cases "ready_line jp (chop_cr line)")
    case None
    then have same: "handle_stdout_line jp rh stop (chop_cr line) ?sv = ?sv"
      using Suc.prems by (simp add: handle_stdout_line_def)
    have "sv_state (stdout_loop jp rh stop n ?sv) = ONLINE" using Suc.prems(3) nl same by simp
    from Suc.IH [OF core this] obtain version out where
      v: "holds_ready_line jp version rest" "rh (sv_endpoint sv) version = None"
        "stdout_loop jp rh stop n ?sv = (online_after version ?sv)\<lparr>sv_stdout_buffer := out\<rparr>" by auto
    then show ?thesis using nl same holds_ready_line_Cons [OF v(1), of line] buf
      by (intro exI [where x = version] exI [where x = out]) (simp add: online_after_def)
  next
    case (Some version)
    let ?r = "effect (Ready_notified (sv_endpoint sv) version) (?sv\<lparr>sv_startup_timer := None, sv_model_version := version\<rparr>)"
    have ok: "attempt_ok ?r" using core by (auto simp: core_inv_def attempt_ok_def effect_def)
    have none: "rh (sv_endpoint sv) version = None"
    proof (rule ccontr)
      assume "rh (sv_endpoint sv) version \<noteq> None"
      then obtain e where e: "rh (sv_endpoint sv) version = Some e" by blast
      let ?f = "handle_failure stop (Ready_handler_error e) ?r"
      have line: "handle_stdout_line jp rh stop (chop_cr line) ?sv = ?f"
        using Suc.prems Some e by (simp add: handle_stdout_line_def Let_def effect_def)
      have "sv_state ?f \<in> {RESTART_WAIT, OFFLINE}" using failure_core [OF ok] by blast
      moreover from this have "\<exists>out. stdout_loop jp rh stop n ?f = ?f\<lparr>sv_stdout_buffer := out\<rparr>"
        by (intro loop_idle) auto
      ultimately show False using Suc.prems(3) nl line by auto
    qed
    have line: "handle_stdout_line jp rh stop (chop_cr line) ?sv = online_after version ?sv"
      using Suc.prems Some none
      by (simp add: handle_stdout_line_def Let_def effect_def set_state_def online_after_def)
    have "sv_state (online_after version ?sv) \<noteq> STARTING" by (simp add: online_after_def)
    from loop_idle [OF this, of jp rh stop n] obtain out where
      "stdout_loop jp rh stop n (online_after version ?sv) = (online_after version ?sv)\<lparr>sv_stdout_buffer := out\<rparr>" ..
    moreover have "holds_ready_line jp version (sv_stdout_buffer sv)"
      unfolding holds_ready_line_def using buf Some
      by (intro exI [where x = "[]"] exI [where x = line] exI [where x = rest]) simp
    ultimately show ?thesis using nl none line
      by (intro exI [where x = version] exI [where x = out]) (simp add: online_after_def)
  qed
qed simp

lemma failure_online: "sv_state (handle_failure stop reason sv) = ONLINE \<Longrightarrow> sv_state sv = ONLINE"
proof (cases "sv_stop_requested sv \<or> sv_state sv = STOPPING \<or> sv_failure_handled sv")
  case False
  then obtain es where "rebuffered (after_failure reason es sv) (handle_failure stop reason sv)"
    using failure_result [of sv reason] by auto
  then show "sv_state (handle_failure stop reason sv) = ONLINE \<Longrightarrow> sv_state sv = ONLINE"
    using after_failure_state [of reason es sv] by (auto simp: state_rebuffered)
qed (simp add: handle_failure_def)

lemma start_attempt_online:
  "sv_state (start_attempt stop checked removed sv) = ONLINE \<Longrightarrow> sv_state sv = ONLINE"
  by (auto simp: start_attempt_def Let_def set_state_def remove_socket_def
      split: if_splits sum.splits dest!: failure_online)

lemma stop_online: "sv_state (supervisor_stop stop sv) = ONLINE \<Longrightarrow> sv_state sv = ONLINE"
proof -
  let ?s = "(set_state STOPPING Shutting_down (sv\<lparr>sv_stop_requested := True\<rparr>))
    \<lparr>sv_startup_timer := None, sv_restart_timer := None, sv_stable_timer := None\<rparr>"
  have "settled ?s" "sv_state ?s = STOPPING" by (simp_all add: settled_def set_state_def effect_def)
  with quiet [of ?s] have "sv_state (stop ?s) = STOPPING" by (auto simp: state_rebuffered)
  then show "sv_state (supervisor_stop stop sv) = ONLINE \<Longrightarrow> sv_state sv = ONLINE"
    by (simp add: supervisor_stop_def Let_def remove_socket_def split: if_splits)
qed

lemma stdout_online:
  assumes "core_inv sv" "sv_state sv \<noteq> ONLINE" "sv_state (handle_stdout jp rh stop bytes sv) = ONLINE"
  shows "sv_state sv = STARTING \<and>
    (\<exists>version out. holds_ready_line jp version (sv_stdout_buffer sv @ bytes) \<and> rh (sv_endpoint sv) version = None \<and>
      handle_stdout jp rh stop bytes sv = (online_after version sv)\<lparr>sv_stdout_buffer := out\<rparr>)"
proof -
  let ?n = "count_list (sv_stdout_buffer sv @ bytes) (CHR 0x0A)"
  let ?sv = "sv\<lparr>sv_stdout_buffer := sv_stdout_buffer sv @ bytes\<rparr>"
  have eq: "handle_stdout jp rh stop bytes sv = stdout_loop jp rh stop ?n ?sv"
    by (simp add: handle_stdout_def Let_def)
  have st: "sv_state sv = STARTING"
  proof (rule ccontr)
    assume "sv_state sv \<noteq> STARTING"
    then have "\<exists>out. stdout_loop jp rh stop ?n ?sv = ?sv\<lparr>sv_stdout_buffer := out\<rparr>" by (intro loop_idle) simp
    with assms(2,3) eq show False by auto
  qed
  have "core_inv ?sv" "sv_state ?sv = STARTING" "sv_state (stdout_loop jp rh stop ?n ?sv) = ONLINE"
    using assms st eq by (simp_all add: core_inv_def)
  from loop_online [OF this] st eq show ?thesis by (auto simp: online_after_def)
qed

end

text \<open>The supervisor comes online only from a start, only with the ready line of the server in the
  output of the process, and only when the ready handler took it: it then has the version of that
  line, the endpoint was announced before the state, the start timer is stopped and the timer that
  forgets earlier restarts runs.\<close>

theorem online_after_ready_line:
  assumes "0 \<le> ai_max_restarts cfg"
    and "sup_run jp rh (new_supervisor cfg pid cwd) ts sv"
    and "sup_step jp rh sv t sv'"
    and "sv_state sv \<in> {DISABLED, STARTING, RESTART_WAIT, OFFLINE, STOPPING}"
    and "sv_state sv' = ONLINE"
  shows "sv_state sv = STARTING \<and>
    (\<exists>bytes w version out. sv' = on_signal jp rh (Output bytes w) sv \<and>
       holds_ready_line jp version (sv_stdout_buffer sv @ bytes) \<and> rh (sv_endpoint sv) version = None \<and>
       sv' = sv\<lparr>sv_state := ONLINE, sv_detail := Ai_online, sv_model_version := version, sv_startup_timer := None,
                sv_stable_timer := Some (ai_restart_reset_seconds cfg * 1000),
                sv_effects := sv_effects sv @ [Ready_notified (sv_endpoint sv) version, State_notified ONLINE Ai_online],
                sv_stdout_buffer := out\<rparr>)"
proof -
  have inv: "sup_inv sv" by (rule run_inv [OF assms(2) new_inv [OF assms(1)]])
  then have core: "core_inv sv" by (simp add: sup_inv_def)
  have off: "sv_state sv \<noteq> ONLINE" using assms(4) by auto
  have cfg: "sv_config sv = cfg" using run_config [OF assms(2)] by simp
  from assms(3) show ?thesis
  proof (cases rule: sup_step.cases)
    case Called_start
    with off assms(5) show ?thesis
      by (auto simp: supervisor_start_def set_state_def split: if_splits dest!: waits.start_attempt_online)
  next
    case Called_stop
    with off assms(5) show ?thesis using waits.stop_online by blast
  next
    case Called_report
    with off assms(5) show ?thesis by (simp add: report_transport_failure_def)
  next
    case Startup_fires
    with off assms(5) show ?thesis by (auto simp: startup_timeout_def dest!: waits.failure_online)
  next
    case Restart_fires
    with off assms(5) show ?thesis by (auto simp: restart_timeout_def dest!: waits.start_attempt_online)
  next
    case Stable_fires
    with off assms(5) show ?thesis by (simp add: stable_timeout_def)
  next
    case (Signalled s)
    show ?thesis
    proof (cases s)
      case (Output bytes w)
      with Signalled assms(5) have sv': "sv' = handle_stdout jp rh (stop_process jp rh w) bytes sv"
        "sv_state (handle_stdout jp rh (stop_process jp rh w) bytes sv) = ONLINE" by simp_all
      from waits.stdout_online [OF core off sv'(2)] Signalled Output sv'(1) show ?thesis
        unfolding online_after_def cfg by (metis (no_types, lifting))
    next
      case (Errors bytes)
      with Signalled off assms(5) show ?thesis by (simp add: state_rebuffered [OF settled_stderr])
    next
      case (Error_occurred code message running w)
      with Signalled off assms(5) show ?thesis by (auto dest!: waits.failure_online)
    next
      case (Finished exit_code status out err w)
      have "sv_state sv \<noteq> DISABLED" using inv Signalled by (auto simp: sup_inv_def)
      from finished_failed [OF core this, of jp rh exit_code status out err w] Signalled Finished assms(5)
      show ?thesis by (auto simp del: on_signal.simps)
    qed
  qed
qed

text \<open>A server that says \<open>READY\<close>; the text is read as the ready event of version \<open>v1\<close>.\<close>

definition ready_parse :: "string \<Rightarrow> json option" where
  "ready_parse line = (if line = ''READY'' then Some (JObject [(''event'', JString ''AI_READY''),
     (''schema_version'', JUnsigned 1), (''model_version'', JString ''v1'')]) else None)"

theorem online_after_ready_line_witness:
  "\<exists>sv. sv_state sv = STARTING \<and>
     sv_state (on_signal ready_parse (\<lambda>e v. None) (Output (''READY'' @ [CHR 0x0D, CHR 0x0A]) (Stopping [] True [] True)) sv) = ONLINE \<and>
     (\<exists>bytes. holds_ready_line ready_parse ''v1'' (sv_stdout_buffer sv @ bytes))"
proof -
  let ?sv = "first_start ready_parse (\<lambda>e v. None)"
  let ?s = "Output (''READY'' @ [CHR 0x0D, CHR 0x0A]) (Stopping [] True [] True)"
  have step: "sup_step ready_parse (\<lambda>e v. None) ?sv Other (on_signal ready_parse (\<lambda>e v. None) ?s ?sv)"
    by (rule Signalled) simp
  have online: "sv_state (on_signal ready_parse (\<lambda>e v. None) ?s ?sv) = ONLINE"
    by (simp add: handle_stdout_def Let_def next_line_def chop_cr_def handle_stdout_line_def
        ready_line_def ready_parse_def is_object_def member_def is_number_integer_def get_int_def
        set_state_def effect_def)
  have off: "sv_state ?sv \<in> {DISABLED, STARTING, RESTART_WAIT, OFFLINE, STOPPING}" by simp
  from online_after_ready_line [OF default_max(1) first_start_run step off online] obtain bytes version where
    v: "holds_ready_line ready_parse version (sv_stdout_buffer ?sv @ bytes)" by blast
  have "version = ''v1''" using v
    by (auto simp: holds_ready_line_def ready_line_def ready_parse_def member_def split: if_splits option.splits)
  with v first_start_fields(1) online show ?thesis by blast
qed

section \<open>Reading the output\<close>

text \<open>What the read loop is for: the complete lines of a text, in order, and what follows the last of
  them.\<close>

fun split_lines :: "string \<Rightarrow> string list \<times> string" where
  "split_lines [] = ([], [])"
| "split_lines (c # cs) =
     (case split_lines cs of
        (ls, rest) \<Rightarrow>
          if c = CHR 0x0A then ([] # ls, rest)
          else case ls of [] \<Rightarrow> ([], c # rest) | l # ls \<Rightarrow> ((c # l) # ls, rest))"

lemma split_lines_line: "CHR 0x0A \<notin> set line \<Longrightarrow>
    split_lines (line @ CHR 0x0A # rest) = (line # fst (split_lines rest), snd (split_lines rest))"
  by (induction line) (auto split: prod.split)

lemma split_lines_none: "CHR 0x0A \<notin> set s \<Longrightarrow> split_lines s = ([], s)"
  by (induction s) auto

lemma split_lines_append:
  "split_lines (a @ b) =
     (case split_lines a of (la, ra) \<Rightarrow> case split_lines (ra @ b) of (lb, rb) \<Rightarrow> (la @ lb, rb))"
  by (induction a) (auto split: prod.splits list.splits)

lemma line_buffer:
  assumes "rh (sv_endpoint sv) = (\<lambda>v. None)"
  shows "handle_stdout_line jp rh stop l (sv\<lparr>sv_stdout_buffer := b\<rparr>) =
    (handle_stdout_line jp rh stop l sv)\<lparr>sv_stdout_buffer := b\<rparr>"
  using assms by (simp add: handle_stdout_line_def Let_def effect_def set_state_def split: option.split)

lemma line_endpoint:
  assumes "rh (sv_endpoint sv) = (\<lambda>v. None)"
  shows "sv_endpoint (handle_stdout_line jp rh stop l sv) = sv_endpoint sv"
  using assms by (simp add: handle_stdout_line_def Let_def effect_def set_state_def split: option.split)

lemma fold_lines:
  fixes jp stop
  assumes "rh (sv_endpoint sv) = (\<lambda>v. None)"
  defines "h \<equiv> \<lambda>l. handle_stdout_line jp rh stop (chop_cr l)"
  shows "fold h ls (sv\<lparr>sv_stdout_buffer := b\<rparr>) = (fold h ls sv)\<lparr>sv_stdout_buffer := b\<rparr>"
    "sv_endpoint (fold h ls sv) = sv_endpoint sv"
  using assms(1) unfolding h_def
  by (induction ls arbitrary: sv) (simp_all add: line_buffer line_endpoint)

lemma loop_split:
  assumes "line_ends (sv_stdout_buffer sv) \<le> n" "rh (sv_endpoint sv) = (\<lambda>v. None)"
  shows "stdout_loop jp rh stop n sv =
    (fold (\<lambda>l. handle_stdout_line jp rh stop (chop_cr l)) (fst (split_lines (sv_stdout_buffer sv))) sv)
      \<lparr>sv_stdout_buffer := snd (split_lines (sv_stdout_buffer sv))\<rparr>"
  using assms
proof (induction n arbitrary: sv)
  case 0
  then have "CHR 0x0A \<notin> set (sv_stdout_buffer sv)" by (simp add: line_ends_def count_list_0_iff)
  then show ?case by (simp add: split_lines_none)
next
  case (Suc n)
  show ?case
  proof (cases "next_line (sv_stdout_buffer sv)")
    case None
    with next_line_None [of "sv_stdout_buffer sv"] show ?thesis by (simp add: split_lines_none)
  next
    case (Some lr)
    obtain line rest where lr: "lr = (line, rest)" by (cases lr)
    have buf: "sv_stdout_buffer sv = line @ CHR 0x0A # rest" "CHR 0x0A \<notin> set line"
      using next_line_Some [of "sv_stdout_buffer sv" line rest] Some lr by simp_all
    let ?h = "\<lambda>l. handle_stdout_line jp rh stop (chop_cr l)"
    let ?s = "?h line (sv\<lparr>sv_stdout_buffer := rest\<rparr>)"
    have s: "?s = (?h line sv)\<lparr>sv_stdout_buffer := rest\<rparr>" by (rule line_buffer) (rule Suc.prems)
    have "rh (sv_endpoint ?s) = (\<lambda>v. None)" using Suc.prems(2) by (simp add: line_endpoint)
    moreover have "line_ends (sv_stdout_buffer ?s) \<le> n"
      using Suc.prems(1) buf s by (simp add: line_ends_def)
    ultimately have loop: "stdout_loop jp rh stop n ?s =
        (fold ?h (fst (split_lines rest)) ?s)\<lparr>sv_stdout_buffer := snd (split_lines rest)\<rparr>"
      using Suc.IH [of ?s] s by simp
    show ?thesis using loop Some lr s buf Suc.prems(2)
      by (simp add: split_lines_line line_endpoint fold_lines)
  qed
qed

text \<open>As long as the ready handler takes what it is given, the handling of the output is that of its
  complete lines, in order and without their line ends, and the rest is kept; so it does not matter
  in which pieces the output arrives.\<close>

theorem output_pieces:
  assumes "rh (sv_endpoint sv) = (\<lambda>v. None)"
  shows "handle_stdout jp rh stop bytes sv =
      (case split_lines (sv_stdout_buffer sv @ bytes) of
        (ls, rest) \<Rightarrow> (fold (\<lambda>l. handle_stdout_line jp rh stop (chop_cr l)) ls sv)\<lparr>sv_stdout_buffer := rest\<rparr>) \<and>
    handle_stdout jp rh stop bytes' (handle_stdout jp rh stop bytes sv) = handle_stdout jp rh stop (bytes @ bytes') sv"
proof -
  let ?h = "\<lambda>l. handle_stdout_line jp rh stop (chop_cr l)"
  have one: "handle_stdout jp rh stop b u =
      (case split_lines (sv_stdout_buffer u @ b) of (ls, rest) \<Rightarrow> (fold ?h ls u)\<lparr>sv_stdout_buffer := rest\<rparr>)"
    if "rh (sv_endpoint u) = (\<lambda>v. None)" for b u
    using that
    by (simp add: fold_lines [of rh u] that handle_stdout_def Let_def loop_split line_ends_def split: prod.split)
  obtain la ra where a: "split_lines (sv_stdout_buffer sv @ bytes) = (la, ra)" by fastforce
  obtain lb rb where b: "split_lines (ra @ bytes') = (lb, rb)" by fastforce
  have ab: "split_lines (sv_stdout_buffer sv @ bytes @ bytes') = (la @ lb, rb)"
    using split_lines_append [of "sv_stdout_buffer sv @ bytes" bytes'] by (simp add: a b)
  show ?thesis
    using assms by (simp add: one a b ab fold_lines [of rh sv] fold_lines [of rh "fold _ la sv"])
qed

theorem output_pieces_witness:
  "\<exists>sv. sv_state sv = STARTING \<and> sv_stdout_buffer sv = ''READ'' \<and>
     handle_stdout ready_parse (\<lambda>e v. None) id [CHR 0x0A, CHR ''x''] (handle_stdout ready_parse (\<lambda>e v. None) id ''Y'' sv) =
       (handle_stdout_line ready_parse (\<lambda>e v. None) id ''READY'' sv)\<lparr>sv_stdout_buffer := ''x''\<rparr>"
proof -
  let ?sv = "(new_supervisor default_ai_config 7 ''/ips'')\<lparr>sv_state := STARTING, sv_stdout_buffer := ''READ''\<rparr>"
  have rh: "(\<lambda>e v. None) (sv_endpoint ?sv) = (\<lambda>v. None)" by simp
  have "split_lines (sv_stdout_buffer ?sv @ ''Y'' @ [CHR 0x0A, CHR ''x'']) = ([''READY''], ''x'')" by simp
  moreover have "handle_stdout ready_parse (\<lambda>e v. None) id [CHR 0x0A, CHR ''x'']
      (handle_stdout ready_parse (\<lambda>e v. None) id ''Y'' ?sv) =
    handle_stdout ready_parse (\<lambda>e v. None) id (''Y'' @ [CHR 0x0A, CHR ''x'']) ?sv"
    using output_pieces [of "\<lambda>e v. None" ?sv ready_parse id "''Y''" "[CHR 0x0A, CHR ''x'']", OF rh] by blast
  moreover have "handle_stdout ready_parse (\<lambda>e v. None) id (''Y'' @ [CHR 0x0A, CHR ''x'']) ?sv =
    (case split_lines (sv_stdout_buffer ?sv @ ''Y'' @ [CHR 0x0A, CHR ''x'']) of
      (ls, rest) \<Rightarrow> (fold (\<lambda>l. handle_stdout_line ready_parse (\<lambda>e v. None) id (chop_cr l)) ls ?sv)\<lparr>sv_stdout_buffer := rest\<rparr>)"
    using output_pieces [of "\<lambda>e v. None" ?sv ready_parse id "''Y'' @ [CHR 0x0A, CHR ''x'']", OF rh] by blast
  ultimately show ?thesis by (intro exI [where x = ?sv]) (simp add: chop_cr_def)
qed

section \<open>The states and their timers\<close>

text \<open>In every reachable state the timers, counters and flags are those of the state: the start
  timer runs exactly while the process starts, the restart timer exactly while a restart is due, with
  its delay, the stability timer only while online; the number of consecutive restarts stays within
  the configured bound and reaches it exactly when the supervisor gives up; a version is known
  exactly while online.\<close>

theorem supervisor_invariant:
  assumes "0 \<le> ai_max_restarts cfg"
    and "sup_run jp rh (new_supervisor cfg pid cwd) ts sv"
  shows "sup_inv sv"
  by (rule run_inv [OF assms(2) new_inv [OF assms(1)]])

theorem supervisor_invariant_witness:
  "\<exists>sv. sv_state sv = STARTING \<and> sv_startup_timer sv = Some 10000 \<and> sup_inv sv"
proof -
  have "sup_inv (first_start Map.empty (\<lambda>e v. None))"
    by (rule supervisor_invariant [OF default_max(1) first_start_run])
  then show ?thesis by (intro exI [where x = "first_start Map.empty (\<lambda>e v. None)"]) simp
qed

end
