(* ===== verification/State_Machine.thy ===== *)
theory State_Machine
  imports Supervisor_Properties
begin

text \<open>
  The supervisor as a state machine: six states, a count of the consecutive restarts, and what is
  announced on the way. The slots of the supervisor, with their timers, flags, buffers and nested
  signals, implement it: what they announce in any run is a trace of the machine.
\<close>

section \<open>The machine\<close>

text \<open>A transition with the state it announces, if any; \<open>enabled\<close> and \<open>max_restarts\<close> are settings.\<close>

inductive machine :: "bool \<Rightarrow> int \<Rightarrow> ai_state \<times> int \<Rightarrow> ai_state option \<Rightarrow> ai_state \<times> int \<Rightarrow> bool"
  for enabled :: bool and max_restarts :: int where
  M_disabled: "\<not> enabled \<Longrightarrow> machine enabled max_restarts (DISABLED, n) (Some DISABLED) (DISABLED, n)"
| M_start: "enabled \<Longrightarrow> s = DISABLED \<or> s = OFFLINE \<Longrightarrow>
    machine enabled max_restarts (s, n) (Some STARTING) (STARTING, 0)"
| M_ready: "machine enabled max_restarts (STARTING, n) (Some ONLINE) (ONLINE, n)"
| M_stable: "machine enabled max_restarts (ONLINE, n) None (ONLINE, 0)"
| M_fail: "s = STARTING \<or> s = ONLINE \<Longrightarrow> n < max_restarts \<Longrightarrow>
    machine enabled max_restarts (s, n) (Some RESTART_WAIT) (RESTART_WAIT, n)"
| M_give_up: "s = STARTING \<or> s = ONLINE \<Longrightarrow> max_restarts \<le> n \<Longrightarrow>
    machine enabled max_restarts (s, n) (Some OFFLINE) (OFFLINE, n)"
| M_restart: "machine enabled max_restarts (RESTART_WAIT, n) (Some STARTING) (STARTING, n + 1)"
| M_stop: "s \<noteq> STOPPING \<Longrightarrow> machine enabled max_restarts (s, n) (Some STOPPING) (STOPPING, n)"

inductive machine_run :: "bool \<Rightarrow> int \<Rightarrow> ai_state \<times> int \<Rightarrow> ai_state list \<Rightarrow> ai_state \<times> int \<Rightarrow> bool"
  for enabled :: bool and max_restarts :: int where
  M_rests: "machine_run enabled max_restarts m [] m"
| M_moves: "machine_run enabled max_restarts m tr m' \<Longrightarrow> machine enabled max_restarts m' out m'' \<Longrightarrow>
    machine_run enabled max_restarts m (tr @ (case out of None \<Rightarrow> [] | Some s \<Rightarrow> [s])) m''"

inductive_cases machineE: "machine enabled max_restarts m out m'"

lemma machine_run_trans:
  "machine_run en mx m' tr' m'' \<Longrightarrow> machine_run en mx m tr m' \<Longrightarrow> machine_run en mx m (tr @ tr') m''"
proof (induction rule: machine_run.induct)
  case (M_moves m1 tr1 m2 out m3)
  from machine_run.M_moves [OF M_moves.IH [OF M_moves.prems] M_moves.hyps(2)] show ?case by simp
qed simp

lemma machine_run_one: "machine en mx m (Some s) m' \<Longrightarrow> machine_run en mx m [s] m'"
  using M_moves [OF M_rests] by fastforce

section \<open>What a supervisor announces\<close>

fun announced :: "effect list \<Rightarrow> ai_state list" where
  "announced [] = []"
| "announced (State_notified s d # es) = s # announced es"
| "announced (e # es) = announced es"

definition moves :: "ai_supervisor \<Rightarrow> ai_supervisor \<Rightarrow> bool" where
  "moves sv sv' \<longleftrightarrow> sv_config sv' = sv_config sv \<and>
     (\<exists>es. sv_effects sv' = sv_effects sv @ es \<and>
       machine_run (ai_enabled (sv_config sv)) (ai_max_restarts (sv_config sv))
         (sv_state sv, sv_restart_attempts sv) (announced es) (sv_state sv', sv_restart_attempts sv'))"

lemma announced_append [simp]: "announced (es @ es') = announced es @ announced es'"
  by (induction es rule: announced.induct) simp_all

lemma announced_stop [simp]: "es \<in> stop_effects \<Longrightarrow> announced es = []"
  by (auto simp: stop_effects_def)

lemma moves_refl: "moves sv sv"
  by (auto simp: moves_def intro: M_rests)

lemma moves_trans: "moves a b \<Longrightarrow> moves b c \<Longrightarrow> moves a c"
  by (fastforce simp: moves_def intro: machine_run_trans)

text \<open>Steps that change nothing the machine sees.\<close>

lemma moves_same:
  assumes "sv_config sv' = sv_config sv" "sv_effects sv' = sv_effects sv @ es" "announced es = []"
    "sv_state sv' = sv_state sv" "sv_restart_attempts sv' = sv_restart_attempts sv"
  shows "moves sv sv'"
  using assms M_rests by (auto simp: moves_def)

lemma moves_rebuffered: "rebuffered sv sv' \<Longrightarrow> moves sv sv'"
  by (auto simp: rebuffered_def rebuffer_def intro: moves_same [of _ _ "[]"])

lemma moves_announce:
  assumes "machine (ai_enabled (sv_config sv)) (ai_max_restarts (sv_config sv))
      (sv_state sv, sv_restart_attempts sv) (Some s) (s, sv_restart_attempts sv')"
    and "sv_config sv' = sv_config sv" "sv_state sv' = s"
    and "sv_effects sv' = sv_effects sv @ es @ [State_notified s d] @ es'" "announced es = []" "announced es' = []"
  shows "moves sv sv'"
  unfolding moves_def using assms machine_run_one [OF assms(1)] by auto

section \<open>Every slot moves along the machine\<close>

context quiet_stop
begin

lemma failure_moves:
  assumes "attempt_ok sv"
  shows "moves sv (handle_failure stop reason sv)"
proof -
  have ok: "\<not> sv_stop_requested sv" "sv_state sv \<noteq> STOPPING" "\<not> sv_failure_handled sv"
    "sv_state sv = STARTING \<or> sv_state sv = ONLINE"
    using assms by (auto simp: attempt_ok_def)
  from failure_result [OF ok(1-3), of reason] obtain es where es: "es \<in> stop_effects"
    and r: "rebuffered (after_failure reason es sv) (handle_failure stop reason sv)" by blast
  have "moves sv (after_failure reason es sv)"
  proof (rule moves_announce)
    show "sv_effects (after_failure reason es sv) = sv_effects sv @ [] @
        [State_notified (sv_state (after_failure reason es sv)) (sv_detail (after_failure reason es sv))] @ es @ [Socket_removed]"
      by (simp add: after_failure_def Let_def)
  qed (use es ok(4) in \<open>auto simp: after_failure_def Let_def intro: M_fail M_give_up\<close>)
  then show ?thesis by (rule moves_trans [OF _ moves_rebuffered [OF r]])
qed

lemma failure_moves_core:
  assumes "core_inv sv" "sv_state sv \<noteq> DISABLED"
  shows "moves sv (handle_failure stop reason sv)"
proof (cases "sv_state sv \<in> {STARTING, ONLINE}")
  case True
  then show ?thesis by (rule failure_moves [OF core_attempt_ok [OF assms(1)]])
next
  case False
  with assms(2) have "sv_state sv \<in> {RESTART_WAIT, OFFLINE, STOPPING}" by (cases "sv_state sv") auto
  from core_settled [OF assms(1) this] show ?thesis by (simp add: moves_refl)
qed

lemma line_moves:
  assumes "core_inv sv" "sv_state sv \<noteq> DISABLED"
  shows "moves sv (handle_stdout_line jp rh stop line sv)"
proof (cases "sv_state sv = STARTING \<and> ready_line jp line \<noteq> None")
  case True
  then obtain v where v: "ready_line jp line = Some v" by blast
  let ?s = "effect (Ready_notified (sv_endpoint sv) v) (sv\<lparr>sv_startup_timer := None, sv_model_version := v\<rparr>)"
  have ok: "attempt_ok ?s" using assms True by (auto simp: core_inv_def attempt_ok_def effect_def)
  have quiet: "moves sv ?s" by (rule moves_same [of _ _ "[Ready_notified (sv_endpoint sv) v]"]) (simp_all add: effect_def)
  show ?thesis
  proof (cases "rh (sv_endpoint sv) v")
    case (Some e)
    from moves_trans [OF quiet failure_moves [OF ok]] show ?thesis using Some True v
      by (simp add: handle_stdout_line_def Let_def effect_def)
  next
    case None
    let ?o = "(set_state ONLINE Ai_online ?s)\<lparr>sv_stable_timer := Some (ai_restart_reset_seconds (sv_config ?s) * 1000)\<rparr>"
    have "moves ?s ?o"
      by (rule moves_announce [where s = ONLINE and d = Ai_online and es = "[]" and es' = "[]"])
        (use True in \<open>simp_all add: set_state_def effect_def M_ready\<close>)
    from moves_trans [OF quiet this] show ?thesis using None True v
      by (simp add: handle_stdout_line_def Let_def effect_def)
  qed
next
  case False
  then show ?thesis by (auto simp: handle_stdout_line_def moves_refl)
qed

lemma buffer_moves: "moves sv (sv\<lparr>sv_stdout_buffer := b\<rparr>)"
  by (rule moves_same [of _ _ "[]"]) simp_all

lemma loop_moves:
  assumes "core_inv sv" "sv_state sv \<noteq> DISABLED"
  shows "moves sv (stdout_loop jp rh stop n sv)"
  using assms
proof (induction n arbitrary: sv)
  case (Suc n)
  show ?case
  proof (cases "next_line (sv_stdout_buffer sv)")
    case None
    then show ?thesis by (simp add: moves_refl)
  next
    case (Some lr)
    obtain line rest where lr: "lr = (line, rest)" by (cases lr)
    have r: "core_inv (sv\<lparr>sv_stdout_buffer := rest\<rparr>)" "sv_state (sv\<lparr>sv_stdout_buffer := rest\<rparr>) \<noteq> DISABLED"
      using Suc.prems by (simp_all add: core_inv_def)
    note l = line_ok [OF r, of jp rh "chop_cr line"]
    from moves_trans [OF buffer_moves moves_trans [OF line_moves [OF r] Suc.IH [OF conjunct1 [OF l] conjunct2 [OF l]]]]
    show ?thesis using Some lr by simp
  qed
qed (simp add: moves_refl)

lemma stdout_moves:
  assumes "core_inv sv" "sv_state sv \<noteq> DISABLED"
  shows "moves sv (handle_stdout jp rh stop bytes sv)"
proof -
  have "core_inv (sv\<lparr>sv_stdout_buffer := sv_stdout_buffer sv @ bytes\<rparr>)"
    "sv_state (sv\<lparr>sv_stdout_buffer := sv_stdout_buffer sv @ bytes\<rparr>) \<noteq> DISABLED"
    using assms by (simp_all add: core_inv_def)
  from moves_trans [OF buffer_moves loop_moves [OF this]] show ?thesis by (simp add: handle_stdout_def Let_def)
qed

text \<open>An attempt announces the start; its number of restarts is the one of the caller's move.\<close>

lemma start_attempt_moves:
  assumes "\<not> sv_stop_requested sv" "sv_restart_timer sv = None" "0 \<le> sv_restart_attempts sv"
    "sv_restart_attempts sv \<le> ai_max_restarts (sv_config sv)" "ai_enabled (sv_config sv)"
    and "machine True (ai_max_restarts (sv_config before)) (sv_state before, sv_restart_attempts before) (Some STARTING)
      (STARTING, sv_restart_attempts sv)"
    and "sv_config sv = sv_config before" "sv_effects sv = sv_effects before"
  shows "moves before (start_attempt stop checked removed sv)"
proof -
  let ?s = "set_state STARTING (if sv_restart_attempts sv = 0 then Starting_process else Restarting_process)
    (sv\<lparr>sv_failure_handled := False, sv_stdout_buffer := [], sv_stderr_buffer := [], sv_model_version := []\<rparr>)"
  have ok: "attempt_ok ?s" "attempt_ok (remove_socket ?s)"
    using assms by (simp_all add: attempt_ok_def set_state_def effect_def remove_socket_def)
  have start: "moves before ?s"
    using assms(5-8)
    by (intro moves_announce [where s = STARTING and es = "[]" and es' = "[]" and
          d = "if sv_restart_attempts sv = 0 then Starting_process else Restarting_process"])
      (simp_all add: set_state_def effect_def)
  have sock: "moves ?s (remove_socket ?s)"
    by (rule moves_same [of _ _ "[Socket_removed]"]) (simp_all add: remove_socket_def effect_def)
  have go: "moves (remove_socket ?s) (effect Process_started ((remove_socket ?s)
      \<lparr>sv_startup_timer := Some (ai_startup_timeout_ms (sv_config (remove_socket ?s))), sv_running := True\<rparr>))"
    by (rule moves_same [of _ _ "[Process_started]"]) (simp_all add: effect_def)
  show ?thesis
  proof (cases checked)
    case (Inl e)
    then show ?thesis using moves_trans [OF start failure_moves [OF ok(1)]] assms(1)
      by (simp add: start_attempt_def Let_def)
  next
    case (Inr u)
    then show ?thesis
      using moves_trans [OF moves_trans [OF start sock] failure_moves [OF ok(2)]]
        moves_trans [OF moves_trans [OF start sock] go] assms(1)
      by (simp add: start_attempt_def Let_def)
  qed
qed

lemma start_moves:
  assumes "sup_inv sv"
  shows "moves sv (supervisor_start stop checked removed sv)"
proof (cases "sv_stop_requested sv \<or> sv_state sv \<in> {STARTING, ONLINE, RESTART_WAIT}")
  case True
  then show ?thesis by (auto simp: supervisor_start_def moves_refl)
next
  case False
  then have idle: "sv_state sv = DISABLED \<or> sv_state sv = OFFLINE"
    using assms by (cases "sv_state sv") (auto simp: sup_inv_def core_inv_def)
  have max: "0 \<le> ai_max_restarts (sv_config sv)" "sv_restart_timer sv = None"
    using assms False by (auto simp: sup_inv_def core_inv_def)
  show ?thesis
  proof (cases "ai_enabled (sv_config sv)")
    case True
    have "moves sv (start_attempt stop checked removed (sv\<lparr>sv_restart_attempts := 0\<rparr>))"
      by (rule start_attempt_moves) (use False True idle max in \<open>simp_all add: M_start\<close>)
    then show ?thesis using False True by (auto simp: supervisor_start_def)
  next
    case off: False
    then have "sv_state sv = DISABLED" using idle assms by (auto simp: sup_inv_def core_inv_def)
    then have "moves sv (set_state DISABLED Disabled_by_config sv)"
      by (intro moves_announce [where s = DISABLED and d = Disabled_by_config and es = "[]" and es' = "[]"])
        (use off in \<open>simp_all add: set_state_def effect_def M_disabled\<close>)
    then show ?thesis using False off by (auto simp: supervisor_start_def)
  qed
qed

lemma stop_moves:
  assumes "sup_inv sv"
  shows "moves sv (supervisor_stop stop sv)"
proof (cases "sv_stop_requested sv")
  case False
  then have s: "sv_state sv \<noteq> STOPPING" using assms by (simp add: sup_inv_def core_inv_def)
  let ?s = "(set_state STOPPING Shutting_down (sv\<lparr>sv_stop_requested := True\<rparr>))
    \<lparr>sv_startup_timer := None, sv_restart_timer := None, sv_stable_timer := None\<rparr>"
  have "settled ?s" by (simp add: settled_def set_state_def effect_def)
  from quiet [OF this] obtain es where es: "es \<in> stop_effects"
    and r: "rebuffered (?s\<lparr>sv_effects := sv_effects ?s @ es\<rparr>) (stop ?s)" by blast
  have "moves sv ?s"
    by (rule moves_announce [where s = STOPPING and d = Shutting_down and es = "[]" and es' = "[]"])
      (use s in \<open>simp_all add: set_state_def effect_def M_stop\<close>)
  moreover have "moves ?s (?s\<lparr>sv_effects := sv_effects ?s @ es\<rparr>)"
    by (rule moves_same [of _ _ es]) (use es in simp_all)
  moreover note moves_rebuffered [OF r]
  moreover have "moves (stop ?s) (effect Socket_removed (stop ?s))"
    by (rule moves_same [of _ _ "[Socket_removed]"]) (simp_all add: effect_def)
  ultimately have "moves sv (effect Socket_removed (stop ?s))" by (blast intro: moves_trans)
  then show ?thesis using False by (simp add: supervisor_stop_def Let_def remove_socket_def)
qed (simp add: supervisor_stop_def moves_refl)

end

lemma signal_moves:
  assumes "sup_inv sv" "sv_running sv"
  shows "moves sv (on_signal jp rh s sv)"
proof -
  have c: "core_inv sv" "sv_state sv \<noteq> DISABLED" using assms by (auto simp: sup_inv_def)
  have r: "core_inv (sv\<lparr>sv_running := r\<rparr>)" "sv_state (sv\<lparr>sv_running := r\<rparr>) \<noteq> DISABLED" for r
    using c by (simp_all add: core_inv_def)
  have run: "moves sv (sv\<lparr>sv_running := r\<rparr>)" for r by (rule moves_rebuffered [OF rebuffered_running])
  show ?thesis
  proof (cases s)
    case (Output bytes w)
    then show ?thesis using waits.stdout_moves [OF c] by simp
  next
    case (Errors bytes)
    then show ?thesis by (simp add: moves_rebuffered [OF settled_stderr])
  next
    case (Error_occurred code message running w)
    then show ?thesis using moves_trans [OF run waits.failure_moves_core [OF r]] by simp
  next
    case (Finished exit_code status out err w)
    let ?s1 = "handle_stdout jp rh (stop_process jp rh w) out (sv\<lparr>sv_running := False\<rparr>)"
    let ?s2 = "flush_partial_output (handle_stderr err ?s1)"
    have ok: "core_inv ?s1 \<and> sv_state ?s1 \<noteq> DISABLED" by (rule waits.stdout_ok [OF r])
    have b: "rebuffered ?s1 ?s2" by (rule rebuffered_trans [OF settled_stderr rebuffered_flush])
    have s2: "core_inv ?s2" "sv_state ?s2 \<noteq> DISABLED"
      using ok by (simp_all add: core_rebuffered [OF b] state_rebuffered [OF b])
    have "moves sv ?s2" by (rule moves_trans [OF moves_trans [OF run waits.stdout_moves [OF r]] moves_rebuffered [OF b]])
    then show ?thesis using moves_trans [OF _ waits.failure_moves_core [OF s2]] Finished by (simp add: Let_def)
  qed
qed

lemma step_moves:
  assumes "sup_step jp rh sv t sv'" "sup_inv sv"
  shows "moves sv sv'"
  using assms(1)
proof (cases rule: sup_step.cases)
  case Called_start
  then show ?thesis using waits.start_moves [OF assms(2)] by simp
next
  case Called_stop
  then show ?thesis using waits.stop_moves [OF assms(2)] by simp
next
  case Called_report
  have c: "core_inv sv" using assms(2) by (simp add: sup_inv_def)
  show ?thesis using Called_report waits.failure_moves [OF core_attempt_ok [OF c]]
    by (auto simp: report_transport_failure_def moves_refl)
next
  case (Startup_fires ms w)
  have "attempt_ok (sv\<lparr>sv_startup_timer := None\<rparr>)"
    using assms(2) Startup_fires by (auto simp: sup_inv_def core_inv_def attempt_ok_def split: if_splits)
  moreover have "moves sv (sv\<lparr>sv_startup_timer := None\<rparr>)" by (rule moves_same [of _ _ "[]"]) simp_all
  ultimately show ?thesis using moves_trans waits.failure_moves Startup_fires by (auto simp: startup_timeout_def)
next
  case (Restart_fires ms fs checked w ex rm)
  have s: "sv_state sv = RESTART_WAIT" using assms(2) Restart_fires by (auto simp: sup_inv_def core_inv_def split: if_splits)
  show ?thesis unfolding Restart_fires restart_timeout_def
    by (rule waits.start_attempt_moves) (use s assms(2) in \<open>auto simp: sup_inv_def core_inv_def M_restart\<close>)
next
  case Stable_fires
  then have "sv_state sv = ONLINE" using assms(2) by (auto simp: sup_inv_def core_inv_def)
  then have "machine_run (ai_enabled (sv_config sv)) (ai_max_restarts (sv_config sv)) (sv_state sv, sv_restart_attempts sv)
      ([] @ (case None of None \<Rightarrow> [] | Some s \<Rightarrow> [s])) (ONLINE, 0)"
    by (intro M_moves [OF M_rests]) (simp add: M_stable)
  then show ?thesis using Stable_fires \<open>sv_state sv = ONLINE\<close> by (simp add: stable_timeout_def moves_def)
next
  case Signalled
  then show ?thesis using signal_moves [OF assms(2)] by simp
qed

text \<open>C10. The supervisor implements its state machine: the states it announces in any run, whatever the
  timers, the signals of the process and the callers do and however they nest, are a trace of the
  machine from its initial state to the state and the count of restarts it is in.\<close>

theorem supervisor_refines_machine:
  assumes "0 \<le> ai_max_restarts cfg"
    and "sup_run jp rh (new_supervisor cfg pid cwd) ts sv"
  shows "machine_run (ai_enabled cfg) (ai_max_restarts cfg) (DISABLED, 0) (announced (sv_effects sv))
    (sv_state sv, sv_restart_attempts sv)"
proof -
  let ?new = "new_supervisor cfg pid cwd"
  have "moves ?new sv"
    using assms(2) new_inv [OF assms(1), of pid cwd]
  proof (induction rule: sup_run.induct)
    case (One_turn a ts b t c)
    then show ?case using moves_trans step_moves [OF One_turn.hyps(2)] run_inv [OF One_turn.hyps(1)] by blast
  qed (simp add: moves_refl)
  then show ?thesis by (simp add: moves_def new_supervisor_def Let_def)
qed

text \<open>A start that fails its checks is announced as such.\<close>

theorem supervisor_refines_machine_witness:
  "\<exists>sv :: ai_supervisor. sv_state sv = RESTART_WAIT \<and>
     machine_run True 3 (DISABLED, 0) [STARTING, RESTART_WAIT] (sv_state sv, sv_restart_attempts sv)"
proof -
  let ?sv = "refused_start Map.empty (\<lambda>e v. None)"
  have "machine_run (ai_enabled default_ai_config) (ai_max_restarts default_ai_config) (DISABLED, 0)
      (announced (sv_effects ?sv)) (sv_state ?sv, sv_restart_attempts ?sv)"
    by (rule supervisor_refines_machine [OF default_max(1) refused_start_run])
  moreover have "announced (sv_effects ?sv) = [STARTING, RESTART_WAIT]"
    by (simp add: refused_start_def slot_defs Let_def)
  moreover have "ai_enabled default_ai_config" "ai_max_restarts default_ai_config = 3"
    by (simp_all add: default_ai_config_def)
  ultimately show ?thesis using refused_start_fields(1) by metis
qed

end
