(* ===== verification/Firewall_Guard.thy ===== *)
theory Firewall_Guard
  imports Ips_Prelude
begin

text \<open>
  capture/firewall_queue_guard.h and capture/firewall_queue_guard.cpp: the guard that hangs the
  program's chain into the packet filter while the program captures, and takes it out again.

  The program \<open>iptables\<close> is a parameter: what running it with some arguments gives, as the parent
  process sees it, and what it makes of the world, which only it can read. Every command that is run
  is recorded with its result. The loop that removes jumps ends only if \<open>iptables\<close> lets it; the
  operations are \<open>None\<close> when it does not.
\<close>

section \<open>Running a command\<close>

definition IPTABLES_PATH :: string where "IPTABLES_PATH = ''/usr/sbin/iptables''"
definition CHAIN_NAME :: string where "CHAIN_NAME = ''IPS_WITH_AI''"
definition JUMP_COMMENT :: string where "JUMP_COMMENT = ''ips-with-ai-managed''"
definition OWNER_COMMENT :: string where "OWNER_COMMENT = ''ips-with-ai-owned''"

text \<open>What comes of a child process: it cannot be created or waited for, it ends abnormally, or it exits
  with a status of 8 bits.\<close>

datatype child = Fork_failed | Wait_failed | Killed_by_signal | Exited u8

type_synonym 'w iptables = "string list \<Rightarrow> 'w \<Rightarrow> child \<times> 'w"

record 'w firewall_guard =
  fg_queue_num :: u16
  fg_installed :: bool
  fg_owns_chain :: bool
  fg_world :: 'w
  fg_commands :: "(string list \<times> int) list"

definition new_guard :: "u16 \<Rightarrow> 'w \<Rightarrow> 'w firewall_guard" where
  "new_guard queue_num w =
     \<lparr>fg_queue_num = queue_num, fg_installed = False, fg_owns_chain = False, fg_world = w, fg_commands = []\<rparr>"

definition exit_status :: "child \<Rightarrow> int" where
  "exit_status c = (case c of Exited s \<Rightarrow> uint s | _ \<Rightarrow> -1)"

definition run_iptables :: "'w iptables \<Rightarrow> string list \<Rightarrow> 'w firewall_guard \<Rightarrow> int \<times> 'w firewall_guard" where
  "run_iptables ipt arguments g =
     (case ipt (IPTABLES_PATH # ''-w'' # arguments) (fg_world g) of
        (c, w) \<Rightarrow> (exit_status c,
          g\<lparr>fg_world := w, fg_commands := fg_commands g @ [(arguments, exit_status c)]\<rparr>))"

section \<open>The commands\<close>

definition jump_rule :: "string \<Rightarrow> string \<Rightarrow> string list" where
  "jump_rule operation builtin_chain =
     [operation, builtin_chain, ''-m'', ''comment'', ''--comment'', JUMP_COMMENT, ''-j'', CHAIN_NAME]"

definition list_chain :: "string list" where
  "list_chain = [''-n'', ''-L'', CHAIN_NAME]"

definition owner_rule :: "string \<Rightarrow> string list" where
  "owner_rule operation =
     [operation, CHAIN_NAME, ''-m'', ''comment'', ''--comment'', OWNER_COMMENT, ''-j'', ''RETURN'']"

definition flush_chain :: "string list" where "flush_chain = [''-F'', CHAIN_NAME]"
definition delete_chain :: "string list" where "delete_chain = [''-X'', CHAIN_NAME]"
definition create_chain :: "string list" where "create_chain = [''-N'', CHAIN_NAME]"

definition queue_rule :: "u16 \<Rightarrow> string list" where
  "queue_rule queue_num =
     [''-A'', CHAIN_NAME, ''-j'', ''NFQUEUE'', ''--queue-num'', string_of_nat (unat queue_num), ''--queue-bypass'']"

definition insert_jump :: "string \<Rightarrow> string list" where
  "insert_jump builtin_chain =
     [''-I'', builtin_chain, ''1'', ''-m'', ''comment'', ''--comment'', JUMP_COMMENT, ''-j'', CHAIN_NAME]"

section \<open>Removing\<close>

partial_function (option) remove_managed_jumps ::
    "'w iptables \<Rightarrow> string \<Rightarrow> 'w firewall_guard \<Rightarrow> (bool \<times> 'w firewall_guard) option" where
  "remove_managed_jumps ipt builtin_chain g =
     (case run_iptables ipt (jump_rule ''-C'' builtin_chain) g of
        (check_status, g1) \<Rightarrow>
          if check_status = 1 then Some (True, g1)
          else if check_status \<noteq> 0 then Some (False, g1)
          else case run_iptables ipt (jump_rule ''-D'' builtin_chain) g1 of
            (delete_status, g2) \<Rightarrow>
              if delete_status \<noteq> 0 then Some (False, g2) else remove_managed_jumps ipt builtin_chain g2)"

text \<open>What follows the checks of \<open>remove_chain\<close>: flushing, deleting, and restoring the mark of the owner
  when the chain stays.\<close>

definition restore_mark :: "'w iptables \<Rightarrow> 'w firewall_guard \<Rightarrow> bool \<times> 'w firewall_guard" where
  "restore_mark ipt g =
     (case run_iptables ipt list_chain g of
        (remaining_status, g) \<Rightarrow>
          if remaining_status = 1 then (True, g)
          else if remaining_status \<noteq> 0 then (False, g)
          else (False, snd (run_iptables ipt (owner_rule ''-A'') g)))"

definition erase_chain :: "'w iptables \<Rightarrow> 'w firewall_guard \<Rightarrow> bool \<times> 'w firewall_guard" where
  "erase_chain ipt g =
     (case run_iptables ipt flush_chain g of
        (flush_status, g) \<Rightarrow>
          if flush_status \<noteq> 0 then (False, g)
          else case run_iptables ipt delete_chain g of
            (delete_status, g) \<Rightarrow> if delete_status = 0 then (True, g) else restore_mark ipt g)"

definition is_owner :: "'w iptables \<Rightarrow> bool \<Rightarrow> 'w firewall_guard \<Rightarrow> bool \<times> 'w firewall_guard" where
  "is_owner ipt require_owner_marker g =
     (if require_owner_marker then
        case run_iptables ipt (owner_rule ''-C'') g of (owner_status, g) \<Rightarrow> (owner_status = 0, g)
      else (True, g))"

definition remove_chain ::
    "'w iptables \<Rightarrow> bool \<Rightarrow> 'w firewall_guard \<Rightarrow> (bool \<times> 'w firewall_guard) option" where
  "remove_chain ipt require_owner_marker g =
     (case run_iptables ipt list_chain g of
        (chain_status, g) \<Rightarrow>
          if chain_status = 1 then Some (True, g)
          else if chain_status \<noteq> 0 then Some (False, g)
          else case is_owner ipt require_owner_marker g of
            (owner, g) \<Rightarrow>
              if \<not> owner then Some (False, g)
              else case remove_managed_jumps ipt ''INPUT'' g of
                None \<Rightarrow> None
              | Some (input, g) \<Rightarrow>
                  if \<not> input then Some (False, g)
                  else case remove_managed_jumps ipt ''OUTPUT'' g of
                    None \<Rightarrow> None
                  | Some (output, g) \<Rightarrow>
                      if \<not> output then Some (False, g) else Some (erase_chain ipt g))"

definition remove_owned_chain :: "'w iptables \<Rightarrow> 'w firewall_guard \<Rightarrow> (bool \<times> 'w firewall_guard) option" where
  "remove_owned_chain ipt g = remove_chain ipt True g"

definition remove_current_chain :: "'w iptables \<Rightarrow> 'w firewall_guard \<Rightarrow> (bool \<times> 'w firewall_guard) option" where
  "remove_current_chain ipt g =
     (case remove_chain ipt False g of
        None \<Rightarrow> None
      | Some (removed, g) \<Rightarrow>
          Some (if removed then (True, g\<lparr>fg_owns_chain := False, fg_installed := False\<rparr>) else (False, g)))"

section \<open>Installing and uninstalling\<close>

text \<open>A failure after the chain was created takes it back; the result of that is only logged.\<close>

definition rollback :: "'w iptables \<Rightarrow> 'w firewall_guard \<Rightarrow> (bool \<times> 'w firewall_guard) option" where
  "rollback ipt g = map_option (\<lambda>(removed, g). (False, g)) (remove_current_chain ipt g)"

text \<open>The four rules, in order; the first that fails ends the sequence.\<close>

fun run_all :: "'w iptables \<Rightarrow> string list list \<Rightarrow> 'w firewall_guard \<Rightarrow> bool \<times> 'w firewall_guard" where
  "run_all ipt [] g = (True, g)"
| "run_all ipt (c # cs) g =
     (case run_iptables ipt c g of (status, g) \<Rightarrow> if status \<noteq> 0 then (False, g) else run_all ipt cs g)"

definition install_rules :: "'w iptables \<Rightarrow> 'w firewall_guard \<Rightarrow> (bool \<times> 'w firewall_guard) option" where
  "install_rules ipt g =
     (case run_iptables ipt create_chain g of
        (created, g) \<Rightarrow>
          if created \<noteq> 0 then Some (False, g)
          else case run_all ipt [queue_rule (fg_queue_num g), owner_rule ''-A'', insert_jump ''INPUT'', insert_jump ''OUTPUT'']
                      (g\<lparr>fg_owns_chain := True\<rparr>) of
            (ok, g) \<Rightarrow> if ok then Some (True, g\<lparr>fg_installed := True\<rparr>) else rollback ipt g)"

definition install :: "'w iptables \<Rightarrow> 'w firewall_guard \<Rightarrow> (bool \<times> 'w firewall_guard) option" where
  "install ipt g =
     (if fg_installed g then Some (True, g)
      else case (if fg_owns_chain g then remove_current_chain ipt g else Some (True, g)) of
        None \<Rightarrow> None
      | Some (clean, g) \<Rightarrow>
          if \<not> clean then Some (False, g)
          else case remove_owned_chain ipt g of
            None \<Rightarrow> None
          | Some (free, g) \<Rightarrow> if \<not> free then Some (False, g) else install_rules ipt g)"

definition uninstall :: "'w iptables \<Rightarrow> 'w firewall_guard \<Rightarrow> (bool \<times> 'w firewall_guard) option" where
  "uninstall ipt g = (if \<not> fg_owns_chain g then Some (True, g) else remove_current_chain ipt g)"

definition destroy :: "'w iptables \<Rightarrow> 'w firewall_guard \<Rightarrow> 'w firewall_guard option" where
  "destroy ipt g = (if fg_owns_chain g then map_option snd (remove_current_chain ipt g) else Some g)"

text \<open>A sequence of calls on one guard.\<close>

datatype guard_call = Install | Uninstall | Destroy

fun guard_run :: "'w iptables \<Rightarrow> guard_call list \<Rightarrow> 'w firewall_guard \<Rightarrow> 'w firewall_guard option" where
  "guard_run ipt [] g = Some g"
| "guard_run ipt (Install # cs) g =
     (case install ipt g of None \<Rightarrow> None | Some (ok, g) \<Rightarrow> guard_run ipt cs g)"
| "guard_run ipt (Uninstall # cs) g =
     (case uninstall ipt g of None \<Rightarrow> None | Some (ok, g) \<Rightarrow> guard_run ipt cs g)"
| "guard_run ipt (Destroy # cs) g =
     (case destroy ipt g of None \<Rightarrow> None | Some g \<Rightarrow> guard_run ipt cs g)"

end
