(* ===== verification/Firewall_Properties.thy ===== *)
theory Firewall_Properties
  imports Firewall_Guard
begin

text \<open>
  What the firewall guard guarantees. The first part needs nothing of \<open>iptables\<close>: a monitor over the
  commands that were run shows that the chain is flushed or deleted only while it is known to be the
  program's own. The second part relates the commands to the packet filter: \<open>iptables_ok\<close> states what
  the manual of iptables says the commands of the guard do to the filter table; the guard then ends,
  installs exactly its own rules before all others, and takes them out again.
\<close>

section \<open>Commands\<close>

lemmas command_defs = list_chain_def owner_rule_def flush_chain_def delete_chain_def create_chain_def
  queue_rule_def insert_jump_def jump_rule_def

lemma commands_differ [simp]:
  "jump_rule op b \<noteq> list_chain" "jump_rule op b \<noteq> flush_chain" "jump_rule op b \<noteq> delete_chain"
  "jump_rule op b \<noteq> create_chain" "b \<noteq> CHAIN_NAME \<Longrightarrow> jump_rule op b \<noteq> owner_rule op'"
  "list_chain \<noteq> flush_chain" "list_chain \<noteq> delete_chain" "list_chain \<noteq> create_chain" "list_chain \<noteq> owner_rule op"
  "flush_chain \<noteq> list_chain" "flush_chain \<noteq> delete_chain" "flush_chain \<noteq> create_chain" "flush_chain \<noteq> owner_rule op"
  "delete_chain \<noteq> list_chain" "delete_chain \<noteq> flush_chain" "delete_chain \<noteq> create_chain" "delete_chain \<noteq> owner_rule op"
  "create_chain \<noteq> list_chain" "create_chain \<noteq> flush_chain" "create_chain \<noteq> delete_chain" "create_chain \<noteq> owner_rule op"
  "owner_rule op \<noteq> list_chain" "owner_rule op \<noteq> flush_chain" "owner_rule op \<noteq> delete_chain" "owner_rule op \<noteq> create_chain"
  "queue_rule q \<noteq> list_chain" "queue_rule q \<noteq> flush_chain" "queue_rule q \<noteq> delete_chain" "queue_rule q \<noteq> create_chain"
  "queue_rule q \<noteq> owner_rule op"
  "insert_jump b \<noteq> list_chain" "insert_jump b \<noteq> flush_chain" "insert_jump b \<noteq> delete_chain" "insert_jump b \<noteq> create_chain"
  "insert_jump b \<noteq> owner_rule op"
  "owner_rule op = owner_rule op' \<longleftrightarrow> op = op'"
  by (simp_all add: command_defs)

lemma builtin_names [simp]: "''INPUT'' \<noteq> CHAIN_NAME" "''OUTPUT'' \<noteq> CHAIN_NAME"
  by (simp_all add: CHAIN_NAME_def)

section \<open>Whose chain it is\<close>

text \<open>
  The monitor: the chain is known to be the program's own after it was created, or its mark was found;
  no longer after it was deleted, found absent, or found without the mark.
\<close>

definition mine_after :: "bool \<Rightarrow> string list \<times> int \<Rightarrow> bool" where
  "mine_after mine e =
     (case e of (c, status) \<Rightarrow>
        if c = create_chain then mine \<or> status = 0
        else if c = owner_rule ''-C'' then status = 0
        else if c = delete_chain then mine \<and> status \<noteq> 0
        else if c = list_chain then mine \<and> status \<noteq> 1
        else mine)"

definition destructive :: "string list \<Rightarrow> bool" where
  "destructive c \<longleftrightarrow> c = flush_chain \<or> c = delete_chain"

fun licensed :: "bool \<Rightarrow> (string list \<times> int) list \<Rightarrow> bool" where
  "licensed mine [] = True"
| "licensed mine (e # es) \<longleftrightarrow> (destructive (fst e) \<longrightarrow> mine) \<and> licensed (mine_after mine e) es"

lemma licensed_snoc: "licensed m (es @ [e]) \<longleftrightarrow> licensed m es \<and> (destructive (fst e) \<longrightarrow> foldl mine_after m es)"
  by (induction es arbitrary: m) auto

definition mine :: "'w firewall_guard \<Rightarrow> bool" where
  "mine g = foldl mine_after False (fg_commands g)"

definition safe :: "'w firewall_guard \<Rightarrow> bool" where
  "safe g = licensed False (fg_commands g)"

definition same_flags :: "'w firewall_guard \<Rightarrow> 'w firewall_guard \<Rightarrow> bool" where
  "same_flags g g' \<longleftrightarrow> fg_owns_chain g' = fg_owns_chain g \<and> fg_installed g' = fg_installed g \<and>
     fg_queue_num g' = fg_queue_num g"

lemma same_flags_refl [simp]: "same_flags g g"
  by (simp add: same_flags_def)

lemma same_flags_trans: "same_flags a b \<Longrightarrow> same_flags b c \<Longrightarrow> same_flags a c"
  by (simp add: same_flags_def)

lemma run_monitored:
  assumes "run_iptables ipt c g = (status, g')"
  shows "same_flags g g' \<and> mine g' = mine_after (mine g) (c, status) \<and>
    (safe g' \<longleftrightarrow> safe g \<and> (destructive c \<longrightarrow> mine g))"
  using assms
  by (auto simp: run_iptables_def same_flags_def mine_def safe_def licensed_snoc split: prod.splits)

text \<open>What a step of the guard has to keep.\<close>

definition keeps :: "'w firewall_guard \<Rightarrow> 'w firewall_guard \<Rightarrow> bool" where
  "keeps g g' \<longleftrightarrow> same_flags g g' \<and> (safe g \<longrightarrow> safe g') \<and> mine g' = mine g"

lemma keeps_refl [simp]: "keeps g g"
  by (simp add: keeps_def)

lemma keeps_trans: "keeps a b \<Longrightarrow> keeps b c \<Longrightarrow> keeps a c"
  by (auto simp: keeps_def intro: same_flags_trans)

lemma jumps_keep:
  assumes "remove_managed_jumps ipt b g = Some (r, g')" "b \<noteq> CHAIN_NAME"
  shows "keeps g g'"
proof -
  have "b \<noteq> CHAIN_NAME \<longrightarrow> keeps g (snd rg)" if "remove_managed_jumps ipt b g = Some rg" for rg
  proof (rule remove_managed_jumps.raw_induct [OF _ that, where P = "\<lambda>ipt b g rg. b \<noteq> CHAIN_NAME \<longrightarrow> keeps g (snd rg)"],
      intro impI)
    fix loop :: "'w iptables \<Rightarrow> string \<Rightarrow> 'w firewall_guard \<Rightarrow> (bool \<times> 'w firewall_guard) option"
    fix ipt :: "'w iptables" and b and g :: "'w firewall_guard" and rg
    assume IH: "\<And>ipt b g rg. loop ipt b g = Some rg \<Longrightarrow> b \<noteq> CHAIN_NAME \<longrightarrow> keeps g (snd rg)"
      and b: "b \<noteq> CHAIN_NAME"
      and res: "(case run_iptables ipt (jump_rule ''-C'' b) g of
        (check_status, g1) \<Rightarrow>
          if check_status = 1 then Some (True, g1)
          else if check_status \<noteq> 0 then Some (False, g1)
          else case run_iptables ipt (jump_rule ''-D'' b) g1 of
            (delete_status, g2) \<Rightarrow>
              if delete_status \<noteq> 0 then Some (False, g2) else loop ipt b g2) = Some rg"
    obtain s1 g1 where 1: "run_iptables ipt (jump_rule ''-C'' b) g = (s1, g1)" by fastforce
    obtain s2 g2 where 2: "run_iptables ipt (jump_rule ''-D'' b) g1 = (s2, g2)" by fastforce
    have k: "keeps g g1" "keeps g1 g2"
      using run_monitored [OF 1] run_monitored [OF 2] b
      by (auto simp: keeps_def mine_after_def destructive_def)
    show "keeps g (snd rg)"
    proof (cases "s1 = 0 \<and> s2 = 0")
      case True
      then have "loop ipt b g2 = Some rg" using res by (simp add: 1 2)
      from IH [OF this] b have "keeps g2 (snd rg)" by blast
      with k show ?thesis by (blast intro: keeps_trans)
    next
      case False
      then show ?thesis using res k by (auto simp: 1 2 split: if_splits intro: keeps_trans)
    qed
  qed
  with assms show ?thesis by fastforce
qed

lemma erase_keeps:
  assumes "erase_chain ipt g = (r, g')" "mine g"
  shows "same_flags g g' \<and> (safe g \<longrightarrow> safe g') \<and> (\<not> r \<longrightarrow> mine g')"
proof -
  obtain s1 g1 where 1: "run_iptables ipt flush_chain g = (s1, g1)" by fastforce
  obtain s2 g2 where 2: "run_iptables ipt delete_chain g1 = (s2, g2)" by fastforce
  obtain s3 g3 where 3: "run_iptables ipt list_chain g2 = (s3, g3)" by fastforce
  obtain s4 g4 where 4: "run_iptables ipt (owner_rule ''-A'') g3 = (s4, g4)" by fastforce
  have m: "same_flags g g1" "mine g1" "safe g \<longrightarrow> safe g1"
    "same_flags g1 g2" "s2 \<noteq> 0 \<longrightarrow> mine g2" "safe g1 \<longrightarrow> safe g2"
    "same_flags g2 g3" "s3 \<noteq> 1 \<longrightarrow> mine g3 = mine g2" "safe g2 \<longrightarrow> safe g3"
    "same_flags g3 g4" "mine g4 = mine g3" "safe g3 \<longrightarrow> safe g4"
    using run_monitored [OF 1] run_monitored [OF 2] run_monitored [OF 3] run_monitored [OF 4] assms(2)
    by (auto simp: mine_after_def destructive_def)
  show ?thesis
    using assms(1) m
    by (auto simp: erase_chain_def restore_mark_def 1 2 3 4 split: if_splits intro: same_flags_trans)
qed

text \<open>The ways through \<open>remove_chain\<close>.\<close>

lemma remove_chain_cases:
  assumes "remove_chain ipt require g = Some (r, g')"
  obtains (listed) s where "run_iptables ipt list_chain g = (s, g')" "s \<noteq> 0" "r \<longleftrightarrow> s = 1"
  | (foreign) g1 where "run_iptables ipt list_chain g = (0, g1)" "is_owner ipt require g1 = (False, g')" "\<not> r"
  | (jump_in) g1 g2 where "run_iptables ipt list_chain g = (0, g1)" "is_owner ipt require g1 = (True, g2)"
      "remove_managed_jumps ipt ''INPUT'' g2 = Some (False, g')" "\<not> r"
  | (jump_out) g1 g2 g3 where "run_iptables ipt list_chain g = (0, g1)" "is_owner ipt require g1 = (True, g2)"
      "remove_managed_jumps ipt ''INPUT'' g2 = Some (True, g3)"
      "remove_managed_jumps ipt ''OUTPUT'' g3 = Some (False, g')" "\<not> r"
  | (erased) g1 g2 g3 g4 where "run_iptables ipt list_chain g = (0, g1)" "is_owner ipt require g1 = (True, g2)"
      "remove_managed_jumps ipt ''INPUT'' g2 = Some (True, g3)"
      "remove_managed_jumps ipt ''OUTPUT'' g3 = Some (True, g4)" "erase_chain ipt g4 = (r, g')"
proof -
  obtain s1 g1 where 1: "run_iptables ipt list_chain g = (s1, g1)" by fastforce
  obtain own g2 where 2: "is_owner ipt require g1 = (own, g2)" by fastforce
  consider "s1 \<noteq> 0" | "s1 = 0" "\<not> own" | "s1 = 0" own by blast
  then show thesis
  proof cases
    case 1
    with assms \<open>run_iptables ipt list_chain g = (s1, g1)\<close> show thesis
      by (intro listed [of s1]) (auto simp: remove_chain_def split: if_splits)
  next
    case b: 2
    with assms 1 2 show thesis by (intro foreign [of g1]) (auto simp: remove_chain_def)
  next
    case 3
    then obtain i g3 where i: "remove_managed_jumps ipt ''INPUT'' g2 = Some (i, g3)"
      using assms 1 2 by (auto simp: remove_chain_def split: option.splits)
    show thesis
    proof (cases i)
      case False
      with assms 1 2 3 i show thesis by (intro jump_in [of g1 g2]) (auto simp: remove_chain_def)
    next
      case True
      then obtain o' g4 where o': "remove_managed_jumps ipt ''OUTPUT'' g3 = Some (o', g4)"
        using assms 1 2 3 i by (auto simp: remove_chain_def split: option.splits)
      show thesis
      proof (cases o')
        case False
        with assms 1 2 3 i o' True show thesis by (intro jump_out [of g1 g2 g3]) (auto simp: remove_chain_def)
      next
        case o: True
        with assms 1 2 3 i o' True show thesis by (intro erased [of g1 g2 g3 g4]) (auto simp: remove_chain_def)
      qed
    qed
  qed
qed

lemma list_monitored:
  assumes "run_iptables ipt list_chain g = (s, g1)"
  shows "same_flags g g1" "safe g \<longrightarrow> safe g1" "s \<noteq> 1 \<longrightarrow> mine g1 = mine g"
  using run_monitored [OF assms] by (auto simp: mine_after_def destructive_def)

lemma owner_monitored:
  assumes "is_owner ipt require g1 = (own, g2)"
  shows "same_flags g1 g2" "safe g1 \<longrightarrow> safe g2" "require \<and> own \<longrightarrow> mine g2"
    "\<not> require \<longrightarrow> g2 = g1 \<and> own"
  using assms run_monitored [of ipt "owner_rule ''-C''" g1]
  by (auto simp: is_owner_def mine_after_def destructive_def split: if_splits prod.splits)

lemma remove_chain_keeps:
  assumes "remove_chain ipt require g = Some (r, g')" "\<not> require \<longrightarrow> mine g"
  shows "same_flags g g' \<and> (safe g \<longrightarrow> safe g') \<and> (\<not> r \<and> \<not> require \<longrightarrow> mine g')"
  using assms(1)
proof (cases rule: remove_chain_cases)
  case (listed s)
  with list_monitored [OF listed(1)] assms(2) show ?thesis by auto
next
  case (foreign g1)
  with list_monitored [OF foreign(1)] owner_monitored [OF foreign(2)] show ?thesis
    by (auto intro: same_flags_trans)
next
  case (jump_in g1 g2)
  have "keeps g2 g'" by (rule jumps_keep [OF jump_in(3)]) simp
  with list_monitored [OF jump_in(1)] owner_monitored [OF jump_in(2)] assms(2) show ?thesis
    by (auto simp: keeps_def intro: same_flags_trans)
next
  case (jump_out g1 g2 g3)
  have "keeps g2 g3" by (rule jumps_keep [OF jump_out(3)]) simp
  moreover have "keeps g3 g'" by (rule jumps_keep [OF jump_out(4)]) simp
  ultimately have "keeps g2 g'" by (rule keeps_trans)
  with list_monitored [OF jump_out(1)] owner_monitored [OF jump_out(2)] assms(2) show ?thesis
    by (auto simp: keeps_def intro: same_flags_trans)
next
  case (erased g1 g2 g3 g4)
  have "keeps g2 g3" by (rule jumps_keep [OF erased(3)]) simp
  moreover have "keeps g3 g4" by (rule jumps_keep [OF erased(4)]) simp
  ultimately have k: "keeps g2 g4" by (rule keeps_trans)
  have "mine g2"
    using list_monitored [OF erased(1)] owner_monitored [OF erased(2)] assms(2) by auto
  with k have m: "mine g4" by (simp add: keeps_def)
  have f: "same_flags g g4" "safe g \<longrightarrow> safe g4"
    using list_monitored [OF erased(1)] owner_monitored [OF erased(2)] k
    by (auto simp: keeps_def intro: same_flags_trans)
  with erase_keeps [OF erased(5) m] show ?thesis by (blast intro: same_flags_trans)
qed

section \<open>The chain is never touched unless it is the program's own\<close>

definition tracks :: "'w firewall_guard \<Rightarrow> bool" where
  "tracks g \<longleftrightarrow> safe g \<and> (fg_owns_chain g \<longrightarrow> mine g)"

lemma remove_current_tracks:
  assumes "remove_current_chain ipt g = Some (r, g')" "tracks g" "mine g"
  shows "tracks g' \<and> (r \<longrightarrow> \<not> fg_owns_chain g' \<and> \<not> fg_installed g') \<and>
    (\<not> r \<longrightarrow> same_flags g g') \<and> fg_queue_num g' = fg_queue_num g"
proof -
  obtain b h where h: "remove_chain ipt False g = Some (b, h)"
    using assms(1) by (auto simp: remove_current_chain_def split: option.splits)
  have "same_flags g h \<and> (safe g \<longrightarrow> safe h) \<and> (\<not> b \<longrightarrow> mine h)"
    using remove_chain_keeps [OF h] assms(3) by simp
  then show ?thesis using assms(1,2) h
    by (cases b) (auto simp: remove_current_chain_def tracks_def same_flags_def safe_def mine_def)
qed

lemma run_all_keeps:
  assumes "run_all ipt cs g = (r, g')" "list_all (\<lambda>c. \<not> destructive c \<and> (\<forall>s. mine_after True (c, s))) cs" "mine g" "safe g"
  shows "same_flags g g' \<and> mine g' \<and> safe g'"
  using assms
proof (induction cs arbitrary: g)
  case (Cons c cs)
  obtain s1 g1 where 1: "run_iptables ipt c g = (s1, g1)" by fastforce
  have m: "same_flags g g1" "mine g1" "safe g1" using run_monitored [OF 1] Cons.prems by auto
  show ?case
    using Cons.prems(1,2) m Cons.IH [of g1] same_flags_trans [OF m(1)]
    by (cases "s1 = 0") (auto simp: 1)
qed simp

lemma install_rules_tracks:
  assumes "install_rules ipt g = Some (r, g')" "safe g" "\<not> fg_owns_chain g" "\<not> fg_installed g"
  shows "tracks g' \<and> (r \<longleftrightarrow> fg_installed g') \<and> (fg_installed g' \<longrightarrow> fg_owns_chain g') \<and>
    fg_queue_num g' = fg_queue_num g"
proof -
  obtain s1 g1 where 1: "run_iptables ipt create_chain g = (s1, g1)" by fastforce
  let ?cs = "[queue_rule (fg_queue_num g1), owner_rule ''-A'', insert_jump ''INPUT'', insert_jump ''OUTPUT'']"
  obtain ok g2 where 2: "run_all ipt ?cs (g1\<lparr>fg_owns_chain := True\<rparr>) = (ok, g2)" by fastforce
  have m1: "same_flags g g1" "safe g1" "s1 = 0 \<longrightarrow> mine g1"
    using run_monitored [OF 1] assms(2) by (auto simp: mine_after_def destructive_def)
  have f1: "\<not> fg_owns_chain g1" "\<not> fg_installed g1" "fg_queue_num g1 = fg_queue_num g" using m1(1) assms(3,4) by (simp_all add: same_flags_def)
  show ?thesis
  proof (cases "s1 = 0")
    case False
    then show ?thesis using assms(1) m1 f1 by (auto simp: install_rules_def 1 tracks_def)
  next
    case True
    then have "mine (g1\<lparr>fg_owns_chain := True\<rparr>)" "safe (g1\<lparr>fg_owns_chain := True\<rparr>)"
      using m1 by (simp_all add: mine_def safe_def)
    from run_all_keeps [OF 2 _ this] have m2: "fg_owns_chain g2" "\<not> fg_installed g2" "mine g2" "safe g2" "fg_queue_num g2 = fg_queue_num g"
      using f1 by (auto simp: mine_after_def destructive_def same_flags_def)
    have res: "(if ok then Some (True, g2\<lparr>fg_installed := True\<rparr>) else rollback ipt g2) = Some (r, g')"
      using assms(1) True by (simp add: install_rules_def 1 2 del: run_all.simps)
    show ?thesis
    proof (cases ok)
      case True
      then show ?thesis using res m2 by (auto simp: tracks_def safe_def mine_def)
    next
      case False
      then obtain b where b: "remove_current_chain ipt g2 = Some (b, g')" "\<not> r"
        using res by (auto simp: rollback_def)
      have "tracks g2" using m2 by (simp add: tracks_def)
      from remove_current_tracks [OF b(1) this m2(3)] b(2) m2 show ?thesis
        by (cases b) (auto simp: same_flags_def)
    qed
  qed
qed

text \<open>The flags as the operations leave them: installed rules are owned.\<close>

definition flags_ok :: "'w firewall_guard \<Rightarrow> bool" where
  "flags_ok g \<longleftrightarrow> (fg_installed g \<longrightarrow> fg_owns_chain g)"

lemma install_tracks:
  assumes "install ipt g = Some (r, g')" "tracks g" "flags_ok g"
  shows "tracks g' \<and> flags_ok g' \<and> (r \<longleftrightarrow> fg_installed g') \<and> fg_queue_num g' = fg_queue_num g"
proof (cases "fg_installed g")
  case True
  then show ?thesis using assms by (auto simp: install_def)
next
  case False
  obtain clean g1 where 1: "(if fg_owns_chain g then remove_current_chain ipt g else Some (True, g)) = Some (clean, g1)"
    using assms(1) False by (auto simp: install_def split: option.splits)
  have m1: "tracks g1" "\<not> fg_installed g1" "clean \<longrightarrow> \<not> fg_owns_chain g1" "fg_queue_num g1 = fg_queue_num g"
    using 1 remove_current_tracks [of ipt g clean g1] assms(2) False
    by (auto simp: tracks_def same_flags_def split: if_splits)
  show ?thesis
  proof (cases clean)
    case False
    then show ?thesis using assms(1) 1 m1 \<open>\<not> fg_installed g\<close> by (auto simp: install_def flags_ok_def)
  next
    case True
    then obtain free g2 where 2: "remove_chain ipt True g1 = Some (free, g2)"
      using assms(1) 1 \<open>\<not> fg_installed g\<close> by (auto simp: install_def remove_owned_chain_def split: option.splits)
    have m2: "safe g2" "\<not> fg_owns_chain g2" "\<not> fg_installed g2" and q: "fg_queue_num g2 = fg_queue_num g"
      using remove_chain_keeps [OF 2] m1 True by (auto simp: tracks_def same_flags_def)
    show ?thesis
    proof (cases free)
      case False
      then show ?thesis using assms(1) 1 2 True m2 q \<open>\<not> fg_installed g\<close>
        by (auto simp: install_def remove_owned_chain_def tracks_def flags_ok_def)
    next
      case free: True
      then have "install_rules ipt g2 = Some (r, g')"
        using assms(1) 1 2 True \<open>\<not> fg_installed g\<close> by (simp add: install_def remove_owned_chain_def)
      from install_rules_tracks [OF this m2] q show ?thesis by (simp add: flags_ok_def)
    qed
  qed
qed

lemma uninstall_tracks:
  assumes "uninstall ipt g = Some (r, g')" "tracks g" "flags_ok g"
  shows "tracks g' \<and> flags_ok g' \<and> (r \<longleftrightarrow> \<not> fg_owns_chain g') \<and> fg_queue_num g' = fg_queue_num g"
  using assms remove_current_tracks [of ipt g r g']
  by (cases "fg_owns_chain g") (auto simp: uninstall_def tracks_def flags_ok_def same_flags_def)

lemma destroy_tracks:
  assumes "destroy ipt g = Some g'" "tracks g" "flags_ok g"
  shows "tracks g' \<and> flags_ok g' \<and> fg_queue_num g' = fg_queue_num g"
  using assms remove_current_tracks [of ipt g _ g']
  by (cases "fg_owns_chain g") (auto simp: destroy_def tracks_def flags_ok_def same_flags_def)

lemma guard_run_tracks:
  "guard_run ipt cs g = Some g' \<Longrightarrow> tracks g \<Longrightarrow> flags_ok g \<Longrightarrow>
    tracks g' \<and> flags_ok g' \<and> fg_queue_num g' = fg_queue_num g"
  by (induction ipt cs g rule: guard_run.induct)
    (auto split: option.splits dest: install_tracks uninstall_tracks destroy_tracks)

lemma tracks_new: "tracks (new_guard q w)" "flags_ok (new_guard q w)"
  by (simp_all add: new_guard_def tracks_def flags_ok_def safe_def mine_def)

lemma licensed_append:
  "licensed m (pre @ e # post) \<Longrightarrow> destructive (fst e) \<Longrightarrow> foldl mine_after m pre"
  by (induction pre arbitrary: m) auto

text \<open>C14. Whatever \<open>iptables\<close> answers, and in whatever order the guard is installed, uninstalled and
  destroyed, the chain is flushed or deleted only while it is known to be the program's own: it was
  created before, or its mark was found, and it was neither deleted nor found absent since. The flags
  say the same: rules that are installed are owned.\<close>

theorem foreign_chain_never_erased:
  assumes "guard_run ipt calls (new_guard q w) = Some g"
    and "fg_commands g = pre @ (c, status) # post"
    and "c \<in> {flush_chain, delete_chain}"
  shows "foldl mine_after False pre \<and> (fg_installed g \<longrightarrow> fg_owns_chain g)"
proof -
  have "tracks g \<and> flags_ok g" using guard_run_tracks [OF assms(1) tracks_new] by simp
  moreover from this have "licensed False (pre @ (c, status) # post)"
    using assms(2) by (simp add: tracks_def safe_def)
  ultimately show ?thesis
    using licensed_append [of False pre "(c, status)" post] assms(3)
    by (auto simp: destructive_def flags_ok_def)
qed

section \<open>The packet filter\<close>

text \<open>The part of the filter table the guard works on: its own chain, if it exists, and the two built-in
  chains. Rules of others are told apart by a text.\<close>

datatype filter_rule = Jump | Queue_bypass u16 | Owner_return | Foreign string

record filter_table =
  ft_chain :: "filter_rule list option"
  ft_input :: "filter_rule list"
  ft_output :: "filter_rule list"

definition outcome :: "'w iptables \<Rightarrow> string list \<Rightarrow> 'w \<Rightarrow> int" where
  "outcome ipt c w = exit_status (fst (ipt (IPTABLES_PATH # ''-w'' # c) w))"

definition world_after :: "'w iptables \<Rightarrow> string list \<Rightarrow> 'w \<Rightarrow> 'w" where
  "world_after ipt c w = snd (ipt (IPTABLES_PATH # ''-w'' # c) w)"

text \<open>A built-in chain of the table by its name, and the table with that chain changed.\<close>

definition builtin :: "string \<Rightarrow> filter_table \<Rightarrow> filter_rule list" where
  "builtin b t = (if b = ''INPUT'' then ft_input t else ft_output t)"

definition set_builtin :: "string \<Rightarrow> filter_rule list \<Rightarrow> filter_table \<Rightarrow> filter_table" where
  "set_builtin b rs t = (if b = ''INPUT'' then t\<lparr>ft_input := rs\<rparr> else t\<lparr>ft_output := rs\<rparr>)"

text \<open>
  What the manual says of the commands. Listing and checking change nothing; status 0 means that the
  chain or rule is there and 1 that it is not. A command that changes the table does what it says
  when its status is 0. When it fails, a command on a built-in chain changes nothing, and a command
  on the program's chain changes at most that chain.
\<close>

definition reads_ok :: "'w iptables \<Rightarrow> ('w \<Rightarrow> filter_table) \<Rightarrow> bool" where
  "reads_ok ipt tb \<longleftrightarrow>
     (\<forall>w. tb (world_after ipt list_chain w) = tb w \<and>
        (outcome ipt list_chain w = 0 \<longrightarrow> ft_chain (tb w) \<noteq> None) \<and>
        (outcome ipt list_chain w = 1 \<longrightarrow> ft_chain (tb w) = None)) \<and>
     (\<forall>w. tb (world_after ipt (owner_rule ''-C'') w) = tb w \<and>
        (outcome ipt (owner_rule ''-C'') w = 0 \<longrightarrow> (\<exists>rs. ft_chain (tb w) = Some rs \<and> Owner_return \<in> set rs))) \<and>
     (\<forall>w. \<forall>b \<in> {''INPUT'', ''OUTPUT''}. tb (world_after ipt (jump_rule ''-C'' b) w) = tb w \<and>
        (outcome ipt (jump_rule ''-C'' b) w = 0 \<longrightarrow> Jump \<in> set (builtin b (tb w))) \<and>
        (outcome ipt (jump_rule ''-C'' b) w = 1 \<longrightarrow> Jump \<notin> set (builtin b (tb w))))"

definition builtin_writes_ok :: "'w iptables \<Rightarrow> ('w \<Rightarrow> filter_table) \<Rightarrow> bool" where
  "builtin_writes_ok ipt tb \<longleftrightarrow>
     (\<forall>w. \<forall>b \<in> {''INPUT'', ''OUTPUT''}.
        tb (world_after ipt (jump_rule ''-D'' b) w) =
          (if outcome ipt (jump_rule ''-D'' b) w = 0 then set_builtin b (remove1 Jump (builtin b (tb w))) (tb w)
           else tb w) \<and>
        tb (world_after ipt (insert_jump b) w) =
          (if outcome ipt (insert_jump b) w = 0 then set_builtin b (Jump # builtin b (tb w)) (tb w) else tb w))"

definition chain_write_ok ::
    "'w iptables \<Rightarrow> ('w \<Rightarrow> filter_table) \<Rightarrow> string list \<Rightarrow>
     (filter_rule list option \<Rightarrow> filter_rule list option) \<Rightarrow> bool" where
  "chain_write_ok ipt tb c f \<longleftrightarrow>
     (\<forall>w. ft_input (tb (world_after ipt c w)) = ft_input (tb w) \<and>
        ft_output (tb (world_after ipt c w)) = ft_output (tb w) \<and>
        (outcome ipt c w = 0 \<longrightarrow> ft_chain (tb (world_after ipt c w)) = f (ft_chain (tb w))))"

definition iptables_ok :: "'w iptables \<Rightarrow> ('w \<Rightarrow> filter_table) \<Rightarrow> bool" where
  "iptables_ok ipt tb \<longleftrightarrow> reads_ok ipt tb \<and> builtin_writes_ok ipt tb \<and>
     chain_write_ok ipt tb flush_chain (map_option (\<lambda>rs. [])) \<and>
     chain_write_ok ipt tb delete_chain (\<lambda>rs. None) \<and>
     chain_write_ok ipt tb create_chain (\<lambda>rs. Some []) \<and>
     chain_write_ok ipt tb (owner_rule ''-A'') (map_option (\<lambda>rs. rs @ [Owner_return])) \<and>
     (\<forall>q. chain_write_ok ipt tb (queue_rule q) (map_option (\<lambda>rs. rs @ [Queue_bypass q])))"

text \<open>An \<open>iptables\<close> whose world is the table.\<close>

definition table_iptables :: "filter_table iptables" where
  "table_iptables argv t =
     (let c = drop 2 argv;
          give = (\<lambda>b t. (Exited (if b then 0 else 1), t));
          has_chain = (ft_chain t \<noteq> None) in
      if c = list_chain then give has_chain t
      else if c = owner_rule ''-C'' then
        give (case ft_chain t of None \<Rightarrow> False | Some rs \<Rightarrow> Owner_return \<in> set rs) t
      else if c = flush_chain then give has_chain (t\<lparr>ft_chain := map_option (\<lambda>rs. []) (ft_chain t)\<rparr>)
      else if c = delete_chain then
        (if ft_chain t = Some [] \<and> Jump \<notin> set (ft_input t) \<and> Jump \<notin> set (ft_output t)
         then give True (t\<lparr>ft_chain := None\<rparr>) else give False t)
      else if c = create_chain then (if has_chain then give False t else give True (t\<lparr>ft_chain := Some []\<rparr>))
      else if c = owner_rule ''-A'' then give has_chain (t\<lparr>ft_chain := map_option (\<lambda>rs. rs @ [Owner_return]) (ft_chain t)\<rparr>)
      else if hd c = ''-C'' then give (Jump \<in> set (builtin (c ! 1) t)) t
      else if hd c = ''-D'' then
        give (Jump \<in> set (builtin (c ! 1) t)) (set_builtin (c ! 1) (remove1 Jump (builtin (c ! 1) t)) t)
      else if hd c = ''-I'' then
        (if has_chain then give True (set_builtin (c ! 1) (Jump # builtin (c ! 1) t) t) else give False t)
      else give has_chain (t\<lparr>ft_chain :=
        map_option (\<lambda>rs. rs @ [Queue_bypass (of_nat (nat_of_string (c ! 5)))]) (ft_chain t)\<rparr>))"

lemma hd_commands [simp]:
  "hd (jump_rule op b) = op" "jump_rule op b ! Suc 0 = b" "hd (insert_jump b) = ''-I''" "insert_jump b ! Suc 0 = b"
  "hd (queue_rule q) = ''-A''" "queue_rule q ! 5 = string_of_nat (unat q)"
  by (simp_all add: jump_rule_def insert_jump_def queue_rule_def)

lemma table_iptables_ok: "iptables_ok table_iptables id"
proof -
  have "reads_ok table_iptables id"
    by (auto simp: reads_ok_def outcome_def world_after_def table_iptables_def exit_status_def Let_def
        split: option.splits)
  moreover have "builtin_writes_ok table_iptables id"
    by (auto simp: builtin_writes_ok_def outcome_def world_after_def table_iptables_def exit_status_def Let_def
        set_builtin_def builtin_def remove1_idem)
  moreover have "chain_write_ok table_iptables id flush_chain (map_option (\<lambda>rs. []))"
    "chain_write_ok table_iptables id delete_chain (\<lambda>rs. None)"
    "chain_write_ok table_iptables id create_chain (\<lambda>rs. Some [])"
    "chain_write_ok table_iptables id (owner_rule ''-A'') (map_option (\<lambda>rs. rs @ [Owner_return]))"
    "chain_write_ok table_iptables id (queue_rule q) (map_option (\<lambda>rs. rs @ [Queue_bypass q]))" for q
    by (auto simp: chain_write_ok_def outcome_def world_after_def table_iptables_def exit_status_def Let_def)
  ultimately show ?thesis by (simp add: iptables_ok_def)
qed

text \<open>The rules that are not the guard's jumps.\<close>

definition foreign :: "filter_rule list \<Rightarrow> filter_rule list" where
  "foreign rs = filter (\<lambda>r. r \<noteq> Jump) rs"

lemma foreign_simps [simp]:
  "foreign (Jump # rs) = foreign rs" "foreign (remove1 Jump rs) = foreign rs" "foreign (foreign rs) = foreign rs"
  by (simp_all add: foreign_def filter_remove1)

lemma foreign_set: "set (foreign rs) = set rs - {Jump}"
  by (auto simp: foreign_def)

lemma foreign_id: "Jump \<notin> set rs \<Longrightarrow> foreign rs = rs"
  by (auto simp: foreign_def filter_id_conv)

lemma builtin_set [simp]:
  "builtin b (set_builtin b rs t) = rs" "set_builtin b rs (set_builtin b rs' t) = set_builtin b rs t"
  "set_builtin b (builtin b t) t = t" "ft_chain (set_builtin b rs t) = ft_chain t"
  by (simp_all add: builtin_def set_builtin_def)

lemma run_world:
  assumes "run_iptables ipt c g = (s, g')"
  shows "s = outcome ipt c (fg_world g)" "fg_world g' = world_after ipt c (fg_world g)"
  using assms by (auto simp: run_iptables_def outcome_def world_after_def split: prod.splits)

lemma count_list_remove1: "count_list (remove1 x xs) x = count_list xs x - 1"
  by (induction xs) auto

text \<open>A guard that has run more commands, none of which creates the chain, with the flags it had.\<close>

definition appends :: "'w firewall_guard \<Rightarrow> 'w firewall_guard \<Rightarrow> bool" where
  "appends g g' \<longleftrightarrow> same_flags g g' \<and> (\<exists>es. fg_commands g' = fg_commands g @ es \<and> create_chain \<notin> fst ` set es)"

lemma appends_refl [simp]: "appends g g"
  by (simp add: appends_def)

lemma appends_trans: "appends a b \<Longrightarrow> appends b c \<Longrightarrow> appends a c"
  unfolding appends_def using same_flags_trans [of a b c] by (elim exE conjE) auto

lemma appends_run: "run_iptables ipt c g = (s, g') \<Longrightarrow> c \<noteq> create_chain \<Longrightarrow> appends g g'"
  by (auto simp: run_iptables_def appends_def same_flags_def split: prod.splits)

lemma appends_owner: "is_owner ipt require g = (own, g') \<Longrightarrow> appends g g'"
  by (auto simp: is_owner_def intro: appends_run split: if_splits prod.splits)

lemma appends_erase:
  assumes "erase_chain ipt g = (r, g')"
  shows "appends g g'"
proof -
  obtain s1 g1 where 1: "run_iptables ipt flush_chain g = (s1, g1)" by fastforce
  obtain s2 g2 where 2: "run_iptables ipt delete_chain g1 = (s2, g2)" by fastforce
  obtain s3 g3 where 3: "run_iptables ipt list_chain g2 = (s3, g3)" by fastforce
  obtain s4 g4 where 4: "run_iptables ipt (owner_rule ''-A'') g3 = (s4, g4)" by fastforce
  have "appends g g1" "appends g1 g2" "appends g2 g3" "appends g3 g4"
    using appends_run [OF 1] appends_run [OF 2] appends_run [OF 3] appends_run [OF 4] by simp_all
  with assms show ?thesis
    by (auto simp: erase_chain_def restore_mark_def 1 2 3 4 split: if_splits intro: appends_trans)
qed

definition table_of :: "('w \<Rightarrow> filter_table) \<Rightarrow> 'w firewall_guard \<Rightarrow> filter_table" where
  "table_of tb g = tb (fg_world g)"

text \<open>What removing the chain does to the table: rules of others stay as they are, in order; when it
  succeeds the chain and the jumps to it are gone; an absent chain is left at that.\<close>

definition removal :: "bool \<Rightarrow> filter_table \<Rightarrow> filter_table \<Rightarrow> bool" where
  "removal r t t' \<longleftrightarrow>
     foreign (ft_input t') = foreign (ft_input t) \<and> foreign (ft_output t') = foreign (ft_output t) \<and>
     set (ft_input t') \<subseteq> set (ft_input t) \<and> set (ft_output t') \<subseteq> set (ft_output t) \<and>
     (r \<longrightarrow> ft_chain t' = None \<and>
        (if ft_chain t = None then t' = t
         else ft_input t' = foreign (ft_input t) \<and> ft_output t' = foreign (ft_output t)))"

text \<open>An installation that fails: the rules of others are as they were, and either the guard still owns
  a chain \<open>iptables\<close> refused to remove, or no jump was added and a chain that was created is gone.\<close>

definition failed_installation ::
    "'w iptables \<Rightarrow> ('w \<Rightarrow> filter_table) \<Rightarrow> 'w firewall_guard \<Rightarrow> 'w firewall_guard \<Rightarrow> bool" where
  "failed_installation ipt tb g g' \<longleftrightarrow>
     foreign (ft_input (table_of tb g')) = foreign (ft_input (table_of tb g)) \<and>
     foreign (ft_output (table_of tb g')) = foreign (ft_output (table_of tb g)) \<and>
     (if fg_owns_chain g'
      then \<exists>h. (\<exists>es. fg_commands h = fg_commands g @ es) \<and> remove_current_chain ipt h = Some (False, g')
      else set (ft_input (table_of tb g')) \<subseteq> set (ft_input (table_of tb g)) \<and>
        set (ft_output (table_of tb g')) \<subseteq> set (ft_output (table_of tb g)) \<and>
        (\<exists>es. fg_commands g' = fg_commands g @ es \<and>
           ((create_chain, 0) \<in> set es \<longrightarrow> ft_chain (table_of tb g') = None)))"

text \<open>The contract between the guard and the packet filter.\<close>

locale packet_filter =
  fixes ipt :: "'w iptables" and tb :: "'w \<Rightarrow> filter_table"
  assumes ok: "iptables_ok ipt tb"
begin

lemma list_table:
  assumes "run_iptables ipt list_chain g = (s, g')"
  shows "table_of tb g' = table_of tb g" "s = 0 \<Longrightarrow> ft_chain (table_of tb g) \<noteq> None" "s = 1 \<Longrightarrow> ft_chain (table_of tb g) = None"
  using ok run_world [OF assms] by (auto simp: iptables_ok_def reads_ok_def table_of_def)

lemma owner_table:
  assumes "is_owner ipt require g = (own, g')"
  shows "table_of tb g' = table_of tb g"
    "own \<Longrightarrow> require \<Longrightarrow> \<exists>rs. ft_chain (table_of tb g) = Some rs \<and> Owner_return \<in> set rs"
    "\<not> require \<Longrightarrow> own"
  using assms ok run_world [of ipt "owner_rule ''-C''" g]
  by (auto simp: is_owner_def iptables_ok_def reads_ok_def table_of_def split: if_splits prod.splits)

lemma check_table:
  assumes "run_iptables ipt (jump_rule ''-C'' b) g = (s, g')" "b \<in> {''INPUT'', ''OUTPUT''}"
  shows "table_of tb g' = table_of tb g" "s = 0 \<Longrightarrow> Jump \<in> set (builtin b (table_of tb g))"
    "s = 1 \<Longrightarrow> Jump \<notin> set (builtin b (table_of tb g))"
  using ok run_world [OF assms(1)] assms(2) by (auto simp: iptables_ok_def reads_ok_def table_of_def)

lemma delete_table:
  assumes "run_iptables ipt (jump_rule ''-D'' b) g = (s, g')" "b \<in> {''INPUT'', ''OUTPUT''}"
  shows "table_of tb g' = (if s = 0 then set_builtin b (remove1 Jump (builtin b (table_of tb g))) (table_of tb g) else table_of tb g)"
  using ok run_world [OF assms(1)] assms(2) by (auto simp: iptables_ok_def builtin_writes_ok_def table_of_def)

lemma insert_table:
  assumes "run_iptables ipt (insert_jump b) g = (s, g')" "b \<in> {''INPUT'', ''OUTPUT''}"
  shows "table_of tb g' = (if s = 0 then set_builtin b (Jump # builtin b (table_of tb g)) (table_of tb g) else table_of tb g)"
  using ok run_world [OF assms(1)] assms(2) by (auto simp: iptables_ok_def builtin_writes_ok_def table_of_def)

lemma write_table:
  assumes "run_iptables ipt c g = (s, g')" "chain_write_ok ipt tb c f"
  shows "ft_input (table_of tb g') = ft_input (table_of tb g)" "ft_output (table_of tb g') = ft_output (table_of tb g)"
    "s = 0 \<Longrightarrow> ft_chain (table_of tb g') = f (ft_chain (table_of tb g))"
  using run_world [OF assms(1)] assms(2) by (auto simp: chain_write_ok_def table_of_def)

lemma writes:
  "chain_write_ok ipt tb flush_chain (map_option (\<lambda>rs. []))"
  "chain_write_ok ipt tb delete_chain (\<lambda>rs. None)"
  "chain_write_ok ipt tb create_chain (\<lambda>rs. Some [])"
  "chain_write_ok ipt tb (owner_rule ''-A'') (map_option (\<lambda>rs. rs @ [Owner_return]))"
  "chain_write_ok ipt tb (queue_rule q) (map_option (\<lambda>rs. rs @ [Queue_bypass q]))"
  using ok by (simp_all add: iptables_ok_def)

text \<open>The loop ends, because every turn removes a jump, and removes nothing else.\<close>

lemma jumps_table:
  assumes "b \<in> {''INPUT'', ''OUTPUT''}"
  shows "\<exists>r g'. remove_managed_jumps ipt b g = Some (r, g') \<and> appends g g' \<and>
    (\<exists>rs. table_of tb g' = set_builtin b rs (table_of tb g) \<and> foreign rs = foreign (builtin b (table_of tb g)) \<and>
       set rs \<subseteq> set (builtin b (table_of tb g)) \<and> (r \<longrightarrow> Jump \<notin> set rs))"
proof (induction "count_list (builtin b (table_of tb g)) Jump" arbitrary: g rule: less_induct)
  case less
  obtain s1 g1 where 1: "run_iptables ipt (jump_rule ''-C'' b) g = (s1, g1)" by fastforce
  obtain s2 g2 where 2: "run_iptables ipt (jump_rule ''-D'' b) g1 = (s2, g2)" by fastforce
  note t1 = check_table [OF 1 assms] and t2 = delete_table [OF 2 assms]
  have l: "appends g g1" "appends g g2" using appends_run [OF 1] appends_run [OF 2] by (auto intro: appends_trans)
  show ?case
  proof (cases "s1 = 0 \<and> s2 = 0")
    case True
    then have j: "Jump \<in> set (builtin b (table_of tb g))" using t1 by simp
    have t: "table_of tb g2 = set_builtin b (remove1 Jump (builtin b (table_of tb g))) (table_of tb g)" using t1 t2 True by simp
    have "count_list (builtin b (table_of tb g2)) Jump < count_list (builtin b (table_of tb g)) Jump"
      using j count_list_0_iff [of "builtin b (table_of tb g)" Jump]
      unfolding t by (simp add: count_list_remove1)
    from less [OF this] obtain r g' rs where
      "remove_managed_jumps ipt b g2 = Some (r, g')" "appends g2 g'" "table_of tb g' = set_builtin b rs (table_of tb g2)"
      "set rs \<subseteq> set (builtin b (table_of tb g2))" "foreign rs = foreign (builtin b (table_of tb g2))" "r \<longrightarrow> Jump \<notin> set rs" by blast
    moreover have "set (remove1 Jump xs) \<subseteq> set xs" for xs by (rule set_remove1_subset)
    ultimately show ?thesis
      using True l(2) by (subst remove_managed_jumps.simps) (auto simp: 1 2 t intro: appends_trans)
  next
    case False
    then have "\<exists>g'. remove_managed_jumps ipt b g = Some (s1 = 1, g') \<and> appends g g' \<and> table_of tb g' = table_of tb g"
      using t1 t2 l by (subst remove_managed_jumps.simps) (auto simp: 1 2)
    then show ?thesis using t1(3)
      by (auto intro!: exI [where x = "builtin b (table_of tb g)"])
  qed
qed

lemma erase_table:
  assumes "erase_chain ipt g = (r, g')"
  shows "ft_input (table_of tb g') = ft_input (table_of tb g) \<and>
    ft_output (table_of tb g') = ft_output (table_of tb g) \<and> (r \<longrightarrow> ft_chain (table_of tb g') = None)"
proof -
  obtain s1 g1 where 1: "run_iptables ipt flush_chain g = (s1, g1)" by fastforce
  obtain s2 g2 where 2: "run_iptables ipt delete_chain g1 = (s2, g2)" by fastforce
  obtain s3 g3 where 3: "run_iptables ipt list_chain g2 = (s3, g3)" by fastforce
  obtain s4 g4 where 4: "run_iptables ipt (owner_rule ''-A'') g3 = (s4, g4)" by fastforce
  note t = write_table [OF 1 writes(1)] write_table [OF 2 writes(2)] list_table [OF 3]
    write_table [OF 4 writes(4)]
  show ?thesis
    using assms t by (auto simp: erase_chain_def restore_mark_def 1 2 3 4 split: if_splits)
qed

lemma removal_same: "\<not> r \<Longrightarrow> removal r t t"
  by (simp add: removal_def)

lemma remove_chain_table:
  assumes "remove_chain ipt require g = Some (r, g')"
  shows "removal r (table_of tb g) (table_of tb g') \<and>
    (require \<and> (\<exists>rs. ft_chain (table_of tb g) = Some rs \<and> Owner_return \<notin> set rs) \<longrightarrow>
       \<not> r \<and> table_of tb g' = table_of tb g)"
  using assms
proof (cases rule: remove_chain_cases)
  case (listed s)
  with list_table [OF listed(1)] show ?thesis by (auto simp: removal_def)
next
  case (foreign g1)
  with list_table [OF foreign(1)] owner_table [OF foreign(2)] show ?thesis by (auto simp: removal_def)
next
  case (jump_in g1 g2)
  have own: "\<not> (require \<and> (\<exists>rs. ft_chain (table_of tb g) = Some rs \<and> Owner_return \<notin> set rs))"
    and t2: "table_of tb g2 = table_of tb g"
    using list_table [OF jump_in(1)] owner_table [OF jump_in(2)] by auto
  obtain rs where "table_of tb g' = set_builtin ''INPUT'' rs (table_of tb g2)"
    "foreign rs = foreign (ft_input (table_of tb g2))" "set rs \<subseteq> set (ft_input (table_of tb g2))"
    using jumps_table [of "''INPUT''" g2] jump_in(3) by (auto simp: builtin_def)
  with own t2 jump_in(4) show ?thesis by (auto simp: removal_def set_builtin_def)
next
  case (jump_out g1 g2 g3)
  have own: "\<not> (require \<and> (\<exists>rs. ft_chain (table_of tb g) = Some rs \<and> Owner_return \<notin> set rs))"
    and t2: "table_of tb g2 = table_of tb g"
    using list_table [OF jump_out(1)] owner_table [OF jump_out(2)] by auto
  obtain rs rs' where "table_of tb g3 = set_builtin ''INPUT'' rs (table_of tb g2)"
    "foreign rs = foreign (ft_input (table_of tb g2))"
    "table_of tb g' = set_builtin ''OUTPUT'' rs' (table_of tb g3)"
    "foreign rs' = foreign (ft_output (table_of tb g3))" "set rs \<subseteq> set (ft_input (table_of tb g2))"
    "set rs' \<subseteq> set (ft_output (table_of tb g3))"
    using jumps_table [of "''INPUT''" g2] jump_out(3) jumps_table [of "''OUTPUT''" g3] jump_out(4)
    by (auto simp: builtin_def)
  with own t2 jump_out(5) show ?thesis by (auto simp: removal_def set_builtin_def)
next
  case (erased g1 g2 g3 g4)
  have own: "\<not> (require \<and> (\<exists>rs. ft_chain (table_of tb g) = Some rs \<and> Owner_return \<notin> set rs))"
    and t2: "table_of tb g2 = table_of tb g" and chain: "ft_chain (table_of tb g) \<noteq> None"
    using list_table [OF erased(1)] owner_table [OF erased(2)] by auto
  obtain rs rs' where rs: "table_of tb g3 = set_builtin ''INPUT'' rs (table_of tb g2)"
    "foreign rs = foreign (ft_input (table_of tb g2))" "Jump \<notin> set rs"
    "table_of tb g4 = set_builtin ''OUTPUT'' rs' (table_of tb g3)"
    "foreign rs' = foreign (ft_output (table_of tb g3))" "Jump \<notin> set rs'"
    using jumps_table [of "''INPUT''" g2] erased(3) jumps_table [of "''OUTPUT''" g3] erased(4)
    by (auto simp: builtin_def)
  have "ft_input (table_of tb g4) = foreign (ft_input (table_of tb g))"
    "ft_output (table_of tb g4) = foreign (ft_output (table_of tb g))"
    using rs t2 foreign_id [OF rs(3)] foreign_id [OF rs(6)] by (auto simp: set_builtin_def)
  with erase_table [OF erased(5)] own chain show ?thesis by (auto simp: removal_def foreign_set)
qed

lemma remove_chain_appends:
  assumes "remove_chain ipt require g = Some (r, g')"
  shows "appends g g'"
proof -
  have jumps: "appends h h'" if "remove_managed_jumps ipt b h = Some (r', h')" "b \<in> {''INPUT'', ''OUTPUT''}" for b h r' h'
    using jumps_table [OF that(2), of h] that(1) by auto
  have listed: "appends h h'" if "run_iptables ipt list_chain h = (s, h')" for s h h'
    using appends_run [OF that] by simp
  from assms show ?thesis
  proof (cases rule: remove_chain_cases)
    case (listed s)
    then show ?thesis using \<open>\<And>s h h'. run_iptables ipt list_chain h = (s, h') \<Longrightarrow> appends h h'\<close> by simp
  next
    case (foreign g1)
    from appends_trans [OF listed [OF foreign(1)] appends_owner [OF foreign(2)]] show ?thesis .
  next
    case (jump_in g1 g2)
    from appends_trans [OF listed [OF jump_in(1)] appends_trans [OF appends_owner [OF jump_in(2)] jumps [OF jump_in(3)]]]
    show ?thesis by simp
  next
    case (jump_out g1 g2 g3)
    from appends_trans [OF listed [OF jump_out(1)] appends_trans [OF appends_owner [OF jump_out(2)]
      appends_trans [OF jumps [OF jump_out(3)] jumps [OF jump_out(4)]]]]
    show ?thesis by simp
  next
    case (erased g1 g2 g3 g4)
    from appends_trans [OF listed [OF erased(1)] appends_trans [OF appends_owner [OF erased(2)]
      appends_trans [OF jumps [OF erased(3)] appends_trans [OF jumps [OF erased(4)] appends_erase [OF erased(5)]]]]]
    show ?thesis by simp
  qed
qed

text \<open>Removing always ends.\<close>

lemma remove_chain_ends: "\<exists>r g'. remove_chain ipt require g = Some (r, g')"
proof -
  have ends: "\<exists>r g'. remove_managed_jumps ipt b g = Some (r, g')" if "b \<in> {''INPUT'', ''OUTPUT''}" for b g
    using jumps_table [OF that, of g] by blast
  have out: "\<exists>r g'. (case remove_managed_jumps ipt ''OUTPUT'' g of None \<Rightarrow> None
      | Some (o', g) \<Rightarrow> if \<not> o' then Some (False, g) else Some (erase_chain ipt g)) = Some (r, g')" for g
    using ends [of "''OUTPUT''" g] by (auto split: prod.split)
  have inp: "\<exists>r g'. (case remove_managed_jumps ipt ''INPUT'' g of None \<Rightarrow> None
      | Some (i, g) \<Rightarrow> if \<not> i then Some (False, g)
        else case remove_managed_jumps ipt ''OUTPUT'' g of None \<Rightarrow> None
        | Some (o', g) \<Rightarrow> if \<not> o' then Some (False, g) else Some (erase_chain ipt g)) = Some (r, g')" for g
    using ends [of "''INPUT''" g] out by (auto split: prod.split)
  obtain s1 g1 where 1: "run_iptables ipt list_chain g = (s1, g1)" by fastforce
  obtain own g2 where 2: "is_owner ipt require g1 = (own, g2)" by fastforce
  show ?thesis using inp [of g2] unfolding remove_chain_def by (auto simp: 1 2)
qed

lemma remove_current_ends: "\<exists>r g'. remove_current_chain ipt g = Some (r, g')"
  using remove_chain_ends [of False g] by (auto simp: remove_current_chain_def)

lemma install_rules_ends: "\<exists>r g'. install_rules ipt g = Some (r, g')"
proof -
  obtain s1 g1 where 1: "run_iptables ipt create_chain g = (s1, g1)" by fastforce
  obtain ok g2 where 2: "run_all ipt [queue_rule (fg_queue_num g1), owner_rule ''-A'', insert_jump ''INPUT'',
    insert_jump ''OUTPUT''] (g1\<lparr>fg_owns_chain := True\<rparr>) = (ok, g2)" by fastforce
  show ?thesis using remove_current_ends [of g2]
    by (auto simp: install_rules_def 1 2 rollback_def simp del: run_all.simps)
qed

lemma install_ends: "\<exists>r g'. install ipt g = Some (r, g')"
proof -
  have "\<exists>r g'. (case remove_chain ipt True g of None \<Rightarrow> None
      | Some (free, g) \<Rightarrow> if \<not> free then Some (False, g) else install_rules ipt g) = Some (r, g')" for g
    using remove_chain_ends [of True g] install_rules_ends by (auto split: prod.split)
  then show ?thesis using remove_current_ends [of g]
    by (auto simp: install_def remove_owned_chain_def)
qed

lemma guard_run_ends: "\<exists>g'. guard_run ipt cs g = Some g'"
proof (induction cs arbitrary: g)
  case (Cons c cs)
  show ?case
  proof (cases c)
    case Install
    then show ?thesis using install_ends [of g] Cons.IH by auto
  next
    case Uninstall
    then show ?thesis using remove_current_ends [of g] Cons.IH by (auto simp: uninstall_def)
  next
    case Destroy
    then show ?thesis using remove_current_ends [of g] Cons.IH by (auto simp: destroy_def)
  qed
qed simp

text \<open>The rules the guard installs.\<close>

lemma run_all_Cons_True:
  "run_all ipt (c # cs) g = (True, g') \<longleftrightarrow>
     (\<exists>g1. run_iptables ipt c g = (0, g1) \<and> run_all ipt cs g1 = (True, g'))"
  by (cases "run_iptables ipt c g") auto

lemma install_rules_table:
  assumes "install_rules ipt g = Some (True, g')"
  shows "ft_chain (table_of tb g') = Some [Queue_bypass (fg_queue_num g), Owner_return] \<and>
    ft_input (table_of tb g') = Jump # ft_input (table_of tb g) \<and>
    ft_output (table_of tb g') = Jump # ft_output (table_of tb g)"
proof -
  obtain s1 g1 where 1: "run_iptables ipt create_chain g = (s1, g1)" by fastforce
  let ?g = "g1\<lparr>fg_owns_chain := True\<rparr>"
  obtain ok g5 where 2: "run_all ipt [queue_rule (fg_queue_num g1), owner_rule ''-A'', insert_jump ''INPUT'',
    insert_jump ''OUTPUT''] ?g = (ok, g5)" by fastforce
  have s1: "s1 = 0" using assms by (simp add: install_rules_def 1 split: if_splits)
  have "(if ok then Some (True, g5\<lparr>fg_installed := True\<rparr>) else rollback ipt g5) = Some (True, g')"
    using assms s1 by (simp add: install_rules_def 1 2 del: run_all.simps)
  then have ok: ok and g': "g' = g5\<lparr>fg_installed := True\<rparr>"
    by (auto simp: rollback_def split: if_splits)
  from 2 ok obtain g2 g3 g4 where r: "run_iptables ipt (queue_rule (fg_queue_num g1)) ?g = (0, g2)"
    "run_iptables ipt (owner_rule ''-A'') g2 = (0, g3)"
    "run_iptables ipt (insert_jump ''INPUT'') g3 = (0, g4)"
    "run_iptables ipt (insert_jump ''OUTPUT'') g4 = (0, g5)"
    by (auto simp: run_all_Cons_True simp del: run_all.simps(2))
  have q: "fg_queue_num g1 = fg_queue_num g" using run_monitored [OF 1] by (simp add: same_flags_def)
  have same: "table_of tb ?g = table_of tb g1" "table_of tb g' = table_of tb g5"
    by (simp_all add: table_of_def g')
  show ?thesis
    using write_table [OF 1 writes(3)] write_table [OF r(1) writes(5)] write_table [OF r(2) writes(4)]
      insert_table [OF r(3)] insert_table [OF r(4)] s1 q same
    by (simp add: builtin_def set_builtin_def)
qed

lemma remove_current_table:
  assumes "remove_current_chain ipt g = Some (r, g')"
  shows "removal r (table_of tb g) (table_of tb g')"
proof -
  obtain b h where h: "remove_chain ipt False g = Some (b, h)"
    using assms by (auto simp: remove_current_chain_def split: option.splits)
  have "removal b (table_of tb g) (table_of tb h)" using remove_chain_table [OF h] by simp
  with assms h show ?thesis
    by (cases b) (auto simp: remove_current_chain_def table_of_def)
qed

lemma failed_after_log:
  assumes "failed_installation ipt tb g1 g'" "removal r (table_of tb g) (table_of tb g1)"
    "\<exists>es. fg_commands g1 = fg_commands g @ es \<and> create_chain \<notin> fst ` set es"
  shows "failed_installation ipt tb g g'"
proof -
  obtain cs where cs: "fg_commands g1 = fg_commands g @ cs" "create_chain \<notin> fst ` set cs"
    using assms(3) by blast
  then have no: "(create_chain, 0) \<notin> set cs" by (metis fst_conv imageI)
  show ?thesis
  proof (cases "fg_owns_chain g'")
    case True
    then obtain h es where h: "fg_commands h = fg_commands g1 @ es" "remove_current_chain ipt h = Some (False, g')"
      using assms(1) by (auto simp: failed_installation_def)
    have "fg_commands h = fg_commands g @ (cs @ es)" using h(1) cs(1) by simp
    with h(2) True assms(1,2) show ?thesis unfolding failed_installation_def removal_def by auto
  next
    case False
    then obtain es where es: "fg_commands g' = fg_commands g1 @ es"
      "(create_chain, 0) \<in> set es \<longrightarrow> ft_chain (table_of tb g') = None"
      using assms(1) by (auto simp: failed_installation_def)
    have "\<exists>es. fg_commands g' = fg_commands g @ es \<and> ((create_chain, 0) \<in> set es \<longrightarrow> ft_chain (table_of tb g') = None)"
      by (rule exI [where x = "cs @ es"]) (use es cs(1) no in auto)
    with False assms(1,2) show ?thesis unfolding failed_installation_def removal_def by auto
  qed
qed

lemma failed_after:
  "failed_installation ipt tb g1 g' \<Longrightarrow> removal r (table_of tb g) (table_of tb g1) \<Longrightarrow> appends g g1 \<Longrightarrow>
    failed_installation ipt tb g g'"
  by (rule failed_after_log) (auto simp: appends_def)

text \<open>The four rules touch only the program's chain and the jumps to it.\<close>

lemma run_all_foreign:
  assumes "run_all ipt cs g = (r, g')"
    and "\<forall>c \<in> set cs. (\<exists>f. chain_write_ok ipt tb c f) \<or> c = insert_jump ''INPUT'' \<or> c = insert_jump ''OUTPUT''"
  shows "foreign (ft_input (table_of tb g')) = foreign (ft_input (table_of tb g)) \<and>
    foreign (ft_output (table_of tb g')) = foreign (ft_output (table_of tb g)) \<and>
    fg_owns_chain g' = fg_owns_chain g \<and> (\<exists>es. fg_commands g' = fg_commands g @ es)"
  using assms
proof (induction cs arbitrary: g)
  case (Cons c cs)
  obtain s g1 where 1: "run_iptables ipt c g = (s, g1)" by fastforce
  have "foreign (ft_input (table_of tb g1)) = foreign (ft_input (table_of tb g)) \<and>
      foreign (ft_output (table_of tb g1)) = foreign (ft_output (table_of tb g))"
    using Cons.prems(2) write_table [OF 1] insert_table [of "''INPUT''" g s g1] insert_table [of "''OUTPUT''" g s g1] 1
    by (auto simp: set_builtin_def builtin_def)
  moreover have "fg_commands g1 = fg_commands g @ [(c, s)]" "fg_owns_chain g1 = fg_owns_chain g"
    using 1 by (auto simp: run_iptables_def split: prod.splits)
  ultimately show ?case using Cons.prems Cons.IH [of g1] by (cases "s = 0") (auto simp: 1)
qed simp

lemma remove_current_result:
  assumes "remove_current_chain ipt g = Some (r, g')" "fg_owns_chain g"
  shows "(r \<longleftrightarrow> \<not> fg_owns_chain g') \<and> (\<exists>es. fg_commands g' = fg_commands g @ es \<and> create_chain \<notin> fst ` set es)"
proof -
  obtain b h where h: "remove_chain ipt False g = Some (b, h)"
    using assms(1) by (auto simp: remove_current_chain_def split: option.splits)
  from remove_chain_appends [OF this] assms h show ?thesis
    by (cases b) (auto simp: remove_current_chain_def appends_def same_flags_def)
qed

lemma removal_gone:
  "removal True t t' \<Longrightarrow> ft_chain t' = None \<and>
    (ft_chain t \<noteq> None \<longrightarrow> ft_input t' = foreign (ft_input t) \<and> ft_output t' = foreign (ft_output t))"
  by (auto simp: removal_def)

text \<open>When a jump was added before a rule failed, the chain is there.\<close>

lemma run_all_jumps:
  assumes "run_all ipt [queue_rule q, owner_rule ''-A'', insert_jump ''INPUT'', insert_jump ''OUTPUT''] g = (r, g')"
    and "ft_chain (table_of tb g) \<noteq> None"
  shows "ft_chain (table_of tb g') \<noteq> None \<or>
    ft_input (table_of tb g') = ft_input (table_of tb g) \<and> ft_output (table_of tb g') = ft_output (table_of tb g)"
proof -
  obtain s1 g1 where 1: "run_iptables ipt (queue_rule q) g = (s1, g1)" by fastforce
  obtain s2 g2 where 2: "run_iptables ipt (owner_rule ''-A'') g1 = (s2, g2)" by fastforce
  obtain s3 g3 where 3: "run_iptables ipt (insert_jump ''INPUT'') g2 = (s3, g3)" by fastforce
  obtain s4 g4 where 4: "run_iptables ipt (insert_jump ''OUTPUT'') g3 = (s4, g4)" by fastforce
  have g': "g' = (if s1 \<noteq> 0 then g1 else if s2 \<noteq> 0 then g2 else if s3 \<noteq> 0 then g3 else g4)"
    using assms(1) by (auto simp: 1 2 3 4 split: if_splits)
  show ?thesis
    unfolding g' using write_table [OF 1 writes(5)] write_table [OF 2 writes(4)] insert_table [OF 3] insert_table [OF 4] assms(2)
    by auto
qed

lemma install_rules_failed:
  assumes "install_rules ipt g = Some (False, g')" "\<not> fg_owns_chain g"
  shows "failed_installation ipt tb g g'"
proof -
  obtain s1 g1 where 1: "run_iptables ipt create_chain g = (s1, g1)" by fastforce
  let ?g = "g1\<lparr>fg_owns_chain := True\<rparr>"
  let ?cs = "[queue_rule (fg_queue_num g1), owner_rule ''-A'', insert_jump ''INPUT'', insert_jump ''OUTPUT'']"
  obtain fine g2 where 2: "run_all ipt ?cs ?g = (fine, g2)" by fastforce
  note w = write_table [OF 1 writes(3)]
  have log: "fg_commands g1 = fg_commands g @ [(create_chain, s1)]" and own: "\<not> fg_owns_chain g1"
    using 1 assms(2) by (auto simp: run_iptables_def split: prod.splits)
  show ?thesis
  proof (cases "s1 = 0")
    case False
    then have "g' = g1" using assms(1) by (simp add: install_rules_def 1)
    with False w log own show ?thesis by (simp add: failed_installation_def)
  next
    case True
    then obtain b where rm: "remove_current_chain ipt g2 = Some (b, g')"
      using assms(1) by (auto simp: install_rules_def 1 2 rollback_def simp del: run_all.simps split: if_splits)
    have f: "foreign (ft_input (table_of tb g2)) = foreign (ft_input (table_of tb g))"
        "foreign (ft_output (table_of tb g2)) = foreign (ft_output (table_of tb g))" "fg_owns_chain g2"
        "\<exists>es. fg_commands g2 = fg_commands g1 @ es"
      using run_all_foreign [OF 2] writes(4,5) w by (auto simp: table_of_def)
    have r: "removal b (table_of tb g2) (table_of tb g')" by (rule remove_current_table [OF rm])
    have chain: "ft_chain (table_of tb g2) \<noteq> None \<or> ft_input (table_of tb g2) = ft_input (table_of tb g) \<and>
        ft_output (table_of tb g2) = ft_output (table_of tb g)"
      using run_all_jumps [OF 2] w True by (simp add: table_of_def)
    have same: "foreign (ft_input (table_of tb g')) = foreign (ft_input (table_of tb g))"
        "foreign (ft_output (table_of tb g')) = foreign (ft_output (table_of tb g))"
      using r f(1,2) by (simp_all add: removal_def)
    obtain es where e1: "fg_commands g2 = fg_commands g @ (create_chain, s1) # es" using f(4) log by auto
    obtain es' where e2: "fg_commands g' = fg_commands g2 @ es'" using remove_current_result [OF rm f(3)] by blast
    note es = e1 e2
    show ?thesis
    proof (cases b)
      case False
      then have "fg_owns_chain g'" using remove_current_result [OF rm f(3)] by simp
      with same es(1) rm False show ?thesis by (auto simp: failed_installation_def)
    next
      case True
      then have gone: "\<not> fg_owns_chain g'" "ft_chain (table_of tb g') = None"
        using remove_current_result [OF rm f(3)] r by (simp_all add: removal_def)
      have "set (ft_input (table_of tb g')) \<subseteq> set (ft_input (table_of tb g)) \<and>
          set (ft_output (table_of tb g')) \<subseteq> set (ft_output (table_of tb g))"
      proof (cases "ft_chain (table_of tb g2) = None")
        case none: True
        with r chain show ?thesis by (simp add: removal_def)
      next
        case False
        then have "ft_input (table_of tb g') = foreign (ft_input (table_of tb g2))"
          "ft_output (table_of tb g') = foreign (ft_output (table_of tb g2))"
          using removal_gone r True by auto
        with f(1,2) show ?thesis by (auto simp: foreign_set)
      qed
      with same gone es show ?thesis by (simp add: failed_installation_def)
    qed
  qed
qed

lemma install_failed:
  assumes "install ipt g = Some (False, g')" "\<not> fg_installed g"
  shows "failed_installation ipt tb g g'"
proof -
  obtain clean g1 where 1: "(if fg_owns_chain g then remove_current_chain ipt g else Some (True, g)) = Some (clean, g1)"
    using assms by (auto simp: install_def split: option.splits)
  have r1: "removal clean (table_of tb g) (table_of tb g1) \<or> g1 = g"
    using 1 remove_current_table [of g clean g1] by (auto split: if_splits)
  have a1: "\<exists>es. fg_commands g1 = fg_commands g @ es \<and> create_chain \<notin> fst ` set es" "clean \<longleftrightarrow> \<not> fg_owns_chain g1"
    using 1 remove_current_result [of g clean g1] by (auto split: if_splits intro: exI [where x = "[]"])
  show ?thesis
  proof (cases clean)
    case False
    then have "g' = g1" "fg_owns_chain g" using assms 1 by (auto simp: install_def split: if_splits)
    with 1 False a1(2) r1 show ?thesis
      by (auto simp: failed_installation_def removal_def intro!: exI [where x = g] exI [where x = "[]"])
  next
    case True
    then obtain free g2 where 2: "remove_chain ipt True g1 = Some (free, g2)"
      using assms 1 by (auto simp: install_def remove_owned_chain_def split: option.splits)
    have r2: "removal free (table_of tb g1) (table_of tb g2)" using remove_chain_table [OF 2] by simp
    have a2: "appends g1 g2" by (rule remove_chain_appends [OF 2])
    then have own2: "\<not> fg_owns_chain g2" using a1(2) True by (simp add: appends_def same_flags_def)
    have "failed_installation ipt tb g2 g'"
    proof (cases free)
      case False
      then have "g' = g2" using assms 1 2 True by (simp add: install_def remove_owned_chain_def)
      with own2 show ?thesis by (simp add: failed_installation_def)
    next
      case free: True
      then have "install_rules ipt g2 = Some (False, g')"
        using assms 1 2 True by (simp add: install_def remove_owned_chain_def)
      then show ?thesis by (rule install_rules_failed [OF _ own2])
    qed
    from failed_after [OF this r2 a2] have f1: "failed_installation ipt tb g1 g'" .
    show ?thesis
    proof (cases "g1 = g")
      case False
      then have "removal clean (table_of tb g) (table_of tb g1)" using r1 by simp
      from failed_after_log [OF f1 this a1(1)] show ?thesis .
    qed (use f1 in simp)
  qed
qed

lemma install_table:
  assumes "install ipt g = Some (True, g')" "\<not> fg_installed g" "tracks g" "flags_ok g"
  shows "\<exists>ins outs. table_of tb g' = (table_of tb g)
      \<lparr>ft_chain := Some [Queue_bypass (fg_queue_num g), Owner_return], ft_input := Jump # ins, ft_output := Jump # outs\<rparr> \<and>
    (if ft_chain (table_of tb g) = None then ins = ft_input (table_of tb g) \<and> outs = ft_output (table_of tb g)
     else ins = foreign (ft_input (table_of tb g)) \<and> outs = foreign (ft_output (table_of tb g)))"
proof -
  obtain g1 where 1: "(if fg_owns_chain g then remove_current_chain ipt g else Some (True, g)) = Some (True, g1)"
    using assms(1,2) by (auto simp: install_def split: option.splits if_splits)
  obtain g2 where 2: "remove_chain ipt True g1 = Some (True, g2)" and 3: "install_rules ipt g2 = Some (True, g')"
    using assms(1,2) 1 by (auto simp: install_def remove_owned_chain_def split: option.splits if_splits)
  have r1: "if fg_owns_chain g then removal True (table_of tb g) (table_of tb g1) else g1 = g"
    using 1 remove_current_table [of g True g1] by (auto split: if_splits)
  have r2: "removal True (table_of tb g1) (table_of tb g2)" using remove_chain_table [OF 2] by simp
  have q: "fg_queue_num g2 = fg_queue_num g"
    using 1 remove_current_tracks [of ipt g True g1] remove_chain_keeps [OF 2] assms(3)
    by (auto simp: tracks_def same_flags_def split: if_splits)
  have fields: "t' = t\<lparr>ft_chain := ft_chain t', ft_input := ft_input t', ft_output := ft_output t'\<rparr>"
    for t t' :: filter_table by simp
  show ?thesis
    using r1 r2 install_rules_table [OF 3] q
    by (subst fields [of "table_of tb g'" "table_of tb g"])
      (auto simp: removal_def split: if_splits)
qed

end

section \<open>Installing, uninstalling, refusing\<close>

text \<open>C27. An installation is all or nothing. A successful one leaves exactly the program's chain, which
  queues the packets to the configured queue and lets them pass when nobody reads it, and is marked as
  the program's own; the jumps to it stand before all other rules of both built-in chains, exactly
  once; the rules of others are what they were. A failed one leaves the rules of others as they were,
  too, and nothing installed: no jump is there that was not there before, and a chain it created is
  gone again; unless \<open>iptables\<close> refused to remove the chain, which the guard then still owns.\<close>

theorem install_exact:
  assumes "iptables_ok ipt tb"
    and "guard_run ipt calls (new_guard q w) = Some g"
    and "\<not> fg_installed g"
    and "install ipt g = Some (success, g')"
  shows "if success
    then fg_installed g' \<and> fg_owns_chain g' \<and>
      (\<exists>ins outs. tb (fg_world g') = (tb (fg_world g))
        \<lparr>ft_chain := Some [Queue_bypass q, Owner_return], ft_input := Jump # ins, ft_output := Jump # outs\<rparr> \<and>
      (if ft_chain (tb (fg_world g)) = None
       then ins = ft_input (tb (fg_world g)) \<and> outs = ft_output (tb (fg_world g))
       else ins = filter (\<lambda>r. r \<noteq> Jump) (ft_input (tb (fg_world g))) \<and>
         outs = filter (\<lambda>r. r \<noteq> Jump) (ft_output (tb (fg_world g)))))
    else \<not> fg_installed g' \<and>
      filter (\<lambda>r. r \<noteq> Jump) (ft_input (tb (fg_world g'))) = filter (\<lambda>r. r \<noteq> Jump) (ft_input (tb (fg_world g))) \<and>
      filter (\<lambda>r. r \<noteq> Jump) (ft_output (tb (fg_world g'))) = filter (\<lambda>r. r \<noteq> Jump) (ft_output (tb (fg_world g))) \<and>
      (if fg_owns_chain g'
       then \<exists>h. (\<exists>es. fg_commands h = fg_commands g @ es) \<and> remove_current_chain ipt h = Some (False, g')
       else (Jump \<in> set (ft_input (tb (fg_world g'))) \<longrightarrow> Jump \<in> set (ft_input (tb (fg_world g)))) \<and>
         (Jump \<in> set (ft_output (tb (fg_world g'))) \<longrightarrow> Jump \<in> set (ft_output (tb (fg_world g)))) \<and>
         (\<exists>es. fg_commands g' = fg_commands g @ es \<and>
            ((create_chain, 0) \<in> set es \<longrightarrow> ft_chain (tb (fg_world g')) = None)))"
proof -
  have g: "tracks g" "flags_ok g" "fg_queue_num g = q"
    using guard_run_tracks [OF assms(2) tracks_new] by (simp_all add: new_guard_def)
  have pf: "packet_filter ipt tb" by (rule packet_filter.intro) (rule assms(1))
  note kept = install_tracks [OF assms(4) g(1,2)]
  show ?thesis
  proof (cases success)
    case True
    with assms(4) have "install ipt g = Some (True, g')" by simp
    from packet_filter.install_table [OF pf this assms(3) g(1,2)] kept g(3) True show ?thesis
      unfolding table_of_def foreign_def by (auto simp: flags_ok_def)
  next
    case False
    with assms(4) have "install ipt g = Some (False, g')" by simp
    from packet_filter.install_failed [OF pf this assms(3)] kept False show ?thesis
      unfolding failed_installation_def table_of_def foreign_def by (auto simp: subset_iff)
  qed
qed

lemma installed_uninstalled:
  assumes "iptables_ok ipt tb"
    and "guard_run ipt calls (new_guard q w) = Some g"
    and "\<not> fg_installed g"
    and "install ipt g = Some (True, g1)"
    and "uninstall ipt g1 = Some (True, g2)"
  shows "\<not> fg_owns_chain g2 \<and> \<not> fg_installed g2 \<and>
    tb (fg_world g2) = (tb (fg_world g))
      \<lparr>ft_chain := None, ft_input := filter (\<lambda>r. r \<noteq> Jump) (ft_input (tb (fg_world g))),
       ft_output := filter (\<lambda>r. r \<noteq> Jump) (ft_output (tb (fg_world g)))\<rparr>"
proof -
  have g: "tracks g" "flags_ok g"
    using guard_run_tracks [OF assms(2) tracks_new] by simp_all
  have g1: "tracks g1" "flags_ok g1" "fg_owns_chain g1"
    using install_tracks [OF assms(4) g] by (auto simp: flags_ok_def)
  have rm: "remove_current_chain ipt g1 = Some (True, g2)" using assms(5) g1(3) by (simp add: uninstall_def)
  have mine: "mine g1" using g1 by (simp add: tracks_def)
  have pf: "packet_filter ipt tb" by (rule packet_filter.intro) (rule assms(1))
  obtain ins outs where t1: "table_of tb g1 = (table_of tb g)
      \<lparr>ft_chain := Some [Queue_bypass (fg_queue_num g), Owner_return], ft_input := Jump # ins, ft_output := Jump # outs\<rparr>"
    "foreign ins = foreign (ft_input (table_of tb g))" "foreign outs = foreign (ft_output (table_of tb g))"
    using packet_filter.install_table [OF pf assms(4,3) g] by (auto split: if_splits)
  have "removal True (table_of tb g1) (table_of tb g2)" 
    using packet_filter.remove_current_table [OF pf rm] .
  then have "ft_chain (table_of tb g2) = None" "ft_input (table_of tb g2) = foreign (ft_input (table_of tb g))"
    "ft_output (table_of tb g2) = foreign (ft_output (table_of tb g))"
    using t1 by (simp_all add: removal_def)
  then show ?thesis using remove_current_tracks [OF rm g1(1) mine]
    by (simp add: table_of_def foreign_def)
qed

text \<open>C26. Uninstalling what was installed leaves the packet filter without the chain and without jumps to
  it, and otherwise as it was before the installation.\<close>

theorem uninstall_restores:
  assumes "iptables_ok ipt tb"
    and "guard_run ipt calls (new_guard q w) = Some g"
    and "\<not> fg_installed g"
    and "install ipt g = Some (True, g1)"
    and "uninstall ipt g1 = Some (True, g2)"
  shows "\<not> fg_owns_chain g2 \<and> \<not> fg_installed g2 \<and>
    tb (fg_world g2) = (tb (fg_world g))
      \<lparr>ft_chain := None, ft_input := filter (\<lambda>r. r \<noteq> Jump) (ft_input (tb (fg_world g))),
       ft_output := filter (\<lambda>r. r \<noteq> Jump) (ft_output (tb (fg_world g)))\<rparr>"
  by (rule installed_uninstalled [OF assms])

text \<open>A chain of that name without the mark of the owner belongs to somebody else: the installation
  is refused, and the packet filter and the guard stay as they are.\<close>

theorem foreign_chain_refused:
  assumes "iptables_ok ipt tb"
    and "guard_run ipt calls (new_guard q w) = Some g"
    and "\<not> fg_owns_chain g"
    and "ft_chain (tb (fg_world g)) = Some rs" and "Owner_return \<notin> set rs"
  shows "\<exists>g'. install ipt g = Some (False, g') \<and> tb (fg_world g') = tb (fg_world g) \<and>
    \<not> fg_owns_chain g' \<and> \<not> fg_installed g'"
proof -
  have g: "tracks g" "flags_ok g" "\<not> fg_installed g"
    using guard_run_tracks [OF assms(2) tracks_new] assms(3) by (auto simp: flags_ok_def)
  have pf: "packet_filter ipt tb" by (rule packet_filter.intro) (rule assms(1))
  obtain r g' where rm: "remove_chain ipt True g = Some (r, g')"
    using packet_filter.remove_chain_ends [OF pf] by blast
  have "\<not> r \<and> table_of tb g' = table_of tb g"
    using packet_filter.remove_chain_table [OF pf rm] assms(4,5) by (simp add: table_of_def)
  moreover have "same_flags g g'" using remove_chain_keeps [OF rm] by simp
  ultimately show ?thesis using rm g(3) assms(3)
    by (simp add: install_def remove_owned_chain_def table_of_def same_flags_def)
qed

text \<open>No call of the guard hangs: with an \<open>iptables\<close> that does what its manual says, the loop that
  removes jumps runs out of jumps.\<close>

theorem guard_calls_end:
  assumes "iptables_ok ipt tb"
  shows "\<exists>g. guard_run ipt calls (new_guard q w) = Some g"
proof -
  have "packet_filter ipt tb" by (rule packet_filter.intro) (rule assms)
  then show ?thesis by (rule packet_filter.guard_run_ends)
qed

interpretation sample_filter: packet_filter table_iptables id
  by (rule packet_filter.intro) (rule table_iptables_ok)

text \<open>A table with a rule of somebody else, and what the guard makes of it.\<close>

definition sample_table :: filter_table where
  "sample_table = \<lparr>ft_chain = None, ft_input = [Foreign ''-p icmp -j ACCEPT''], ft_output = []\<rparr>"

lemma sample_run:
  "run_iptables table_iptables c g =
     (let r = table_iptables (IPTABLES_PATH # ''-w'' # c) (fg_world g) in
      (exit_status (fst r), g\<lparr>fg_world := snd r, fg_commands := fg_commands g @ [(c, exit_status (fst r))]\<rparr>))"
  by (simp add: run_iptables_def Let_def split: prod.split)

lemma sample_install:
  "\<exists>g'. install table_iptables (new_guard 5 sample_table) = Some (True, g') \<and>
     fg_world g' = sample_table\<lparr>ft_chain := Some [Queue_bypass 5, Owner_return],
       ft_input := [Jump, Foreign ''-p icmp -j ACCEPT''], ft_output := [Jump]\<rparr> \<and>
     (\<exists>g2. uninstall table_iptables g' = Some (True, g2) \<and> (flush_chain, 0) \<in> set (fg_commands g2))"
  by (simp add: install_def new_guard_def remove_owned_chain_def remove_chain_def install_rules_def sample_run
      table_iptables_def Let_def exit_status_def sample_table_def builtin_def set_builtin_def
      uninstall_def remove_current_chain_def is_owner_def erase_chain_def remove_managed_jumps.simps)

lemma sample_guard: "guard_run ipt [] (new_guard q w) = Some (new_guard q w)" "\<not> fg_installed (new_guard q w)"
  "\<not> fg_owns_chain (new_guard q w)" "fg_world (new_guard q w) = w"
  by (simp_all add: new_guard_def)

theorem foreign_chain_never_erased_witness:
  "\<exists>g pre post. guard_run table_iptables [Install, Uninstall] (new_guard 5 sample_table) = Some g \<and>
     fg_commands g = pre @ (flush_chain, 0) # post \<and> foldl mine_after False pre"
proof -
  obtain g1 g2 where "install table_iptables (new_guard 5 sample_table) = Some (True, g1)"
    "uninstall table_iptables g1 = Some (True, g2)" "(flush_chain, 0) \<in> set (fg_commands g2)"
    using sample_install by blast
  then have run: "guard_run table_iptables [Install, Uninstall] (new_guard 5 sample_table) = Some g2"
    and "(flush_chain, 0) \<in> set (fg_commands g2)" by simp_all
  from split_list [OF this(2)] obtain pre post where split: "fg_commands g2 = pre @ (flush_chain, 0) # post" by blast
  have "flush_chain \<in> {flush_chain, delete_chain}" by simp
  from foreign_chain_never_erased [OF run split this] run split show ?thesis by blast
qed

text \<open>An \<open>iptables\<close> that adds no rule to the built-in chain for what is sent: the jump of the other one, the
  chain and its rules are taken back.\<close>

definition half_iptables :: "filter_table iptables" where
  "half_iptables argv t =
     (if drop 2 argv = insert_jump ''OUTPUT'' then (Exited 4, t) else table_iptables argv t)"

lemma not_insert_jump [simp]:
  "list_chain \<noteq> insert_jump b" "flush_chain \<noteq> insert_jump b" "delete_chain \<noteq> insert_jump b" "create_chain \<noteq> insert_jump b"
  "owner_rule op \<noteq> insert_jump b" "queue_rule q \<noteq> insert_jump b"
  "jump_rule ''-C'' b' \<noteq> insert_jump b" "jump_rule ''-D'' b' \<noteq> insert_jump b"
  "insert_jump ''INPUT'' \<noteq> insert_jump ''OUTPUT''"
  by (simp_all add: command_defs)

lemma half_other:
  assumes "c \<noteq> insert_jump ''OUTPUT''"
  shows "outcome half_iptables c w = outcome table_iptables c w" "world_after half_iptables c w = world_after table_iptables c w"
    "chain_write_ok half_iptables id c f \<longleftrightarrow> chain_write_ok table_iptables id c f"
  using assms by (simp_all add: outcome_def world_after_def half_iptables_def chain_write_ok_def)

lemma half_refuses:
  "outcome half_iptables (insert_jump ''OUTPUT'') w = 4" "world_after half_iptables (insert_jump ''OUTPUT'') w = w"
  by (simp_all add: outcome_def world_after_def half_iptables_def exit_status_def)

lemma half_iptables_ok: "iptables_ok half_iptables id"
proof -
  have "reads_ok half_iptables id \<longleftrightarrow> reads_ok table_iptables id"
    by (simp add: reads_ok_def half_other)
  moreover have "builtin_writes_ok table_iptables id \<Longrightarrow> builtin_writes_ok half_iptables id"
    unfolding builtin_writes_ok_def by (simp add: half_other half_refuses)
  ultimately show ?thesis using table_iptables_ok by (simp add: iptables_ok_def half_other)
qed

lemma half_install:
  "\<exists>g'. install half_iptables (new_guard 5 sample_table) = Some (False, g') \<and> fg_world g' = sample_table \<and>
     \<not> fg_owns_chain g' \<and> (create_chain, 0) \<in> set (fg_commands g')"
  by (simp add: install_def new_guard_def remove_owned_chain_def remove_chain_def install_rules_def rollback_def
      run_iptables_def half_iptables_def table_iptables_def Let_def exit_status_def sample_table_def builtin_def set_builtin_def
      remove_current_chain_def is_owner_def erase_chain_def remove_managed_jumps.simps)

theorem install_exact_witness:
  "(\<exists>g'. install table_iptables (new_guard 5 sample_table) = Some (True, g') \<and> fg_owns_chain g' \<and>
      (\<exists>ins. ft_input (fg_world g') = Jump # ins)) \<and>
   (\<exists>g'. install half_iptables (new_guard 5 sample_table) = Some (False, g') \<and> \<not> fg_owns_chain g' \<and>
      (create_chain, 0) \<in> set (fg_commands g') \<and> ft_chain (fg_world g') = None)"
proof
  obtain g1 where i: "install table_iptables (new_guard 5 sample_table) = Some (True, g1)"
    using sample_install by blast
  from install_exact [OF table_iptables_ok sample_guard(1,2) i] obtain ins outs where
    "fg_owns_chain g1" "id (fg_world g1) = (id (fg_world (new_guard 5 sample_table)))
      \<lparr>ft_chain := Some [Queue_bypass 5, Owner_return], ft_input := Jump # ins, ft_output := Jump # outs\<rparr>" by auto
  with i show "\<exists>g'. install table_iptables (new_guard 5 sample_table) = Some (True, g') \<and> fg_owns_chain g' \<and>
      (\<exists>ins. ft_input (fg_world g') = Jump # ins)" by simp
next
  obtain g1 where i: "install half_iptables (new_guard 5 sample_table) = Some (False, g1)" "\<not> fg_owns_chain g1"
    "(create_chain, 0) \<in> set (fg_commands g1)"
    using half_install by blast
  moreover have "fg_commands (new_guard 5 sample_table) = []" by (simp add: new_guard_def)
  ultimately have "ft_chain (fg_world g1) = None"
    using install_exact [OF half_iptables_ok sample_guard(1,2) i(1)] by auto
  with i show "\<exists>g'. install half_iptables (new_guard 5 sample_table) = Some (False, g') \<and> \<not> fg_owns_chain g' \<and>
      (create_chain, 0) \<in> set (fg_commands g') \<and> ft_chain (fg_world g') = None" by blast
qed

theorem uninstall_restores_witness:
  "\<exists>g1 g2. install table_iptables (new_guard 5 sample_table) = Some (True, g1) \<and>
     uninstall table_iptables g1 = Some (True, g2) \<and> fg_world g2 = sample_table"
proof -
  obtain g1 g2 where i: "install table_iptables (new_guard 5 sample_table) = Some (True, g1)"
    and u: "uninstall table_iptables g1 = Some (True, g2)" using sample_install by blast
  have "id (fg_world g2) = sample_table"
    using uninstall_restores [OF table_iptables_ok sample_guard(1,2) i u]
    by (simp add: sample_guard sample_table_def)
  with i u show ?thesis by simp
qed

theorem foreign_chain_refused_witness:
  "\<exists>g'. install table_iptables (new_guard 5 (sample_table\<lparr>ft_chain := Some [Foreign ''-j DROP'']\<rparr>)) = Some (False, g') \<and>
     fg_world g' = sample_table\<lparr>ft_chain := Some [Foreign ''-j DROP'']\<rparr>"
proof -
  let ?t = "sample_table\<lparr>ft_chain := Some [Foreign ''-j DROP'']\<rparr>"
  have "ft_chain (id (fg_world (new_guard 5 ?t))) = Some [Foreign ''-j DROP'']" "Owner_return \<notin> set [Foreign ''-j DROP'']"
    by (simp_all add: sample_guard)
  from foreign_chain_refused [OF table_iptables_ok sample_guard(1,3) this] show ?thesis
    by (auto simp: sample_guard)
qed

theorem guard_calls_end_witness:
  "\<exists>g. guard_run table_iptables [Install, Destroy, Install, Uninstall] (new_guard 0 sample_table) = Some g"
  by (rule guard_calls_end [OF table_iptables_ok])

end
