(* ===== verification/Five_Tuple.thy ===== *)
theory Five_Tuple
  imports Ips_Prelude
begin

text \<open>
  common/five_tuple.h and common/five_tuple.cpp: the flow key, its reversal, its equality, its hash
  and its text. Addresses are the 32 bits as they lie in memory (network byte order read by a
  little-endian host), ports are in host order. The conversion \<open>inet_ntop\<close> of the C library is a
  parameter.
\<close>

section \<open>The flow key\<close>

record five_tuple =
  src_ip :: u32
  dst_ip :: u32
  src_port :: u16
  dst_port :: u16
  protocol :: u8

abbreviation mk_tuple :: "u32 \<Rightarrow> u32 \<Rightarrow> u16 \<Rightarrow> u16 \<Rightarrow> u8 \<Rightarrow> five_tuple" where
  "mk_tuple sip dip sport dport proto \<equiv>
     \<lparr>src_ip = sip, dst_ip = dip, src_port = sport, dst_port = dport, protocol = proto\<rparr>"

definition five_tuple_eq :: "five_tuple \<Rightarrow> five_tuple \<Rightarrow> bool" where
  "five_tuple_eq a b \<longleftrightarrow>
     src_ip a = src_ip b \<and> dst_ip a = dst_ip b \<and> src_port a = src_port b \<and>
     dst_port a = dst_port b \<and> protocol a = protocol b"

definition reversed :: "five_tuple \<Rightarrow> five_tuple" where
  "reversed t = mk_tuple (dst_ip t) (src_ip t) (dst_port t) (src_port t) (protocol t)"

text \<open>
  \<open>std::hash<uint32_t>\<close> is the identity in libstdc++; the arithmetic on \<open>size_t\<close> wraps at 64 bits.
\<close>

definition hash_u32 :: "u32 \<Rightarrow> u64" where
  "hash_u32 x = ucast x"

definition five_tuple_hash :: "five_tuple \<Rightarrow> u64" where
  "five_tuple_hash t =
     (let h = hash_u32 (src_ip t);
          h = h * 31 + hash_u32 (dst_ip t);
          h = h * 31 + ucast (src_port t);
          h = h * 31 + ucast (dst_port t);
          h = h * 31 + ucast (protocol t)
      in h)"

lemma five_tuple_eq_iff [simp]: "five_tuple_eq a b \<longleftrightarrow> a = b"
  by (cases a; cases b) (auto simp: five_tuple_eq_def)

lemma reversed_sel [simp]:
  "src_ip (reversed t) = dst_ip t"
  "dst_ip (reversed t) = src_ip t"
  "src_port (reversed t) = dst_port t"
  "dst_port (reversed t) = src_port t"
  "protocol (reversed t) = protocol t"
  by (simp_all add: reversed_def)

lemma reversed_reversed [simp]: "reversed (reversed t) = t"
  by (cases t) (simp add: reversed_def)

lemma reversed_inject [simp]: "reversed a = reversed b \<longleftrightarrow> a = b"
  by (metis reversed_reversed)

section \<open>Text\<close>

text \<open>
  \<open>inet_ntop\<close> returns a null pointer (\<open>None\<close>) or the text; the code prints a question mark for
  the former. \<open>snprintf\<close> with a buffer of 64 bytes keeps the first 63 characters.
\<close>

definition ip_to_string :: "(u32 \<Rightarrow> string option) \<Rightarrow> u32 \<Rightarrow> string" where
  "ip_to_string inet_ntop ip = (case inet_ntop ip of None \<Rightarrow> ''?'' | Some s \<Rightarrow> s)"

definition protocol_to_string :: "u8 \<Rightarrow> string" where
  "protocol_to_string p =
     (if p = 6 then ''TCP'' else if p = 17 then ''UDP'' else string_of_nat (unat p))"

definition format_tuple :: "(u32 \<Rightarrow> string option) \<Rightarrow> five_tuple \<Rightarrow> string" where
  "format_tuple inet_ntop t =
     ip_to_string inet_ntop (src_ip t) @ '':'' @ string_of_nat (unat (src_port t)) @ '' -> '' @
     ip_to_string inet_ntop (dst_ip t) @ '':'' @ string_of_nat (unat (dst_port t)) @ '' '' @
     protocol_to_string (protocol t)"

definition to_string :: "(u32 \<Rightarrow> string option) \<Rightarrow> five_tuple \<Rightarrow> string" where
  "to_string inet_ntop t = take 63 (format_tuple inet_ntop t)"

lemma length_port: "length (string_of_nat (unat (p :: u16))) \<le> 5"
  using length_string_of_nat [of "unat p" 4] unat_u16_le [of p] by simp

lemma length_protocol: "length (protocol_to_string p) \<le> 3"
  using length_string_of_nat [of "unat p" 2] unat_u8_le [of p]
  by (simp add: protocol_to_string_def)

lemma length_ip:
  assumes "\<And>ip s. inet_ntop ip = Some s \<Longrightarrow> length s \<le> 15"
  shows "length (ip_to_string inet_ntop ip) \<le> 15"
  using assms [of ip] by (auto simp: ip_to_string_def split: option.split)

text \<open>The dotted quad, as \<open>inet_ntop\<close> is documented to print it, for the witnesses.\<close>

definition dotted_quad :: "u32 \<Rightarrow> string option" where
  "dotted_quad ip = Some (
     string_of_nat (unat ip mod 256) @ ''.'' @ string_of_nat (unat ip div 256 mod 256) @ ''.'' @
     string_of_nat (unat ip div 65536 mod 256) @ ''.'' @ string_of_nat (unat ip div 16777216 mod 256))"

lemma length_octet: "length (string_of_nat (n mod 256)) \<le> 3"
  by (rule length_string_of_nat [of _ 2, simplified]) (rule less_trans [of _ 256], simp_all)

lemma length_dotted_quad: "dotted_quad ip = Some s \<Longrightarrow> length s \<le> 15"
  using length_octet [of "unat ip"] length_octet [of "unat ip div 256"]
    length_octet [of "unat ip div 65536"] length_octet [of "unat ip div 16777216"]
  by (auto simp: dotted_quad_def)

text \<open>The 64-byte buffer of \<open>FiveTuple::to_string\<close> never truncates.\<close>

theorem to_string_not_truncated:
  assumes "\<And>ip s. inet_ntop ip = Some s \<Longrightarrow> length s \<le> 15"
  shows "to_string inet_ntop t = format_tuple inet_ntop t \<and> length (to_string inet_ntop t) \<le> 50"
proof -
  have ip: "length (ip_to_string inet_ntop a) \<le> 15" for a by (rule length_ip) (rule assms)
  have "length (format_tuple inet_ntop t) \<le> 50"
    using ip [of "src_ip t"] ip [of "dst_ip t"]
      length_port [of "src_port t"] length_port [of "dst_port t"] length_protocol [of "protocol t"]
    by (simp add: format_tuple_def)
  then show ?thesis by (simp add: to_string_def)
qed

theorem to_string_not_truncated_witness:
  "to_string dotted_quad (mk_tuple 84584640 16777226 12345 80 6) =
     ''192.168.10.5:12345 -> 10.0.0.1:80 TCP''"
proof -
  have "to_string dotted_quad (mk_tuple 84584640 16777226 12345 80 6) =
    format_tuple dotted_quad (mk_tuple 84584640 16777226 12345 80 6)"
    using to_string_not_truncated [where t = "mk_tuple 84584640 16777226 12345 80 6",
        OF length_dotted_quad] by simp
  then show ?thesis
    by (simp add: format_tuple_def ip_to_string_def dotted_quad_def protocol_to_string_def
        string_of_nat.simps)
qed

end
