(* ===== verification/Packet_Parser.thy ===== *)
theory Packet_Parser
  imports Five_Tuple
begin

unbundle bit_operations_syntax

text \<open>
  capture/packet_parser.h and capture/packet_parser.cpp: from the raw bytes of an IPv4 packet to a
  \<open>ParsedPacket\<close>. Every read of the input goes through \<open>memcpy_from\<close> or \<open>byte_at\<close>, which fail
  where the C++ would read outside the buffer; that the parser never takes this branch is a theorem.
  The header structs are the ones of a little-endian host: a 16-bit field is loaded with its first
  byte low and \<open>ntohs\<close> swaps it, the bit fields \<open>ihl\<close>, \<open>version\<close> and \<open>doff\<close> are nibbles.
\<close>

section \<open>Reads\<close>

datatype fault = Out_of_bounds

definition memcpy_from :: "u8 list \<Rightarrow> nat \<Rightarrow> nat \<Rightarrow> fault + u8 list" where
  "memcpy_from data off n =
     (if off + n \<le> length data then Inr (take n (drop off data)) else Inl Out_of_bounds)"

definition byte_at :: "u8 list \<Rightarrow> nat \<Rightarrow> fault + u8" where
  "byte_at data i = (if i < length data then Inr (data ! i) else Inl Out_of_bounds)"

definition load16 :: "u8 \<Rightarrow> u8 \<Rightarrow> u16" where
  "load16 b0 b1 = ucast b0 OR push_bit 8 (ucast b1)"

definition load32 :: "u8 \<Rightarrow> u8 \<Rightarrow> u8 \<Rightarrow> u8 \<Rightarrow> u32" where
  "load32 b0 b1 b2 b3 =
     ucast b0 OR push_bit 8 (ucast b1) OR push_bit 16 (ucast b2) OR push_bit 24 (ucast b3)"

definition ntohs :: "u16 \<Rightarrow> u16" where
  "ntohs x = push_bit 8 x OR drop_bit 8 x"

section \<open>The parser\<close>

record parsed_packet =
  tuple :: five_tuple
  total_len :: u16
  payload_len :: u16
  has_ports :: bool
  tcp_flags :: u8

text \<open>
  \<open>iphdr\<close>: version and ihl at 0, tot_len at 2, frag_off at 6, protocol at 9, saddr at 12, daddr at
  16. \<open>size_t\<close> arithmetic is on \<open>nat\<close>: header lengths are at most 60 and the sums compared are
  below \<open>2 ^ 17\<close>. The one subtraction that is narrowed, the payload length, keeps the modular
  meaning of the cast to \<open>uint16_t\<close>.
\<close>

definition ip_header_len :: "u8 list \<Rightarrow> nat" where
  "ip_header_len hdr = unat (hdr ! 0 AND 15) * 4"

definition ip_version :: "u8 list \<Rightarrow> u8" where
  "ip_version hdr = drop_bit 4 (hdr ! 0)"

definition ip_only :: "u8 list \<Rightarrow> parsed_packet" where
  "ip_only hdr =
     \<lparr>tuple = mk_tuple (load32 (hdr ! 12) (hdr ! 13) (hdr ! 14) (hdr ! 15))
                       (load32 (hdr ! 16) (hdr ! 17) (hdr ! 18) (hdr ! 19)) 0 0 (hdr ! 9),
      total_len = ntohs (load16 (hdr ! 2) (hdr ! 3)),
      payload_len = 0, has_ports = False, tcp_flags = 0\<rparr>"

definition with_ports :: "parsed_packet \<Rightarrow> u16 \<Rightarrow> u16 \<Rightarrow> parsed_packet" where
  "with_ports p sport dport =
     p\<lparr>tuple := (tuple p)\<lparr>src_port := sport, dst_port := dport\<rparr>, has_ports := True\<rparr>"

definition parse_tcp :: "u8 list \<Rightarrow> nat \<Rightarrow> parsed_packet \<Rightarrow> fault + parsed_packet option" where
  "parse_tcp data ip_len p =
     (let transport_len = length data - ip_len in
      if transport_len < 20 then Inr (Some p)
      else ebind (memcpy_from data ip_len 20) (\<lambda>tcp.
        let tcp_header_len = unat (drop_bit 4 (tcp ! 12)) * 4 in
        if tcp_header_len < 20 \<or> transport_len < tcp_header_len \<or>
           unat (total_len p) < ip_len + tcp_header_len
        then Inr (Some p)
        else ebind (byte_at data (ip_len + 13)) (\<lambda>flags.
          Inr (Some ((with_ports p (ntohs (load16 (tcp ! 0) (tcp ! 1)))
                                   (ntohs (load16 (tcp ! 2) (tcp ! 3))))
            \<lparr>tcp_flags := flags,
             payload_len := word_of_int
               (int (unat (total_len p)) - int ip_len - int tcp_header_len)\<rparr>)))))"

definition parse_udp :: "u8 list \<Rightarrow> nat \<Rightarrow> parsed_packet \<Rightarrow> fault + parsed_packet option" where
  "parse_udp data ip_len p =
     (let transport_len = length data - ip_len in
      if transport_len < 8 then Inr (Some p)
      else ebind (memcpy_from data ip_len 8) (\<lambda>udp.
        let udp_len = unat (ntohs (load16 (udp ! 4) (udp ! 5))) in
        if udp_len < 8 \<or> unat (total_len p) < ip_len + udp_len then Inr (Some p)
        else Inr (Some ((with_ports p (ntohs (load16 (udp ! 0) (udp ! 1)))
                                      (ntohs (load16 (udp ! 2) (udp ! 3))))
               \<lparr>payload_len := word_of_int (int udp_len - 8)\<rparr>))))"

definition parse :: "u8 list option \<Rightarrow> fault + parsed_packet option" where
  "parse input =
     (case input of
        None \<Rightarrow> Inr None
      | Some data \<Rightarrow>
          if length data < 20 then Inr None
          else ebind (memcpy_from data 0 20) (\<lambda>hdr.
            if ip_version hdr \<noteq> 4 then Inr None
            else if ip_header_len hdr < 20 then Inr None
            else let p = ip_only hdr; ip_len = ip_header_len hdr in
              if unat (total_len p) < ip_len then Inr (Some p)
              else if ntohs (load16 (hdr ! 6) (hdr ! 7)) AND 0x1fff \<noteq> 0 then Inr (Some p)
              else if length data < ip_len then Inr (Some p)
              else if protocol (tuple p) = 6 then parse_tcp data ip_len p
              else if protocol (tuple p) = 17 then parse_udp data ip_len p
              else Inr (Some p)))"

section \<open>Reads succeed under their guards\<close>

lemma memcpy_from_ok [simp]:
  "off + n \<le> length data \<Longrightarrow> memcpy_from data off n = Inr (take n (drop off data))"
  by (simp add: memcpy_from_def)

lemma byte_at_ok [simp]: "i < length data \<Longrightarrow> byte_at data i = Inr (data ! i)"
  by (simp add: byte_at_def)

lemma ip_header_len_le: "ip_header_len hdr \<le> 60"
proof -
  have "unat (hdr ! 0 AND 15) \<le> unat (15 :: u8)"
    by (rule word_and_le1 [THEN word_le_nat_alt [THEN iffD1]])
  then show ?thesis by (simp add: ip_header_len_def)
qed

lemma with_ports_sel [simp]:
  "tuple (with_ports p s d) = (tuple p)\<lparr>src_port := s, dst_port := d\<rparr>"
  "total_len (with_ports p s d) = total_len p"
  "payload_len (with_ports p s d) = payload_len p"
  "has_ports (with_ports p s d)"
  "tcp_flags (with_ports p s d) = tcp_flags p"
  by (simp_all add: with_ports_def)

lemma ip_only_sel [simp]:
  "src_port (tuple (ip_only hdr)) = 0"
  "dst_port (tuple (ip_only hdr)) = 0"
  "payload_len (ip_only hdr) = 0"
  "\<not> has_ports (ip_only hdr)"
  "tcp_flags (ip_only hdr) = 0"
  by (simp_all add: ip_only_def)

text \<open>
  The outcome of the two transport parsers, with the reads discharged: either the packet unchanged,
  or the ports, the flags and a payload length that accounts exactly for the headers.
\<close>

lemma payload_exact:
  assumes "h \<le> unat (t :: u16)"
  shows "unat (word_of_int (int (unat t) - int h) :: u16) = unat t - h"
proof -
  have "(word_of_int (int (unat t) - int h) :: u16) = of_nat (unat t - h)"
    using assms by (simp only: of_nat_diff flip: of_nat_of_int_iff) simp
  moreover have "unat t - h < 2 ^ LENGTH(16)" using unat_bound [of t] by simp
  ultimately show ?thesis by (simp add: unat_of_nat)
qed

lemma parse_tcp_cases:
  assumes "ip_len \<le> length data"
  obtains (unchanged) "parse_tcp data ip_len p = Inr (Some p)"
  | (ports) q th where "parse_tcp data ip_len p = Inr (Some q)" "has_ports q"
      "src_ip (tuple q) = src_ip (tuple p)" "dst_ip (tuple q) = dst_ip (tuple p)"
      "protocol (tuple q) = protocol (tuple p)" "total_len q = total_len p"
      "20 \<le> th" "th \<le> 60" "ip_len + th \<le> length data"
      "unat (payload_len q) + ip_len + th = unat (total_len p)"
      "tcp_flags q = data ! (ip_len + 13)"
proof -
  define tcp where "tcp = take 20 (drop ip_len data)"
  define th where "th = unat (drop_bit 4 (tcp ! 12)) * 4"
  have "unat (drop_bit 4 (tcp ! 12)) \<le> 15"
    using div_le_mono [OF unat_u8_le [of "tcp ! 12"], of 16]
    by (simp add: drop_bit_eq_div unat_div)
  then have th60: "th \<le> 60" by (simp add: th_def)
  show thesis
  proof (cases "length data - ip_len < 20 \<or> th < 20 \<or> length data - ip_len < th \<or>
      unat (total_len p) < ip_len + th")
    case True
    with assms have "parse_tcp data ip_len p = Inr (Some p)"
      by (auto simp: parse_tcp_def Let_def th_def tcp_def)
    then show thesis by (rule unchanged)
  next
    case False
    define q where "q = (with_ports p (ntohs (load16 (tcp ! 0) (tcp ! 1)))
        (ntohs (load16 (tcp ! 2) (tcp ! 3))))\<lparr>tcp_flags := data ! (ip_len + 13),
        payload_len := word_of_int (int (unat (total_len p)) - int ip_len - int th)\<rparr>"
    have len: "ip_len + 20 \<le> length data" using False assms by linarith
    then have "parse_tcp data ip_len p = Inr (Some q)"
      using False by (simp add: parse_tcp_def Let_def th_def tcp_def q_def)
    moreover have "unat (payload_len q) = unat (total_len p) - (ip_len + th)"
      using False payload_exact [of "ip_len + th" "total_len p"]
      by (simp add: q_def diff_diff_add)
    moreover have "20 \<le> th" "ip_len + th \<le> length data" "ip_len + th \<le> unat (total_len p)"
      using False assms by linarith+
    ultimately show thesis
      using th60 by (intro ports [of q th]) (simp_all add: q_def)
  qed
qed

lemma parse_udp_cases:
  assumes "ip_len \<le> length data"
  obtains (unchanged) "parse_udp data ip_len p = Inr (Some p)"
  | (ports) q ul where "parse_udp data ip_len p = Inr (Some q)" "has_ports q"
      "src_ip (tuple q) = src_ip (tuple p)" "dst_ip (tuple q) = dst_ip (tuple p)"
      "protocol (tuple q) = protocol (tuple p)" "total_len q = total_len p"
      "8 \<le> ul" "unat (payload_len q) + 8 = ul" "ip_len + ul \<le> unat (total_len p)"
      "tcp_flags q = tcp_flags p"
proof -
  define udp where "udp = take 8 (drop ip_len data)"
  define ul where "ul = ntohs (load16 (udp ! 4) (udp ! 5))"
  show thesis
  proof (cases "length data - ip_len < 8 \<or> unat ul < 8 \<or> unat (total_len p) < ip_len + unat ul")
    case True
    with assms have "parse_udp data ip_len p = Inr (Some p)"
      by (auto simp: parse_udp_def Let_def ul_def udp_def)
    then show thesis by (rule unchanged)
  next
    case False
    define q where "q = (with_ports p (ntohs (load16 (udp ! 0) (udp ! 1)))
        (ntohs (load16 (udp ! 2) (udp ! 3))))\<lparr>payload_len := word_of_int (int (unat ul) - 8)\<rparr>"
    have len: "ip_len + 8 \<le> length data" using False assms by linarith
    then have "parse_udp data ip_len p = Inr (Some q)"
      using False by (simp add: parse_udp_def Let_def ul_def udp_def q_def)
    moreover have "unat (payload_len q) = unat ul - 8"
      using False payload_exact [of 8 ul] by (simp add: q_def)
    ultimately show thesis
      using False assms by (intro ports [of q "unat ul"]) (simp_all add: q_def)
  qed
qed

section \<open>What the parser guarantees\<close>

lemma ip_headers:
  assumes "20 \<le> length data"
  shows "ip_version (take 20 data) = ip_version data" "ip_header_len (take 20 data) = ip_header_len data"
    "ip_only (take 20 data) = ip_only data"
  using assms by (simp_all add: ip_version_def ip_header_len_def ip_only_def)

definition fragment_offset :: "u8 list \<Rightarrow> u16" where
  "fragment_offset data = ntohs (load16 (data ! 6) (data ! 7)) AND 0x1fff"

lemma parse_Some:
  "parse (Some data) =
     (if length data < 20 \<or> ip_version data \<noteq> 4 \<or> ip_header_len data < 20 then Inr None
      else if unat (total_len (ip_only data)) < ip_header_len data \<or> fragment_offset data \<noteq> 0 \<or>
        length data < ip_header_len data then Inr (Some (ip_only data))
      else if data ! 9 = 6 then parse_tcp data (ip_header_len data) (ip_only data)
      else if data ! 9 = 17 then parse_udp data (ip_header_len data) (ip_only data)
      else Inr (Some (ip_only data)))"
  by (simp add: parse_def ip_headers Let_def fragment_offset_def)
     (simp add: ip_only_def)

lemma transport_total:
  assumes "ip_len \<le> length data"
  shows "\<exists>q. parse_tcp data ip_len p = Inr (Some q)" "\<exists>q. parse_udp data ip_len p = Inr (Some q)"
  by (rule parse_tcp_cases [OF assms, of p]; blast) (rule parse_udp_cases [OF assms, of p]; blast)

lemma tcp_without_ports:
  assumes "parse_tcp data ip_len p = Inr (Some q)" "ip_len \<le> length data" "\<not> has_ports q"
  shows "q = p"
  using assms(2) by (rule parse_tcp_cases [of ip_len data p]) (use assms in auto)

lemma udp_without_ports:
  assumes "parse_udp data ip_len p = Inr (Some q)" "ip_len \<le> length data" "\<not> has_ports q"
  shows "q = p"
  using assms(2) by (rule parse_udp_cases [of ip_len data p]) (use assms in auto)

definition refused :: "u8 list \<Rightarrow> bool" where
  "refused data \<longleftrightarrow> length data < 20 \<or> ip_version data \<noteq> 4 \<or> ip_header_len data < 20"

lemma parse_refused: "refused data \<Longrightarrow> parse (Some data) = Inr None"
  by (simp add: parse_Some refused_def)

lemma parse_accepted: "\<not> refused data \<Longrightarrow> \<exists>p. parse (Some data) = Inr (Some p)"
  using transport_total [of "ip_header_len data" data "ip_only data"]
  by (simp add: parse_Some refused_def)

text \<open>C23. Memory safety: on every input the parser ends without a read outside the buffer, and
  it refuses the packet in exactly four cases: a null pointer, fewer than 20 bytes, a version other
  than 4, a header length below 5 words.\<close>

theorem parse_memory_safe:
  "\<exists>r. parse input = Inr r \<and>
     (r = None \<longleftrightarrow> (case input of None \<Rightarrow> True
        | Some data \<Rightarrow> \<not> (20 \<le> length data \<and> ip_version data = 4 \<and> 20 \<le> ip_header_len data)))"
proof (cases input)
  case None
  then show ?thesis by (simp add: parse_def)
next
  case (Some data)
  then show ?thesis
    using parse_refused [of data] parse_accepted [of data]
    by (cases "refused data") (auto simp: refused_def not_le)
qed

text \<open>A packet whose transport header cannot be read keeps its addresses: ports, flags and
  payload length are zero and the source address is still the one of the IP header, so a blocked
  source cannot escape by truncating its transport headers.\<close>

theorem parse_without_ports:
  assumes "parse (Some data) = Inr (Some p)" "\<not> has_ports p"
  shows "p = ip_only data"
  using assms tcp_without_ports [of data _ "ip_only data" p] udp_without_ports [of data _ "ip_only data" p]
  by (auto simp: parse_Some split: if_splits)

definition icmp_sample :: "u8 list" where
  "icmp_sample = [0x45, 0, 0, 28, 0, 0, 0, 0, 64, 1, 0, 0, 10, 0, 0, 2, 10, 0, 0, 1]"

theorem parse_without_ports_witness:
  "parse (Some icmp_sample) = Inr (Some (ip_only icmp_sample)) \<and>
   \<not> has_ports (ip_only icmp_sample) \<and> src_ip (tuple (ip_only icmp_sample)) = 0x0200000a"
proof -
  have p: "\<exists>p. parse (Some icmp_sample) = Inr (Some p) \<and> \<not> has_ports p"
    by (simp add: parse_Some icmp_sample_def ip_version_def ip_header_len_def fragment_offset_def
        load16_def ntohs_def ip_only_def)
  then have "parse (Some icmp_sample) = Inr (Some (ip_only icmp_sample))"
    using parse_without_ports [of icmp_sample] by auto
  then show ?thesis by (simp add: ip_only_def icmp_sample_def load32_def)
qed

lemma tcp_accounting:
  assumes "parse_tcp data ip_len p = Inr (Some q)" "ip_len \<le> length data" "has_ports q" "\<not> has_ports p"
  shows "\<exists>th \<ge> 20. unat (payload_len q) + ip_len + th = unat (total_len p) \<and> total_len q = total_len p \<and>
    src_ip (tuple q) = src_ip (tuple p) \<and> dst_ip (tuple q) = dst_ip (tuple p) \<and>
    protocol (tuple q) = protocol (tuple p)"
  using assms(2) by (rule parse_tcp_cases [of ip_len data p]) (use assms in auto)

lemma udp_accounting:
  assumes "parse_udp data ip_len p = Inr (Some q)" "ip_len \<le> length data" "has_ports q" "\<not> has_ports p"
  shows "unat (payload_len q) + ip_len + 8 \<le> unat (total_len p) \<and> total_len q = total_len p \<and>
    src_ip (tuple q) = src_ip (tuple p) \<and> dst_ip (tuple q) = dst_ip (tuple p) \<and>
    protocol (tuple q) = protocol (tuple p) \<and> tcp_flags q = tcp_flags p"
  using assms(2) by (rule parse_udp_cases [of ip_len data p]) (use assms in auto)

lemma ports_origin:
  assumes "parse (Some data) = Inr (Some p)" "has_ports p"
  shows "fragment_offset data = 0 \<and> ip_header_len data \<le> length data \<and>
    (data ! 9 = 6 \<and> parse_tcp data (ip_header_len data) (ip_only data) = Inr (Some p) \<or>
     data ! 9 = 17 \<and> parse_udp data (ip_header_len data) (ip_only data) = Inr (Some p))"
  using assms by (auto simp: parse_Some split: if_splits)

text \<open>Ports are only reported for a first fragment of TCP or UDP, with the addresses of the IP
  header; the payload length plus the headers is the total length of the datagram (for UDP at most
  that), so the narrowing to 16 bits never wraps; a UDP packet carries no TCP flags.\<close>

theorem parse_with_ports:
  assumes "parse (Some data) = Inr (Some p)" "has_ports p"
  shows "fragment_offset data = 0 \<and> total_len p = total_len (ip_only data) \<and>
    src_ip (tuple p) = src_ip (tuple (ip_only data)) \<and>
    dst_ip (tuple p) = dst_ip (tuple (ip_only data)) \<and>
    (data ! 9 = 6 \<and> (\<exists>th \<ge> 20. unat (payload_len p) + ip_header_len data + th = unat (total_len p)) \<or>
     data ! 9 = 17 \<and> unat (payload_len p) + ip_header_len data + 8 \<le> unat (total_len p) \<and>
       tcp_flags p = 0)"
proof (cases "data ! 9 = 6")
  case True
  with ports_origin [OF assms] assms(2) show ?thesis
    using tcp_accounting [of data "ip_header_len data" "ip_only data" p] by auto
next
  case False
  with ports_origin [OF assms] assms(2) show ?thesis
    using udp_accounting [of data "ip_header_len data" "ip_only data" p] by auto
qed

definition udp_sample :: "u8 list" where
  "udp_sample = [0x45, 0, 0, 32, 0, 0, 0, 0, 64, 17, 0, 0, 10, 0, 0, 2, 10, 0, 0, 1,
                 0x30, 0x39, 0, 53, 0, 12, 0, 0]"

lemma parse_udp_sample:
  "\<exists>p. parse (Some udp_sample) = Inr (Some p) \<and> has_ports p \<and> dst_port (tuple p) = 53 \<and>
     payload_len p = 4 \<and> src_ip (tuple p) = 0x0200000a"
  by (simp add: parse_Some parse_udp_def udp_sample_def ip_version_def ip_header_len_def
      fragment_offset_def load16_def load32_def ntohs_def ip_only_def)

theorem parse_with_ports_witness:
  "\<exists>p. parse (Some udp_sample) = Inr (Some p) \<and> has_ports p \<and> dst_port (tuple p) = 53 \<and>
     payload_len p = 4 \<and> fragment_offset udp_sample = 0"
  using parse_udp_sample parse_with_ports [of udp_sample] by blast

section \<open>The wire format\<close>

text \<open>
  The bytes RFC 791 and RFC 9293 prescribe for a TCP segment, with the options of both headers: a
  specification the parser is checked against. Options fill whole words, at most ten of each header.
  All fields the parser ignores are free.
\<close>

definition wire16 :: "u16 \<Rightarrow> u8 list" where
  "wire16 x = [ucast (drop_bit 8 x), ucast x]"

definition mem32 :: "u32 \<Rightarrow> u8 list" where
  "mem32 x = [ucast x, ucast (drop_bit 8 x), ucast (drop_bit 16 x), ucast (drop_bit 24 x)]"

record ignored_fields =
  tos :: u8
  ident :: u16
  frag_flags :: u16
  ttl :: u8
  ip_check :: u16
  seq_no :: u32
  ack_no :: u32
  tcp_reserved :: u8
  window :: u16
  tcp_check :: u16
  urgent_pointer :: u16

definition wire_ip_header :: "ignored_fields \<Rightarrow> five_tuple \<Rightarrow> u16 \<Rightarrow> nat \<Rightarrow> u8 list" where
  "wire_ip_header g t len option_words =
     [0x45 + of_nat option_words, tos g] @ wire16 len @ wire16 (ident g) @ wire16 (push_bit 13 (frag_flags g)) @
     [ttl g, 6] @ wire16 (ip_check g) @ mem32 (src_ip t) @ mem32 (dst_ip t)"

definition wire_tcp_header :: "ignored_fields \<Rightarrow> five_tuple \<Rightarrow> u8 \<Rightarrow> nat \<Rightarrow> u8 list" where
  "wire_tcp_header g t flags option_words =
     wire16 (src_port t) @ wire16 (dst_port t) @ mem32 (seq_no g) @ mem32 (ack_no g) @
     [push_bit 4 (5 + of_nat option_words) OR (tcp_reserved g AND 0x0f), flags] @ wire16 (window g) @
     wire16 (tcp_check g) @ wire16 (urgent_pointer g)"

definition wire_tcp :: "ignored_fields \<Rightarrow> five_tuple \<Rightarrow> u16 \<Rightarrow> u8 \<Rightarrow> u8 list \<Rightarrow> u8 list \<Rightarrow> u8 list \<Rightarrow> u8 list" where
  "wire_tcp g t len flags ip_options tcp_options payload =
     wire_ip_header g t len (length ip_options div 4) @ ip_options @
     wire_tcp_header g t flags (length tcp_options div 4) @ tcp_options @ payload"

definition options_ok :: "u8 list \<Rightarrow> bool" where
  "options_ok bytes \<longleftrightarrow> length bytes mod 4 = 0 \<and> length bytes \<le> 40"

lemma header_lengths [simp]:
  "length (wire_ip_header g t len n) = 20" "length (wire_tcp_header g t flags n) = 20"
  by (simp_all add: wire_ip_header_def wire_tcp_header_def wire16_def mem32_def)

lemma header_words:
  assumes "n \<le> 10"
  shows "unat ((0x45 + of_nat n :: u8) AND 0x0f) = 5 + n" "drop_bit 4 (0x45 + of_nat n :: u8) = 4"
    "unat (drop_bit 4 (push_bit 4 (5 + of_nat n) OR (x AND 0x0f) :: u8)) = 5 + n"
proof -
  from assms have n: "n \<in> {0, 1, 2, 3, 4, 5, 6, 7, 8, 9, 10}"
    unfolding insert_iff empty_iff by presburger
  have "drop_bit 4 (x AND 0x0f) = 0"
  proof -
    have "(0x0f :: u8) = mask 4" by (simp add: mask_eq_exp_minus_1)
    then show ?thesis by (simp add: drop_bit_take_bit flip: take_bit_eq_mask del: mask_numeral)
  qed
  then have low: "drop_bit 4 (w OR (x AND 0x0f)) = drop_bit 4 w" for w :: u8 by simp
  from n show "unat ((0x45 + of_nat n :: u8) AND 0x0f) = 5 + n" by auto
  from n show "drop_bit 4 (0x45 + of_nat n :: u8) = 4" by auto
  show "unat (drop_bit 4 (push_bit 4 (5 + of_nat n) OR (x AND 0x0f) :: u8)) = 5 + n"
    unfolding low using n by auto
qed

lemma ntohs_wire: "ntohs (load16 (ucast (drop_bit 8 x)) (ucast x)) = x"
  by (rule bit_word_eqI) (auto simp: ntohs_def load16_def bit_simps)

lemma load32_mem: "load32 (ucast x) (ucast (drop_bit 8 x)) (ucast (drop_bit 16 x)) (ucast (drop_bit 24 x)) = x"
proof (rule bit_word_eqI)
  fix n assume "n < LENGTH(32)"
  then consider "n < 8" | "8 \<le> n" "n < 16" | "16 \<le> n" "n < 24" | "24 \<le> n" "n < 32" by fastforce
  then show "bit (load32 (ucast x) (ucast (drop_bit 8 x)) (ucast (drop_bit 16 x))
      (ucast (drop_bit 24 x))) n = bit x n"
    by cases (auto simp: load32_def bit_simps)
qed

lemma no_offset: "(push_bit 13 x :: u16) AND 0x1fff = 0"
proof -
  have "(0x1fff :: u16) = mask 13" by (simp add: mask_eq_exp_minus_1)
  moreover have "push_bit 13 x AND mask 13 = (0 :: u16)"
    by (simp add: take_bit_push_bit flip: take_bit_eq_mask del: mask_numeral)
  ultimately show ?thesis by simp
qed

lemma restore_ports: "t\<lparr>src_port := src_port t, dst_port := dst_port t\<rparr> = (t :: five_tuple)"
  by (cases t) simp

lemma wire_bytes:
  fixes g t len flags io to payload
  defines "d \<equiv> wire_tcp g t len flags io to payload"
  shows "i < 20 \<Longrightarrow> d ! i = wire_ip_header g t len (length io div 4) ! i"
    "take 20 (drop (20 + length io) d) = wire_tcp_header g t flags (length to div 4)"
    "d ! (20 + length io + 13) = flags"
    "length d = 40 + length io + length to + length payload"
  unfolding d_def
  by (simp_all add: wire_tcp_def nth_append)
     (simp add: wire_tcp_header_def wire16_def mem32_def)

text \<open>C39. Every TCP segment in wire format is read back exactly: addresses, ports, flags, total
  length and payload length, with any options in the IP header and in the TCP header, whatever the
  ignored fields and however much of the payload the kernel copied.\<close>

theorem parse_wire_tcp:
  assumes "protocol t = 6" "options_ok ip_options" "options_ok tcp_options"
    and "40 + length ip_options + length tcp_options \<le> unat len"
  shows "parse (Some (wire_tcp g t len flags ip_options tcp_options payload)) =
    Inr (Some \<lparr>tuple = t, total_len = len, payload_len = len - of_nat (40 + length ip_options + length tcp_options),
      has_ports = True, tcp_flags = flags\<rparr>)"
proof -
  let ?d = "wire_tcp g t len flags ip_options tcp_options payload"
  let ?i = "20 + length ip_options" and ?t = "20 + length tcp_options"
  have words: "length ip_options div 4 \<le> 10" "length tcp_options div 4 \<le> 10"
    "(5 + length ip_options div 4) * 4 = ?i" "(5 + length tcp_options div 4) * 4 = ?t"
    using assms(2,3) by (auto simp: options_ok_def)
  note d = wire_bytes [where g = g and t = t and len = len and flags = flags and io = ip_options
    and to = tcp_options and payload = payload]
  have only: "ip_only ?d = \<lparr>tuple = t\<lparr>src_port := 0, dst_port := 0\<rparr>, total_len = len,
      payload_len = 0, has_ports = False, tcp_flags = 0\<rparr>"
    using assms(1)
    unfolding ip_only_def
    by (simp add: d(1)) (cases t, simp add: wire_ip_header_def wire16_def mem32_def ntohs_wire load32_mem)
  have hl: "ip_header_len ?d = ?i" "ip_version ?d = 4" "fragment_offset ?d = 0" "?d ! 9 = 6"
    using header_words(1,2) [OF words(1)] words(3)
    by (simp_all add: ip_header_len_def ip_version_def fragment_offset_def d(1))
       (simp_all add: wire_ip_header_def wire16_def mem32_def ntohs_wire no_offset)
  let ?h = "wire_tcp_header g t flags (length tcp_options div 4)"
  have h: "?h ! 0 = ucast (drop_bit 8 (src_port t))" "?h ! Suc 0 = ucast (src_port t)"
    "?h ! 2 = ucast (drop_bit 8 (dst_port t))" "?h ! 3 = ucast (dst_port t)"
    "unat (drop_bit 4 (?h ! 12)) = 5 + length tcp_options div 4"
    using header_words(3) [OF words(2)]
    by (simp_all add: wire_tcp_header_def wire16_def mem32_def)
  have read: "memcpy_from ?d ?i 20 = Inr ?h" "byte_at ?d (?i + 13) = Inr flags"
    using memcpy_from_ok [of ?i 20 ?d] byte_at_ok [of "?i + 13" ?d] d(2-4) by simp_all
  have len: "(word_of_int (int (unat len) - int ?i - int ?t) :: u16) =
      len - of_nat (40 + length ip_options + length tcp_options)"
    by simp
  have "parse_tcp ?d ?i (ip_only ?d) = Inr (Some \<lparr>tuple = t, total_len = len,
      payload_len = len - of_nat (40 + length ip_options + length tcp_options), has_ports = True, tcp_flags = flags\<rparr>)"
    using assms(4) d(4) unfolding parse_tcp_def Let_def read ebind_simps h(5) words(4) len
    by (simp add: only h(1-4) with_ports_def ntohs_wire restore_ports)
  with assms hl d(4) show ?thesis by (simp add: parse_Some only)
qed

text \<open>A segment with a router alert in its IP header and a maximum segment size in its TCP header.\<close>

theorem parse_wire_tcp_witness:
  "parse (Some (wire_tcp \<lparr>tos = 0, ident = 7, frag_flags = 2, ttl = 64, ip_check = 0, seq_no = 1,
       ack_no = 2, tcp_reserved = 1, window = 512, tcp_check = 9, urgent_pointer = 0\<rparr>
     (mk_tuple 0x0200000a 0x0100000a 40000 80 6) 60 0x02 [0x94, 4, 0, 0] [2, 4, 5, 0xb4] [1, 2, 3])) =
   Inr (Some \<lparr>tuple = mk_tuple 0x0200000a 0x0100000a 40000 80 6, total_len = 60, payload_len = 12,
     has_ports = True, tcp_flags = 0x02\<rparr>)"
  using parse_wire_tcp [of "mk_tuple 0x0200000a 0x0100000a 40000 80 6" "[0x94, 4, 0, 0]" "[2, 4, 5, 0xb4]" 60]
  by (simp add: options_ok_def)

end
