(* ===== verification/Unordered_Map.thy ===== *)
theory Unordered_Map
  imports Five_Tuple
begin

text \<open>
  \<open>std::unordered_map\<close> with its bucket interface. FlowManager sweeps its two tables bucket by bucket
  (\<open>bucket_count\<close>, \<open>cbegin(b)\<close>, \<open>cend(b)\<close>), so a table is the list of its buckets and a key lives in
  the bucket its hash selects. The bucket count is fixed when the table is reserved: the components
  show that their tables never outgrow it, so no rehash moves a key.

  The interface the components rely on is the locale \<open>keyed_store\<close>; the bucket table is
  interpreted as one for each of the two hash functions of the program.
\<close>

section \<open>The interface\<close>

locale keyed_store =
  fixes find :: "'m \<Rightarrow> 'k \<Rightarrow> 'v option"
    and put :: "'m \<Rightarrow> 'k \<Rightarrow> 'v \<Rightarrow> 'm"
    and erase :: "'m \<Rightarrow> 'k \<Rightarrow> 'm"
    and count :: "'m \<Rightarrow> nat"
    and invar :: "'m \<Rightarrow> bool"
  assumes find_put: "invar m \<Longrightarrow> find (put m k v) = (find m)(k \<mapsto> v)"
    and find_erase: "invar m \<Longrightarrow> find (erase m k) = (find m)(k := None)"
    and invar_put: "invar m \<Longrightarrow> invar (put m k v)"
    and invar_erase: "invar m \<Longrightarrow> invar (erase m k)"
    and count_card: "invar m \<Longrightarrow> count m = card (dom (find m))"
    and finite_dom: "invar m \<Longrightarrow> finite (dom (find m))"
begin

lemma count_put:
  "invar m \<Longrightarrow> count (put m k v) = (if find m k = None then Suc (count m) else count m)"
  by (auto simp: count_card invar_put find_put finite_dom insert_absorb domIff)

lemma count_put_le: "invar m \<Longrightarrow> count (put m k v) \<le> Suc (count m)"
  by (simp add: count_put)

lemma count_erase: "invar m \<Longrightarrow> count (erase m k) = (if find m k = None then count m else count m - 1)"
  by (auto simp: count_card invar_erase find_erase finite_dom domIff)

lemma count_erase_le: "invar m \<Longrightarrow> count (erase m k) \<le> count m"
  by (simp add: count_erase)

text \<open>A loop that erases a list of keys.\<close>

lemma invar_erase_all: "invar m \<Longrightarrow> invar (fold (\<lambda>k m. erase m k) ks m)"
  by (induction ks arbitrary: m) (simp_all add: invar_erase)

lemma find_erase_all:
  "invar m \<Longrightarrow> find (fold (\<lambda>k m. erase m k) ks m) k = (if k \<in> set ks then None else find m k)"
  by (induction ks arbitrary: m) (auto simp: invar_erase find_erase)

lemma count_erase_all: "invar m \<Longrightarrow> count (fold (\<lambda>k m. erase m k) ks m) \<le> count m"
proof (induction ks arbitrary: m)
  case (Cons k ks)
  have "count (fold (\<lambda>k m. erase m k) ks (erase m k)) \<le> count (erase m k)"
    using Cons.prems by (intro Cons.IH invar_erase)
  also have "\<dots> \<le> count m" using Cons.prems by (rule count_erase_le)
  finally show ?case by simp
qed simp

end

section \<open>The bucket table\<close>

type_synonym ('k, 'v) umap = "('k \<times> 'v) list list"

definition um_reserve :: "nat \<Rightarrow> ('k, 'v) umap" where
  "um_reserve bucket_count = replicate bucket_count []"

definition um_bucket_count :: "('k, 'v) umap \<Rightarrow> nat" where
  "um_bucket_count m = length m"

definition um_bucket :: "('k \<Rightarrow> u64) \<Rightarrow> ('k, 'v) umap \<Rightarrow> 'k \<Rightarrow> nat" where
  "um_bucket h m k = unat (h k) mod length m"

definition um_find :: "('k \<Rightarrow> u64) \<Rightarrow> ('k, 'v) umap \<Rightarrow> 'k \<Rightarrow> 'v option" where
  "um_find h m k = map_of (m ! um_bucket h m k) k"

text \<open>
  \<open>emplace\<close> of a new key and assignment through the iterator of a present one: the present entry
  keeps its place in the bucket, a new one goes to the front.
\<close>

fun put_bucket :: "'k \<Rightarrow> 'v \<Rightarrow> ('k \<times> 'v) list \<Rightarrow> ('k \<times> 'v) list" where
  "put_bucket k v xs = (if map_of xs k = None then (k, v) # xs else AList.update k v xs)"

definition um_put :: "('k \<Rightarrow> u64) \<Rightarrow> ('k, 'v) umap \<Rightarrow> 'k \<Rightarrow> 'v \<Rightarrow> ('k, 'v) umap" where
  "um_put h m k v = (let b = um_bucket h m k in m[b := put_bucket k v (m ! b)])"

definition um_erase :: "('k \<Rightarrow> u64) \<Rightarrow> ('k, 'v) umap \<Rightarrow> 'k \<Rightarrow> ('k, 'v) umap" where
  "um_erase h m k = (let b = um_bucket h m k in m[b := AList.delete k (m ! b)])"

definition um_size :: "('k, 'v) umap \<Rightarrow> nat" where
  "um_size m = sum_list (map length m)"

text \<open>At least one bucket; in each bucket, keys that hash to it, each once.\<close>

definition um_inv :: "('k \<Rightarrow> u64) \<Rightarrow> ('k, 'v) umap \<Rightarrow> bool" where
  "um_inv h m \<longleftrightarrow> m \<noteq> [] \<and>
     (\<forall>b < length m. distinct (map fst (m ! b)) \<and> (\<forall>k \<in> fst ` set (m ! b). um_bucket h m k = b))"

section \<open>The bucket table is a keyed store\<close>

lemma um_bucket_lt: "m \<noteq> [] \<Longrightarrow> um_bucket h m k < length m"
  by (simp add: um_bucket_def)

lemma um_bucket_update [simp]: "um_bucket h (m[b := xs]) k = um_bucket h m k"
  by (simp add: um_bucket_def)

lemma map_of_put_bucket: "map_of (put_bucket k v xs) = (map_of xs)(k \<mapsto> v)"
  by (simp add: update_conv')

lemma distinct_put_bucket: "distinct (map fst xs) \<Longrightarrow> distinct (map fst (put_bucket k v xs))"
  by (auto simp: distinct_update map_of_eq_None_iff)

lemma keys_put_bucket: "fst ` set (put_bucket k v xs) = insert k (fst ` set xs)"
  by (simp add: dom_update)

lemma map_of_delete: "map_of (AList.delete k xs) = (map_of xs)(k := None)"
  by (simp add: delete_conv')

lemma um_inv_nth:
  "um_inv h m \<Longrightarrow> b < length m \<Longrightarrow> distinct (map fst (m ! b))"
  "um_inv h m \<Longrightarrow> b < length m \<Longrightarrow> (k, v) \<in> set (m ! b) \<Longrightarrow> um_bucket h m k = b"
  by (force simp: um_inv_def)+

lemma um_find_put:
  assumes "um_inv h m"
  shows "um_find h (um_put h m k v) = (um_find h m)(k \<mapsto> v)"
proof
  fix k'
  have "um_bucket h m k < length m" using assms by (intro um_bucket_lt) (simp add: um_inv_def)
  then show "um_find h (um_put h m k v) k' = ((um_find h m)(k \<mapsto> v)) k'"
    by (cases "um_bucket h m k' = um_bucket h m k")
       (auto simp: um_find_def um_put_def Let_def map_of_put_bucket simp del: put_bucket.simps)
qed

lemma um_find_erase:
  assumes "um_inv h m"
  shows "um_find h (um_erase h m k) = (um_find h m)(k := None)"
proof
  fix k'
  have "um_bucket h m k < length m" using assms by (intro um_bucket_lt) (simp add: um_inv_def)
  then show "um_find h (um_erase h m k) k' = ((um_find h m)(k := None)) k'"
    by (cases "um_bucket h m k' = um_bucket h m k")
       (auto simp: um_find_def um_erase_def Let_def map_of_delete)
qed

lemma um_inv_bucket:
  assumes "um_inv h m" "distinct (map fst xs)" "\<forall>k \<in> fst ` set xs. um_bucket h m k = b"
  shows "um_inv h (m[b := xs])"
  using assms by (cases "b < length m") (auto simp: um_inv_def nth_list_update)

lemma um_bucket_keys:
  assumes "um_inv h m" "k' \<in> fst ` set (m ! um_bucket h m k)"
  shows "um_bucket h m k' = um_bucket h m k"
proof -
  have "um_bucket h m k < length m" using assms(1) by (intro um_bucket_lt) (simp add: um_inv_def)
  with assms um_inv_nth(2) [OF assms(1)] show ?thesis by auto
qed

lemma um_bucket_distinct: "um_inv h m \<Longrightarrow> distinct (map fst (m ! um_bucket h m k))"
  by (rule um_inv_nth(1)) (auto simp: um_inv_def intro: um_bucket_lt)

lemma um_inv_put:
  assumes "um_inv h m"
  shows "um_inv h (um_put h m k v)"
  unfolding um_put_def Let_def
proof (rule um_inv_bucket [OF assms])
  show "distinct (map fst (put_bucket k v (m ! um_bucket h m k)))"
    by (intro distinct_put_bucket um_bucket_distinct assms)
  show "\<forall>k' \<in> fst ` set (put_bucket k v (m ! um_bucket h m k)). um_bucket h m k' = um_bucket h m k"
    unfolding keys_put_bucket using um_bucket_keys [OF assms] by blast
qed

lemma um_inv_erase:
  assumes "um_inv h m"
  shows "um_inv h (um_erase h m k)"
  unfolding um_erase_def Let_def
proof (rule um_inv_bucket [OF assms])
  show "distinct (map fst (AList.delete k (m ! um_bucket h m k)))"
    by (intro distinct_delete um_bucket_distinct assms)
  have "fst ` set (AList.delete k (m ! um_bucket h m k)) \<subseteq> fst ` set (m ! um_bucket h m k)"
    by (simp only: delete_keys flip: set_map) auto
  then show "\<forall>k' \<in> fst ` set (AList.delete k (m ! um_bucket h m k)). um_bucket h m k' = um_bucket h m k"
    using um_bucket_keys [OF assms] by blast
qed

lemma um_find_entry:
  assumes "um_inv h m"
  shows "um_find h m k = Some v \<longleftrightarrow> (\<exists>b < length m. (k, v) \<in> set (m ! b))"
proof -
  have b: "um_bucket h m k < length m" using assms by (intro um_bucket_lt) (simp add: um_inv_def)
  have "um_find h m k = Some v \<longleftrightarrow> (k, v) \<in> set (m ! um_bucket h m k)"
    using um_inv_nth(1) [OF assms b] by (simp add: um_find_def)
  with b um_inv_nth(2) [OF assms] show ?thesis by metis
qed

lemma distinct_buckets:
  assumes "\<forall>b < length m. distinct (map fst (m ! b)) \<and> (\<forall>k \<in> fst ` set (m ! b). f k = b + off)"
  shows "distinct (map fst (concat m))"
  using assms
proof (induction m arbitrary: off)
  case (Cons xs m)
  have tl: "\<forall>b < length m. distinct (map fst (m ! b)) \<and> (\<forall>k \<in> fst ` set (m ! b). f k = b + Suc off)"
  proof (intro allI impI)
    fix b assume "b < length m"
    with Cons.prems show "distinct (map fst (m ! b)) \<and> (\<forall>k \<in> fst ` set (m ! b). f k = b + Suc off)"
      by (fastforce dest!: spec [of _ "Suc b"])
  qed
  have hd: "distinct (map fst xs)" "\<forall>k \<in> fst ` set xs. f k = off"
    using Cons.prems by (fastforce dest!: spec [of _ 0])+
  have "f k \<noteq> off" if k: "k \<in> fst ` set (concat m)" for k
  proof -
    from k obtain b where "b < length m" "k \<in> fst ` set (m ! b)"
      by (force simp: in_set_conv_nth [of _ m])
    with tl have "f k = b + Suc off" by blast
    then show ?thesis by simp
  qed
  with hd have "fst ` set xs \<inter> fst ` set (concat m) = {}" by blast
  with hd Cons.IH [OF tl] show ?case by simp
qed simp

lemma um_keys_distinct: "um_inv h m \<Longrightarrow> distinct (map fst (concat m))"
  by (rule distinct_buckets [of m "um_bucket h m" 0]) (simp add: um_inv_def)

lemma um_dom:
  assumes "um_inv h m"
  shows "dom (um_find h m) = fst ` set (concat m)"
proof -
  have "k \<in> dom (um_find h m) \<longleftrightarrow> k \<in> fst ` set (concat m)" for k
  proof
    assume "k \<in> dom (um_find h m)"
    then obtain v b where "b < length m" "(k, v) \<in> set (m ! b)"
      using um_find_entry [OF assms, of k] by (auto simp: dom_def)
    then show "k \<in> fst ` set (concat m)" by (force intro: nth_mem)
  next
    assume "k \<in> fst ` set (concat m)"
    then obtain v b where "b < length m" "(k, v) \<in> set (m ! b)"
      by (auto simp: in_set_conv_nth [of _ m])
    then show "k \<in> dom (um_find h m)" using um_find_entry [OF assms, of k v] by (auto simp: dom_def)
  qed
  then show ?thesis by blast
qed

lemma um_size_card: "um_inv h m \<Longrightarrow> um_size m = card (dom (um_find h m))"
  using distinct_card [OF um_keys_distinct, of h m]
  by (simp add: um_dom um_size_def length_concat)

interpretation tab: keyed_store "um_find h" "um_put h" "um_erase h" um_size "um_inv h"
  for h :: "'k \<Rightarrow> u64"
  by unfold_locales
     (simp_all add: um_find_put um_find_erase um_inv_put um_inv_erase um_size_card um_dom)

lemmas um_store = tab.find_put tab.find_erase tab.invar_put tab.invar_erase tab.count_put
  tab.count_erase um_inv_put um_inv_erase

end
