(* ===== verification/Ieee_Double.thy ===== *)
theory Ieee_Double
  imports Ips_Prelude
begin

text \<open>
  The \<open>double\<close> arithmetic of the flow statistics. A finite \<open>double\<close> is the real number it
  denotes, and every operation of the code is the exact operation followed by \<open>fl\<close>, the rounding
  to the nearest value with a 53-bit significand, ties to the even one (the default mode of
  IEEE 754). The exponent range is left unbounded: the statistics hold 64-bit counts, lengths below
  \<open>2 ^ 16\<close>, intervals below \<open>2 ^ 63\<close> and sums of their squares, which stay far from overflow to
  infinity and from the subnormal numbers.
\<close>

section \<open>Rounding to the nearest integer, ties to even\<close>

definition rne :: "real \<Rightarrow> int" where
  "rne y = (let n = \<lfloor>y\<rfloor> in
     if y - of_int n < 1 / 2 then n
     else if 1 / 2 < y - of_int n then n + 1
     else if even n then n else n + 1)"

lemma rne_of_int [simp]: "rne (of_int n) = n"
  by (simp add: rne_def)

lemma rne_near: "\<bar>of_int (rne y) - y\<bar> \<le> 1 / 2"
  unfolding rne_def Let_def by (auto simp: abs_if) linarith+

lemma rne_mono: "x \<le> y \<Longrightarrow> rne x \<le> rne y"
proof -
  assume xy: "x \<le> y"
  then have fl: "\<lfloor>x\<rfloor> \<le> \<lfloor>y\<rfloor>" by (rule floor_mono)
  show ?thesis
  proof (cases "\<lfloor>x\<rfloor> = \<lfloor>y\<rfloor>")
    case True
    with xy show ?thesis by (auto simp: rne_def Let_def)
  next
    case False
    with fl have "\<lfloor>x\<rfloor> + 1 \<le> \<lfloor>y\<rfloor>" by linarith
    moreover have "rne x \<le> \<lfloor>x\<rfloor> + 1" "\<lfloor>y\<rfloor> \<le> rne y" by (auto simp: rne_def Let_def)
    ultimately show ?thesis by linarith
  qed
qed

lemma rne_le_of_int: "y \<le> of_int n \<Longrightarrow> rne y \<le> n"
  using rne_mono [of y "of_int n"] by simp

lemma of_int_le_rne: "of_int n \<le> y \<Longrightarrow> n \<le> rne y"
  using rne_mono [of "of_int n" y] by simp

lemma rne_minus: "rne (- y) = - rne y"
proof (cases "of_int \<lfloor>y\<rfloor> = y")
  case True
  then obtain n where "y = of_int n" by metis
  then have "rne (- y) = rne (of_int (- n))" "rne y = rne (of_int n)" by simp_all
  then show ?thesis by (simp only: rne_of_int)
next
  case False
  then have "\<lfloor>- y\<rfloor> = - \<lfloor>y\<rfloor> - 1" by linarith
  then show ?thesis unfolding rne_def Let_def by auto
qed

section \<open>Rounding to 53 bits\<close>

definition exp2 :: "real \<Rightarrow> int" where
  "exp2 x = \<lfloor>log 2 \<bar>x\<bar>\<rfloor> - 52"

definition fl :: "real \<Rightarrow> real" where
  "fl x = (if x = 0 then 0
           else of_int (rne (x / 2 powr of_int (exp2 x))) * 2 powr of_int (exp2 x))"

lemma fl_0 [simp]: "fl 0 = 0"
  by (simp add: fl_def)

lemma fl_minus: "fl (- x) = - fl x"
  by (simp add: fl_def exp2_def rne_minus)

lemma binade:
  assumes "0 < x"
  shows "2 powr (of_int (exp2 x) + 52) \<le> x" "x < 2 powr (of_int (exp2 x) + 53)"
proof -
  have "of_int (exp2 x) + 52 \<le> log 2 x" "log 2 x < of_int (exp2 x) + 53"
    using assms unfolding exp2_def by (simp_all, linarith)
  with assms show "2 powr (of_int (exp2 x) + 52) \<le> x" "x < 2 powr (of_int (exp2 x) + 53)"
    by (simp_all add: powr_le_iff less_powr_iff)
qed

lemma fl_binade:
  assumes "0 < x"
  shows "2 powr (of_int (exp2 x) + 52) \<le> fl x" "fl x \<le> 2 powr (of_int (exp2 x) + 53)"
proof -
  let ?p = "2 powr of_int (exp2 x) :: real"
  have p: "0 < ?p" by simp
  have split: "2 powr (of_int (exp2 x) + 52) = of_int (2 ^ 52) * ?p"
    "2 powr (of_int (exp2 x) + 53) = of_int (2 ^ 53) * ?p"
    by (simp_all add: powr_add)
  have "2 ^ 52 \<le> rne (x / ?p)"
    using binade(1) [OF assms] p by (intro of_int_le_rne) (simp add: split le_divide_eq del: of_int_power)
  then have "of_int (2 ^ 52) \<le> (of_int (rne (x / ?p)) :: real)" by (simp only: of_int_le_iff)
  then show "2 powr (of_int (exp2 x) + 52) \<le> fl x"
    using assms p unfolding split fl_def by (simp add: mult_right_mono del: of_int_power)
  have "rne (x / ?p) \<le> 2 ^ 53"
    using binade(2) [OF assms] p
    by (intro rne_le_of_int) (simp add: split divide_le_eq del: of_int_power)
  then have "(of_int (rne (x / ?p)) :: real) \<le> of_int (2 ^ 53)" by (simp only: of_int_le_iff)
  then show "fl x \<le> 2 powr (of_int (exp2 x) + 53)"
    using assms p unfolding split fl_def by (simp add: mult_right_mono del: of_int_power)
qed

lemma fl_pos: "0 < x \<Longrightarrow> 0 < fl x"
  using fl_binade(1) [of x] by (rule less_le_trans [rotated]) simp_all

lemma fl_mono_pos:
  assumes "0 < x" "x \<le> y"
  shows "fl x \<le> fl y"
proof -
  have y: "0 < y" using assms by simp
  have le: "exp2 x \<le> exp2 y"
    using assms y by (simp add: exp2_def floor_mono)
  show ?thesis
  proof (cases "exp2 x = exp2 y")
    case True
    have "rne (x / 2 powr of_int (exp2 x)) \<le> rne (y / 2 powr of_int (exp2 x))"
      using assms by (intro rne_mono) (simp add: divide_right_mono)
    with True assms y show ?thesis by (simp add: fl_def mult_right_mono)
  next
    case False
    with le have "exp2 x + 53 \<le> exp2 y + 52" by linarith
    then have "(2::real) powr (of_int (exp2 x) + 53) \<le> 2 powr (of_int (exp2 y) + 52)" by simp
    with fl_binade(2) [OF assms(1)] fl_binade(1) [OF y] show ?thesis by linarith
  qed
qed

lemma fl_mono: "x \<le> y \<Longrightarrow> fl x \<le> fl y"
proof -
  assume xy: "x \<le> y"
  consider "0 < x" | "x = 0" | "x < 0" "0 \<le> y" | "x < 0" "y < 0" by linarith
  then show ?thesis
  proof cases
    case 1
    then show ?thesis using xy by (rule fl_mono_pos)
  next
    case 2
    with xy show ?thesis using fl_pos [of y] by (cases "y = 0") auto
  next
    case 3
    then have "fl x < 0" "0 \<le> fl y"
      using fl_pos [of "- x"] fl_pos [of y] by (cases "y = 0"; simp add: fl_minus)+
    then show ?thesis by simp
  next
    case 4
    with xy fl_mono_pos [of "- y" "- x"] show ?thesis by (simp add: fl_minus)
  qed
qed

lemma fl_nonneg: "0 \<le> x \<Longrightarrow> 0 \<le> fl x"
  using fl_mono [of 0 x] by simp

section \<open>Integers up to \<open>2 ^ 53\<close> are exact\<close>

lemma fl_of_int_pos:
  assumes "0 < n" "n \<le> 2 ^ 53"
  shows "fl (of_int n) = of_int n"
proof (cases "exp2 (of_int n) \<le> 0")
  case True
  define k where "k = nat (- exp2 (of_int n))"
  have k: "of_int (exp2 (of_int n)) = - real k" using True by (simp add: k_def)
  have "(2::real) powr of_int (exp2 (of_int n)) = 1 / 2 ^ k"
    by (simp add: k powr_minus powr_realpow divide_inverse)
  then have "of_int n / (2::real) powr of_int (exp2 (of_int n)) = of_int (n * 2 ^ k)"
    by simp
  then have "rne (of_int n / 2 powr of_int (exp2 (of_int n))) = n * 2 ^ k"
    by (simp only: rne_of_int)
  with assms show ?thesis by (simp add: fl_def k powr_minus powr_realpow)
next
  case False
  then have "(2::real) ^ 53 \<le> 2 powr (of_int (exp2 (of_int n)) + 52)"
    using powr_mono [of 53 "of_int (exp2 (of_int n)) + 52" "2::real"] by simp
  also have "\<dots> \<le> of_int n" using assms by (intro binade) simp
  finally have "of_int (2 ^ 53) \<le> (of_int n :: real)" by simp
  with assms have n: "n = 2 ^ 53" by (simp only: of_int_le_iff)
  have "log 2 (2 ^ 53) = real 53" by (rule log_pow_cancel) simp_all
  then have "exp2 (of_int n) = 1" by (simp add: exp2_def n)
  moreover have "of_int n / 2 = (of_int (2 ^ 52) :: real)" by (simp add: n)
  then have "rne (of_int n / 2) = 2 ^ 52" by (simp only: rne_of_int)
  ultimately show ?thesis by (simp add: fl_def n)
qed

lemma fl_of_int [simp]:
  assumes "\<bar>n\<bar> \<le> 2 ^ 53"
  shows "fl (of_int n) = of_int n"
proof -
  consider "0 < n" | "n = 0" | "0 < - n" by linarith
  then show ?thesis
  proof cases
    case 1
    with assms show ?thesis by (intro fl_of_int_pos) simp_all
  next
    case 2
    then show ?thesis by simp
  next
    case 3
    with assms have "fl (of_int (- n)) = of_int (- n)" by (intro fl_of_int_pos) simp_all
    then show ?thesis by (simp add: fl_minus)
  qed
qed

lemma fl_of_nat [simp]: "n \<le> 2 ^ 53 \<Longrightarrow> fl (of_nat n) = of_nat n"
proof -
  assume "n \<le> 2 ^ 53"
  then have "int n \<le> int (2 ^ 53)" by (simp only: of_nat_le_iff)
  then have "\<bar>int n\<bar> \<le> 2 ^ 53" by simp
  then show ?thesis using fl_of_int [of "int n"] by simp
qed

lemma fl_numeral [simp]: "(numeral k :: nat) \<le> 2 ^ 53 \<Longrightarrow> fl (numeral k) = numeral k"
  using fl_of_nat [of "numeral k"] by simp

lemma fl_1 [simp]: "fl 1 = 1"
  using fl_of_int [of 1] by simp

end
