(* ===== verification/Flow_Stats.thy ===== *)
theory Flow_Stats
  imports Ieee_Double Five_Tuple
begin

text \<open>
  flow/flow.h: the running statistics, the per-direction features, the flow and the per-source
  statistics. A \<open>double\<close> is the real number it denotes and every operation is rounded by \<open>fl\<close>
  (theory Ieee_Double), in the order the code evaluates it.
\<close>

section \<open>Running statistics\<close>

record running_stats =
  rs_count :: u64
  rs_sum :: real
  rs_sq_sum :: real
  rs_min :: real
  rs_max :: real

definition rs_empty :: running_stats where
  "rs_empty = \<lparr>rs_count = 0, rs_sum = 0, rs_sq_sum = 0, rs_min = 0, rs_max = 0\<rparr>"

definition rs_add :: "real \<Rightarrow> running_stats \<Rightarrow> running_stats" where
  "rs_add x s =
     (let s = (if rs_count s = 0 then s\<lparr>rs_min := x, rs_max := x\<rparr>
               else s\<lparr>rs_min := (if x < rs_min s then x else rs_min s),
                      rs_max := (if x > rs_max s then x else rs_max s)\<rparr>)
      in s\<lparr>rs_count := rs_count s + 1,
           rs_sum := fl (rs_sum s + x),
           rs_sq_sum := fl (rs_sq_sum s + fl (x * x))\<rparr>)"

definition rs_mean :: "running_stats \<Rightarrow> real" where
  "rs_mean s = (if rs_count s \<noteq> 0 then fl (rs_sum s / fl (real (unat (rs_count s)))) else 0)"

definition rs_stddev :: "running_stats \<Rightarrow> real" where
  "rs_stddev s =
     (if rs_count s < 2 then 0
      else let n = fl (real (unat (rs_count s)));
               var = fl (fl (rs_sq_sum s - fl (fl (rs_sum s * rs_sum s) / n)) / fl (n - 1))
           in if var > 0 then fl (sqrt var) else 0)"

section \<open>Directions, flows and sources\<close>

record direction_stats =
  d_packet_len :: running_stats
  d_payload_len :: running_stats
  d_iat_us :: running_stats
  d_last_seen :: time_point
  d_syn :: u32
  d_ack :: u32
  d_fin :: u32
  d_rst :: u32
  d_psh :: u32
  d_urg :: u32

definition direction_empty :: direction_stats where
  "direction_empty =
     \<lparr>d_packet_len = rs_empty, d_payload_len = rs_empty, d_iat_us = rs_empty, d_last_seen = 0,
      d_syn = 0, d_ack = 0, d_fin = 0, d_rst = 0, d_psh = 0, d_urg = 0\<rparr>"

datatype flow_origin = REMOTE_INITIATED | LOCAL_INITIATED

record flow =
  f_key :: five_tuple
  f_first_seen :: time_point
  f_last_seen :: time_point
  f_forward :: direction_stats
  f_backward :: direction_stats
  f_origin :: flow_origin
  f_fin_handshake_complete :: bool

datatype flow_end_reason = TCP_FIN | TCP_RESET | TIMEOUT

record ended_flow =
  e_flow :: flow
  e_reason :: flow_end_reason

record source_stats =
  recent_dst_ports :: "u16 set"
  syn_count :: u32
  window_start :: time_point

definition source_stats_empty :: source_stats where
  "source_stats_empty = \<lparr>recent_dst_ports = {}, syn_count = 0, window_start = 0\<rparr>"

section \<open>The accumulator on a sequence of values\<close>

definition rs_of :: "nat list \<Rightarrow> running_stats" where
  "rs_of ns = fold (\<lambda>n. rs_add (real n)) ns rs_empty"

lemma rs_of_Nil [simp]: "rs_of [] = rs_empty"
  by (simp add: rs_of_def)

lemma rs_of_snoc [simp]: "rs_of (ns @ [n]) = rs_add (real n) (rs_of ns)"
  by (simp add: rs_of_def)

lemma rs_count_add [simp]: "rs_count (rs_add x s) = rs_count s + 1"
  by (simp add: rs_add_def Let_def)

lemma rs_count_of: "rs_count (rs_of ns) = of_nat (length ns)"
  by (induction ns rule: rev_induct) (simp_all add: rs_empty_def)

text \<open>
  The bound under which the sums of 16-bit lengths are exact: \<open>2 ^ 21\<close> values, each below \<open>2 ^ 16\<close>,
  have squares below \<open>2 ^ 32\<close> and a sum of squares of at most \<open>2 ^ 53\<close>.
\<close>

definition lengths :: "nat list \<Rightarrow> bool" where
  "lengths ns \<longleftrightarrow> length ns \<le> 2 ^ 21 \<and> (\<forall>n \<in> set ns. n \<le> 65535)"

definition sq_sum :: "nat list \<Rightarrow> nat" where
  "sq_sum ns = sum_list (map (\<lambda>n. n * n) ns)"

lemma lengths_snoc: "lengths (ns @ [n]) \<Longrightarrow> lengths ns \<and> n \<le> 65535 \<and> length ns < 2 ^ 21"
  by (auto simp: lengths_def)

lemma square_le: "n \<le> 65535 \<Longrightarrow> n * n \<le> (4294836225 :: nat)"
  using mult_mono [of n 65535 n 65535] by simp

lemma sum_list_le: "(\<forall>n \<in> set ns. f n \<le> (b :: nat)) \<Longrightarrow> sum_list (map f ns) \<le> length ns * b"
  by (induction ns) auto

lemma lengths_sum: "lengths ns \<Longrightarrow> sum_list ns \<le> length ns * 65535"
  using sum_list_le [of ns "\<lambda>n. n" 65535] by (simp add: lengths_def)

lemma lengths_sq_sum: "lengths ns \<Longrightarrow> sq_sum ns \<le> length ns * 4294836225"
  unfolding sq_sum_def by (rule sum_list_le) (auto simp: lengths_def intro: square_le)

lemma lengths_bounds:
  assumes "lengths ns"
  shows "sum_list ns \<le> 2 ^ 53" "sq_sum ns \<le> 2 ^ 53"
proof -
  have len: "length ns \<le> 2097152" using assms by (simp add: lengths_def)
  show "sum_list ns \<le> 2 ^ 53" using lengths_sum [OF assms] len by simp
  show "sq_sum ns \<le> 2 ^ 53" using lengths_sq_sum [OF assms] len by simp
qed

lemma rs_exact:
  "lengths ns \<Longrightarrow> rs_sum (rs_of ns) = real (sum_list ns) \<and> rs_sq_sum (rs_of ns) = real (sq_sum ns)"
proof (induction ns rule: rev_induct)
  case (snoc n ns)
  note b = lengths_snoc [OF snoc.prems] lengths_bounds [OF snoc.prems]
  have sq: "fl (real n * real n) = real (n * n)"
    using fl_of_nat [of "n * n"] square_le [of n] b by simp
  have s: "fl (real (sum_list ns) + real n) = real (sum_list (ns @ [n]))"
    using fl_of_nat [of "sum_list (ns @ [n])"] b by simp
  have "fl (real (sq_sum ns) + real (n * n)) = real (sq_sum (ns @ [n]))"
    using fl_of_nat [of "sq_sum (ns @ [n])"] b by (simp add: sq_sum_def)
  with s sq snoc.IH b show ?case by (simp add: rs_add_def Let_def)
qed (simp add: rs_empty_def sq_sum_def)

lemma count_nonzero: "lengths ns \<Longrightarrow> ns \<noteq> [] \<Longrightarrow> (of_nat (length ns) :: u64) \<noteq> 0"
  by (auto simp: lengths_def word_of_nat_eq_0_iff dest: dvd_imp_le)

lemma unat_count: "lengths ns \<Longrightarrow> unat (rs_count (rs_of ns)) = length ns"
  by (simp add: rs_count_of lengths_def unat_of_nat)

lemma rs_min_max:
  "lengths ns \<Longrightarrow> ns \<noteq> [] \<Longrightarrow>
   rs_min (rs_of ns) = real (Min (set ns)) \<and> rs_max (rs_of ns) = real (Max (set ns))"
proof (induction ns rule: rev_induct)
  case (snoc n ns)
  then have b: "lengths ns" by (simp add: lengths_snoc)
  show ?case
  proof (cases "ns = []")
    case True
    then show ?thesis by (simp add: rs_of_def rs_add_def rs_empty_def Let_def)
  next
    case False
    with b have "rs_count (rs_of ns) \<noteq> 0" by (simp add: rs_count_of count_nonzero)
    then have "rs_min (rs_of (ns @ [n])) = min (rs_min (rs_of ns)) (real n)"
      "rs_max (rs_of (ns @ [n])) = max (rs_max (rs_of ns)) (real n)"
      by (simp_all add: rs_add_def Let_def min_def max_def)
    moreover have "Min (set (ns @ [n])) = min (Min (set ns)) n" "Max (set (ns @ [n])) = max (Max (set ns)) n"
      using False by (simp_all add: min.commute max.commute)
    ultimately show ?thesis using snoc.IH [OF b False] by (simp only: of_nat_min of_nat_max)
  qed
qed simp

lemma mean_between:
  assumes "ns \<noteq> []"
  shows "real (Min (set ns)) \<le> real (sum_list ns) / real (length ns)"
    "real (sum_list ns) / real (length ns) \<le> real (Max (set ns))"
proof -
  have "length ns * Min (set ns) \<le> sum_list ns"
    using sum_list_mono [of ns "\<lambda>_. Min (set ns)" "\<lambda>n. n"] by (simp add: sum_list_triv)
  moreover have "sum_list ns \<le> length ns * Max (set ns)"
    using sum_list_mono [of ns "\<lambda>n. n" "\<lambda>_. Max (set ns)"] by (simp add: sum_list_triv)
  ultimately have "real (length ns * Min (set ns)) \<le> real (sum_list ns)"
    "real (sum_list ns) \<le> real (length ns * Max (set ns))" by (simp_all only: of_nat_le_iff)
  with assms show "real (Min (set ns)) \<le> real (sum_list ns) / real (length ns)"
    "real (sum_list ns) / real (length ns) \<le> real (Max (set ns))"
    by (simp_all add: le_divide_eq divide_le_eq mult.commute)
qed

text \<open>On up to \<open>2 ^ 21\<close> 16-bit lengths the accumulator is exact: the count, the sum, the sum of
  squares, the minimum and the maximum are those of the sequence, and the mean, which is rounded,
  still lies between the minimum and the maximum.\<close>

theorem running_stats_exact:
  assumes "length ns \<le> 2 ^ 21" "\<And>n. n \<in> set ns \<Longrightarrow> n \<le> 65535" "ns \<noteq> []"
  shows "unat (rs_count (rs_of ns)) = length ns \<and>
    rs_sum (rs_of ns) = real (sum_list ns) \<and>
    rs_sq_sum (rs_of ns) = real (\<Sum>n\<leftarrow>ns. n * n) \<and>
    rs_min (rs_of ns) = real (Min (set ns)) \<and> rs_max (rs_of ns) = real (Max (set ns)) \<and>
    rs_mean (rs_of ns) = fl (real (sum_list ns) / real (length ns)) \<and>
    rs_min (rs_of ns) \<le> rs_mean (rs_of ns) \<and> rs_mean (rs_of ns) \<le> rs_max (rs_of ns)"
proof -
  have l: "lengths ns" using assms by (simp add: lengths_def)
  have mean: "rs_mean (rs_of ns) = fl (real (sum_list ns) / real (length ns))"
  proof -
    have "fl (real (length ns)) = real (length ns)" using l by (intro fl_of_nat) (simp add: lengths_def)
    then show ?thesis
      using l assms(3) unat_count [OF l] rs_exact [OF l] count_nonzero
      by (simp add: rs_mean_def rs_count_of)
  qed
  have "Min (set ns) \<le> 65535" "Max (set ns) \<le> 65535" using assms(2,3) by simp_all
  then have "fl (real (Min (set ns))) = real (Min (set ns))"
    "fl (real (Max (set ns))) = real (Max (set ns))" by simp_all
  with fl_mono [OF mean_between(1) [OF assms(3)]] fl_mono [OF mean_between(2) [OF assms(3)]] mean
  show ?thesis
    using l assms(3) rs_exact [OF l] rs_min_max [OF l] unat_count [OF l]
    by (simp add: sq_sum_def)
qed

theorem running_stats_exact_witness:
  "rs_sum (rs_of [60, 1500, 40]) = 1600 \<and> rs_min (rs_of [60, 1500, 40]) \<le> rs_mean (rs_of [60, 1500, 40])"
proof -
  have "n \<le> 65535" if "n \<in> set [60, 1500, 40 :: nat]" for n using that by auto
  then show ?thesis using running_stats_exact [of "[60, 1500, 40]"] by simp
qed

section \<open>The standard deviation\<close>

lemma rs_stddev_nonneg: "0 \<le> rs_stddev s"
  by (auto simp: rs_stddev_def Let_def intro!: fl_nonneg)

lemma constant_sums:
  "sum_list (replicate k n) = k * n" "sq_sum (replicate k n) = k * (n * n)"
  by (simp_all add: sq_sum_def sum_list_replicate map_replicate_const)

lemma lengths_replicate: "k \<le> 2 ^ 21 \<Longrightarrow> n \<le> 65535 \<Longrightarrow> lengths (replicate k n)"
  by (simp add: lengths_def)

text \<open>The standard deviation is never negative, whatever was accumulated, and it is exactly zero
  for a direction whose packets all have the same length, as long as the sum of the lengths stays
  within \<open>2 ^ 26\<close> (67 megabytes), where its square is still exact.\<close>

theorem stddev_nonneg_and_constant:
  assumes "k \<le> 2 ^ 21" "n \<le> 65535" "k * n \<le> 2 ^ 26"
  shows "0 \<le> rs_stddev s \<and> rs_stddev (rs_of (replicate k n)) = 0"
proof (cases "rs_count (rs_of (replicate k n)) < 2")
  case True
  then have "rs_stddev (rs_of (replicate k n)) = 0" by (simp add: rs_stddev_def)
  then show ?thesis by (simp add: rs_stddev_nonneg)
next
  case False
  have l: "lengths (replicate k n)" using assms by (intro lengths_replicate)
  have k: "k \<noteq> 0"
  proof
    assume "k = 0"
    with False show False by (simp add: rs_empty_def)
  qed
  have "(k * n) * (k * n) \<le> 2 ^ 26 * 2 ^ 26" using assms(3) by (intro mult_mono) simp_all
  then have "fl (real (k * n) * real (k * n)) = real ((k * n) * (k * n))"
    by (subst of_nat_mult [symmetric], intro fl_of_nat) simp
  then have sq: "fl (rs_sum (rs_of (replicate k n)) * rs_sum (rs_of (replicate k n))) / fl (real k) =
      real (k * (n * n))"
    using rs_exact [OF l] assms(1) k by (simp add: constant_sums)
  moreover have "fl (real (k * (n * n))) = real (k * (n * n))"
    using lengths_bounds(2) [OF l] by (intro fl_of_nat) (simp add: constant_sums)
  ultimately have "rs_stddev (rs_of (replicate k n)) = 0"
    using rs_exact [OF l] unat_count [OF l] assms(1)
    by (simp add: rs_stddev_def Let_def constant_sums del: of_nat_mult)
  then show ?thesis by (simp add: rs_stddev_nonneg)
qed

theorem stddev_nonneg_and_constant_witness:
  "0 \<le> rs_stddev rs_empty \<and> rs_stddev (rs_of (replicate 5 1500)) = 0"
  by (rule stddev_nonneg_and_constant) simp_all

end
