(* ===== verification/Flow_Manager.thy ===== *)
theory Flow_Manager
  imports Packet_Parser Unordered_Map Flow_Stats
begin

unbundle bit_operations_syntax

text \<open>
  flow/flow_manager.h and flow/flow_manager.cpp (with capture/packet_direction.h): the flow table,
  its index by opening source, the per-source statistics, and the incremental sweep that expires
  both. A pointer or iterator into a table is the key of the entry; the pointers the operations
  return are the values they point to at that moment.
\<close>

section \<open>The state\<close>

datatype packet_direction = INBOUND | OUTBOUND | UNKNOWN

definition MAX_FLOWS :: nat where "MAX_FLOWS = 100000"
definition MAX_SOURCES :: nat where "MAX_SOURCES = 100000"
definition FLOW_TIMEOUT_SEC :: int where "FLOW_TIMEOUT_SEC = 60"

definition TH_FIN :: u8 where "TH_FIN = 1"
definition TH_SYN :: u8 where "TH_SYN = 2"
definition TH_RST :: u8 where "TH_RST = 4"
definition TH_PUSH :: u8 where "TH_PUSH = 8"
definition TH_ACK :: u8 where "TH_ACK = 16"
definition TH_URG :: u8 where "TH_URG = 32"

definition has_flag :: "u8 \<Rightarrow> u8 \<Rightarrow> bool" where
  "has_flag f bit_mask \<longleftrightarrow> f AND bit_mask \<noteq> 0"

text \<open>
  \<open>flow_keys_by_source_\<close> maps a source to the set of its flow keys, a list without repetitions: the
  order in which the program visits the set does not matter to it.
\<close>

type_synonym flow_index = "u32 \<Rightarrow> five_tuple list option"

record flow_manager =
  fm_flows :: "(five_tuple, flow) umap"
  fm_flow_keys_by_source :: flow_index
  fm_source_stats :: "(u32, source_stats) umap"
  fm_flow_cursor :: nat
  fm_source_cursor :: nat
  fm_window_seconds :: int
  fm_max_flows :: nat
  fm_max_sources :: nat

text \<open>
  The constructor. \<open>reserve n\<close> leaves at least \<open>n\<close> buckets and at least one (the load factor is one);
  which number the library picks is a parameter.
\<close>

definition new_flow_manager :: "(nat \<Rightarrow> nat) \<Rightarrow> int \<Rightarrow> nat \<Rightarrow> nat \<Rightarrow> flow_manager" where
  "new_flow_manager reserved window_seconds max_flows max_sources =
     \<lparr>fm_flows = um_reserve (reserved max_flows),
      fm_flow_keys_by_source = (\<lambda>_. None),
      fm_source_stats = um_reserve (reserved max_sources),
      fm_flow_cursor = 0, fm_source_cursor = 0,
      fm_window_seconds = window_seconds,
      fm_max_flows = max_flows, fm_max_sources = max_sources\<rparr>"

abbreviation find_flow :: "flow_manager \<Rightarrow> five_tuple \<Rightarrow> flow option" where
  "find_flow fm \<equiv> um_find five_tuple_hash (fm_flows fm)"

abbreviation find_source :: "flow_manager \<Rightarrow> u32 \<Rightarrow> source_stats option" where
  "find_source fm \<equiv> um_find hash_u32 (fm_source_stats fm)"

section \<open>The index by source\<close>

definition index_flow :: "five_tuple \<Rightarrow> flow_index \<Rightarrow> flow_index" where
  "index_flow key ix =
     ix(src_ip key \<mapsto> List.insert key (case ix (src_ip key) of None \<Rightarrow> [] | Some ks \<Rightarrow> ks))"

definition unindex_flow :: "five_tuple \<Rightarrow> flow_index \<Rightarrow> flow_index" where
  "unindex_flow key ix =
     (case ix (src_ip key) of
        None \<Rightarrow> ix
      | Some ks \<Rightarrow>
          let ks' = removeAll key ks in
          if ks' = [] then ix(src_ip key := None) else ix(src_ip key \<mapsto> ks'))"

section \<open>Per-source statistics\<close>

definition count_source_packet :: "parsed_packet \<Rightarrow> source_stats \<Rightarrow> source_stats" where
  "count_source_packet p s =
     (let s = s\<lparr>recent_dst_ports := insert (dst_port (tuple p)) (recent_dst_ports s)\<rparr> in
      if has_flag (tcp_flags p) TH_SYN then s\<lparr>syn_count := syn_count s + 1\<rparr> else s)"

definition update_source_stats ::
    "parsed_packet \<Rightarrow> time_point \<Rightarrow> flow_manager \<Rightarrow> source_stats option \<times> flow_manager" where
  "update_source_stats p now fm =
     (let src = src_ip (tuple p);
          store = (\<lambda>s. (Some s, fm\<lparr>fm_source_stats := um_put hash_u32 (fm_source_stats fm) src s\<rparr>))
      in case find_source fm src of
           None \<Rightarrow>
             if um_size (fm_source_stats fm) \<ge> fm_max_sources fm then (None, fm)
             else store (count_source_packet p (source_stats_empty\<lparr>window_start := now\<rparr>))
         | Some s \<Rightarrow>
             if now - window_start s \<ge> seconds (fm_window_seconds fm)
             then store (count_source_packet p (source_stats_empty\<lparr>window_start := now\<rparr>))
             else store (count_source_packet p s))"

section \<open>Flow statistics\<close>

definition count_flags :: "u8 \<Rightarrow> direction_stats \<Rightarrow> direction_stats" where
  "count_flags f d =
     (let one = (\<lambda>bit_mask. if has_flag f bit_mask then 1 else 0) in
      d\<lparr>d_syn := d_syn d + one TH_SYN, d_ack := d_ack d + one TH_ACK,
        d_fin := d_fin d + one TH_FIN, d_rst := d_rst d + one TH_RST,
        d_psh := d_psh d + one TH_PUSH, d_urg := d_urg d + one TH_URG\<rparr>)"

definition update_direction :: "parsed_packet \<Rightarrow> time_point \<Rightarrow> direction_stats \<Rightarrow> direction_stats" where
  "update_direction p now d =
     (let d = (if rs_count (d_packet_len d) > 0
               then d\<lparr>d_iat_us := rs_add (fl (of_int (to_microseconds (now - d_last_seen d)))) (d_iat_us d)\<rparr>
               else d);
          d = d\<lparr>d_packet_len := rs_add (real (unat (total_len p))) (d_packet_len d),
                d_payload_len := rs_add (real (unat (payload_len p))) (d_payload_len d),
                d_last_seen := now\<rparr>
      in count_flags (tcp_flags p) d)"

definition update_flow_stats :: "parsed_packet \<Rightarrow> bool \<Rightarrow> time_point \<Rightarrow> flow \<Rightarrow> flow" where
  "update_flow_stats p is_forward now f =
     (let both_fin_seen = d_fin (f_forward f) > 0 \<and> d_fin (f_backward f) > 0;
          f = (if is_forward then f\<lparr>f_forward := update_direction p now (f_forward f)\<rparr>
               else f\<lparr>f_backward := update_direction p now (f_backward f)\<rparr>);
          f = (if both_fin_seen \<and> has_flag (tcp_flags p) TH_ACK \<and> \<not> has_flag (tcp_flags p) TH_FIN
               then f\<lparr>f_fin_handshake_complete := True\<rparr> else f)
      in f\<lparr>f_last_seen := now\<rparr>)"

definition open_flow :: "five_tuple \<Rightarrow> packet_direction \<Rightarrow> time_point \<Rightarrow> flow" where
  "open_flow key direction now =
     \<lparr>f_key = key, f_first_seen = now, f_last_seen = 0,
      f_forward = direction_empty, f_backward = direction_empty,
      f_origin = (if direction = OUTBOUND then LOCAL_INITIATED else REMOTE_INITIATED),
      f_fin_handshake_complete = False\<rparr>"

text \<open>
  The first half of \<open>update_flow\<close> finds the entry, in the direction of the packet or in the reverse
  one, or opens it when the table has room; the second half updates it in place. The result is the
  updated flow and whether the packet goes its way.
\<close>

definition find_or_open ::
    "parsed_packet \<Rightarrow> packet_direction \<Rightarrow> time_point \<Rightarrow> flow_manager \<Rightarrow>
     (five_tuple \<times> flow \<times> bool) option \<times> flow_manager" where
  "find_or_open p direction now fm =
     (let key = tuple p in
      case find_flow fm key of
        Some f \<Rightarrow> (Some (key, f, True), fm)
      | None \<Rightarrow>
          (case find_flow fm (reversed key) of
             Some f \<Rightarrow> (Some (reversed key, f, False), fm)
           | None \<Rightarrow>
               if um_size (fm_flows fm) < fm_max_flows fm then
                 let f = open_flow key direction now in
                 (Some (key, f, True),
                  fm\<lparr>fm_flows := um_put five_tuple_hash (fm_flows fm) key f,
                     fm_flow_keys_by_source := index_flow key (fm_flow_keys_by_source fm)\<rparr>)
               else (None, fm)))"

definition update_flow ::
    "parsed_packet \<Rightarrow> packet_direction \<Rightarrow> time_point \<Rightarrow> flow_manager \<Rightarrow>
     (flow \<times> bool) option \<times> flow_manager" where
  "update_flow p direction now fm =
     (case find_or_open p direction now fm of
        (None, fm) \<Rightarrow> (None, fm)
      | (Some (key, f, is_forward), fm) \<Rightarrow>
          let f = update_flow_stats p is_forward now f in
          (Some (f, is_forward), fm\<lparr>fm_flows := um_put five_tuple_hash (fm_flows fm) key f\<rparr>))"

definition observe_packet ::
    "parsed_packet \<Rightarrow> packet_direction \<Rightarrow> time_point \<Rightarrow> flow_manager \<Rightarrow>
     source_stats option \<times> flow_manager" where
  "observe_packet p direction now fm =
     (if direction = UNKNOWN then (None, fm)
      else case update_flow p direction now fm of
        (None, fm) \<Rightarrow>
          if direction = INBOUND then update_source_stats p now fm else (None, fm)
      | (Some (f, is_forward), fm) \<Rightarrow>
          if direction \<noteq> INBOUND \<or> \<not> is_forward \<or> f_origin f \<noteq> REMOTE_INITIATED then (None, fm)
          else update_source_stats p now fm)"

definition add_packet ::
    "parsed_packet \<Rightarrow> time_point \<Rightarrow> flow_manager \<Rightarrow> source_stats option \<times> flow_manager" where
  "add_packet p now fm = observe_packet p INBOUND now fm"

definition get_flow :: "flow_manager \<Rightarrow> five_tuple \<Rightarrow> flow option" where
  "get_flow fm key =
     (case find_flow fm key of Some f \<Rightarrow> Some f | None \<Rightarrow> find_flow fm (reversed key))"

section \<open>Completion and removal\<close>

definition end_reason :: "flow \<Rightarrow> flow_end_reason option" where
  "end_reason f =
     (if d_rst (f_forward f) > 0 \<or> d_rst (f_backward f) > 0 then Some TCP_RESET
      else if f_fin_handshake_complete f then Some TCP_FIN
      else None)"

definition extract_completed :: "five_tuple \<Rightarrow> flow_manager \<Rightarrow> ended_flow option \<times> flow_manager" where
  "extract_completed key fm =
     (let it = (case find_flow fm key of
                  Some f \<Rightarrow> Some (key, f)
                | None \<Rightarrow> map_option (\<lambda>f. (reversed key, f)) (find_flow fm (reversed key)))
      in case it of
           None \<Rightarrow> (None, fm)
         | Some (k, f) \<Rightarrow>
             (case end_reason f of
                None \<Rightarrow> (None, fm)
              | Some reason \<Rightarrow>
                  (Some \<lparr>e_flow = f, e_reason = reason\<rparr>,
                   fm\<lparr>fm_flow_keys_by_source := unindex_flow k (fm_flow_keys_by_source fm),
                      fm_flows := um_erase five_tuple_hash (fm_flows fm) k\<rparr>)))"

definition discard_source_flows :: "u32 \<Rightarrow> flow_manager \<Rightarrow> flow_manager" where
  "discard_source_flows src fm =
     (case fm_flow_keys_by_source fm src of
        None \<Rightarrow> fm
      | Some keys \<Rightarrow>
          fm\<lparr>fm_flows := fold (\<lambda>k m. um_erase five_tuple_hash m k) keys (fm_flows fm),
             fm_flow_keys_by_source := (fm_flow_keys_by_source fm)(src := None)\<rparr>)"

section \<open>The incremental sweep\<close>

definition sweep_quota :: "nat \<Rightarrow> nat" where
  "sweep_quota buckets = max (buckets div 10) 64"

definition doomed_keys :: "('v \<Rightarrow> bool) \<Rightarrow> ('k, 'v) umap \<Rightarrow> nat \<Rightarrow> 'k list" where
  "doomed_keys is_expired m cursor =
     (let buckets = um_bucket_count m in
      concat (map (\<lambda>i. map fst (filter (\<lambda>e. is_expired (snd e)) (m ! ((cursor + i) mod buckets))))
        [0 ..< min (sweep_quota buckets) buckets]))"

fun erase_doomed ::
    "('k \<Rightarrow> u64) \<Rightarrow> ('v \<Rightarrow> 's \<Rightarrow> 's) \<Rightarrow> 'k list \<Rightarrow> ('k, 'v) umap \<Rightarrow> 's \<Rightarrow> ('k, 'v) umap \<times> 's" where
  "erase_doomed h on_expired [] m s = (m, s)"
| "erase_doomed h on_expired (k # ks) m s =
     (case um_find h m k of
        None \<Rightarrow> erase_doomed h on_expired ks m s
      | Some v \<Rightarrow> erase_doomed h on_expired ks (um_erase h m k) (on_expired v s))"

definition sweep_expired ::
    "('k \<Rightarrow> u64) \<Rightarrow> ('v \<Rightarrow> bool) \<Rightarrow> ('v \<Rightarrow> 's \<Rightarrow> 's) \<Rightarrow> ('k, 'v) umap \<Rightarrow> nat \<Rightarrow> 's \<Rightarrow>
     ('k, 'v) umap \<times> nat \<times> 's" where
  "sweep_expired h is_expired on_expired m cursor s =
     (let buckets = um_bucket_count m;
          doomed = doomed_keys is_expired m cursor;
          cursor = (cursor + sweep_quota buckets) mod buckets;
          (m, s) = erase_doomed h on_expired doomed m s
      in (m, cursor, s))"

definition expire_flow :: "flow \<Rightarrow> flow_index \<times> ended_flow list \<Rightarrow> flow_index \<times> ended_flow list" where
  "expire_flow f s =
     (unindex_flow (f_key f) (fst s), snd s @ [\<lparr>e_flow = f, e_reason = TIMEOUT\<rparr>])"

definition flow_expired :: "time_point \<Rightarrow> flow \<Rightarrow> bool" where
  "flow_expired now f \<longleftrightarrow> now - f_last_seen f \<ge> seconds FLOW_TIMEOUT_SEC"

definition source_expired :: "int \<Rightarrow> time_point \<Rightarrow> source_stats \<Rightarrow> bool" where
  "source_expired window_seconds now s \<longleftrightarrow> now - window_start s \<ge> seconds window_seconds"

definition cleanup_expired :: "time_point \<Rightarrow> flow_manager \<Rightarrow> ended_flow list \<times> flow_manager" where
  "cleanup_expired now fm =
     (let (flows, flow_cursor, ix, expired) =
            sweep_expired five_tuple_hash (flow_expired now) expire_flow
              (fm_flows fm) (fm_flow_cursor fm) (fm_flow_keys_by_source fm, []);
          (sources, source_cursor, _) =
            sweep_expired hash_u32 (source_expired (fm_window_seconds fm) now) (\<lambda>_ u. u)
              (fm_source_stats fm) (fm_source_cursor fm) ()
      in (expired, fm\<lparr>fm_flows := flows, fm_flow_keys_by_source := ix, fm_flow_cursor := flow_cursor,
                      fm_source_stats := sources, fm_source_cursor := source_cursor\<rparr>))"

end
