(* ===== verification/Flow_Table.thy ===== *)
theory Flow_Table
  imports Flow_Manager
begin

text \<open>
  The invariant of FlowManager and what its operations do to the tables as finite maps: the entries
  are stored under their own key, at most one direction of a conversation has an entry, the index
  by source lists exactly the keys of the flow table, the tables never outgrow the buckets reserved
  for them. Every operation is described by its effect on the two maps \<open>find_flow\<close> and
  \<open>find_source\<close>, so that the properties do not see buckets or cursors.
\<close>

section \<open>The index by source\<close>

definition entry_ok :: "five_tuple set \<Rightarrow> u32 \<Rightarrow> five_tuple list option \<Rightarrow> bool" where
  "entry_ok D src e \<longleftrightarrow>
     (case e of
        None \<Rightarrow> {k \<in> D. src_ip k = src} = {}
      | Some ks \<Rightarrow> ks \<noteq> [] \<and> distinct ks \<and> set ks = {k \<in> D. src_ip k = src})"

definition index_ok :: "five_tuple set \<Rightarrow> flow_index \<Rightarrow> bool" where
  "index_ok D ix \<longleftrightarrow> (\<forall>src. entry_ok D src (ix src))"

lemma index_ok_SomeD:
  "index_ok D ix \<Longrightarrow> ix src = Some ks \<Longrightarrow> ks \<noteq> [] \<and> distinct ks \<and> set ks = {k \<in> D. src_ip k = src}"
  by (auto simp: index_ok_def entry_ok_def dest!: spec [of _ src])

lemma index_ok_NoneD: "index_ok D ix \<Longrightarrow> ix src = None \<Longrightarrow> {k \<in> D. src_ip k = src} = {}"
  by (auto simp: index_ok_def entry_ok_def dest!: spec [of _ src])

lemma index_ok_upd:
  assumes "index_ok D ix" "entry_ok D' src e" "\<And>k. src_ip k \<noteq> src \<Longrightarrow> k \<in> D' \<longleftrightarrow> k \<in> D"
  shows "index_ok D' (ix(src := e))"
  unfolding index_ok_def
proof
  fix s
  show "entry_ok D' s ((ix(src := e)) s)"
  proof (cases "s = src")
    case True
    with assms(2) show ?thesis by simp
  next
    case False
    with assms(3) have "{k \<in> D'. src_ip k = s} = {k \<in> D. src_ip k = s}" by blast
    moreover have "entry_ok D s (ix s)" using assms(1) by (simp add: index_ok_def)
    ultimately show ?thesis using False by (simp add: entry_ok_def split: option.splits)
  qed
qed

lemma index_ok_insert [inv_intros]:
  assumes "index_ok D ix"
  shows "index_ok (insert key D) (index_flow key ix)"
  unfolding index_flow_def
proof (rule index_ok_upd [OF assms])
  let ?ks = "case ix (src_ip key) of None \<Rightarrow> [] | Some ks \<Rightarrow> ks"
  have "distinct ?ks \<and> set ?ks = {k \<in> D. src_ip k = src_ip key}"
    using index_ok_NoneD [OF assms, of "src_ip key"] index_ok_SomeD [OF assms, of "src_ip key"]
    by (cases "ix (src_ip key)") auto
  then show "entry_ok (insert key D) (src_ip key) (Some (List.insert key ?ks))"
    by (auto simp: entry_ok_def dest!: arg_cong [of _ "[]" set])
qed auto

lemma index_ok_remove [inv_intros]:
  assumes "index_ok D ix"
  shows "index_ok (D - {key}) (unindex_flow key ix)"
proof (cases "ix (src_ip key)")
  case None
  then have "key \<notin> D" using index_ok_NoneD [OF assms None] by auto
  with assms None show ?thesis by (simp add: unindex_flow_def)
next
  case (Some ks)
  note ks = index_ok_SomeD [OF assms Some]
  let ?ks = "removeAll key ks"
  have set: "set ?ks = {k \<in> D - {key}. src_ip k = src_ip key}" using ks by auto
  have "entry_ok (D - {key}) (src_ip key) (if ?ks = [] then None else Some ?ks)"
  proof (cases "?ks = []")
    case True
    with set show ?thesis by (simp add: entry_ok_def)
  next
    case False
    with set ks show ?thesis by (simp add: entry_ok_def distinct_removeAll)
  qed
  then have "index_ok (D - {key}) (ix(src_ip key := (if ?ks = [] then None else Some ?ks)))"
    by (rule index_ok_upd [OF assms]) auto
  with Some show ?thesis by (auto simp: unindex_flow_def Let_def split: if_splits)
qed

lemma index_ok_drop:
  assumes "index_ok D ix"
  shows "index_ok {k \<in> D. src_ip k \<noteq> src} (ix(src := None))"
  by (rule index_ok_upd [OF assms]) (auto simp: entry_ok_def)

lemma index_ok_empty [inv_intros]: "index_ok {} (\<lambda>_. None)"
  by (simp add: index_ok_def entry_ok_def)

section \<open>The flow table as a map\<close>

definition flows_ok :: "(five_tuple \<Rightarrow> flow option) \<Rightarrow> bool" where
  "flows_ok M \<longleftrightarrow>
     (\<forall>k f. M k = Some f \<longrightarrow> f_key f = k \<and> (M (reversed k) = None \<or> reversed k = k))"

lemma flows_okD: "flows_ok M \<Longrightarrow> M k = Some f \<Longrightarrow> f_key f = k"
  by (simp add: flows_ok_def)

lemma flows_ok_rev: "flows_ok M \<Longrightarrow> M k = Some f \<Longrightarrow> M (reversed k) = Some g \<Longrightarrow> reversed k = k \<and> g = f"
  by (fastforce simp: flows_ok_def)

lemma flows_ok_sub [inv_intros]: "flows_ok M \<Longrightarrow> M' \<subseteq>\<^sub>m M \<Longrightarrow> flows_ok M'"
proof -
  assume M: "flows_ok M" and sub: "M' \<subseteq>\<^sub>m M"
  have le: "M k = Some f" if "M' k = Some f" for k f
    using sub that by (auto simp: map_le_def dom_def)
  show ?thesis
    unfolding flows_ok_def
  proof (intro allI impI conjI)
    fix k f assume k: "M' k = Some f"
    show "f_key f = k" using flows_okD [OF M le [OF k]] .
    show "M' (reversed k) = None \<or> reversed k = k"
      using flows_ok_rev [OF M le [OF k] le] by (cases "M' (reversed k)") auto
  qed
qed

lemma flows_ok_empty [inv_intros]: "flows_ok (\<lambda>_. None)"
  by (simp add: flows_ok_def)

lemma flows_ok_put [inv_intros]:
  assumes "flows_ok M" "f_key f = k" "M k \<noteq> None \<or> M (reversed k) = None"
  shows "flows_ok (M(k \<mapsto> f))"
  unfolding flows_ok_def
proof (intro allI impI conjI)
  fix k' f' assume k': "(M(k \<mapsto> f)) k' = Some f'"
  then show "f_key f' = k'" using assms flows_okD by (auto split: if_splits)
  show "(M(k \<mapsto> f)) (reversed k') = None \<or> reversed k' = k'"
  proof (cases "k' = k")
    case True
    with assms show ?thesis by (auto simp: flows_ok_def)
  next
    case False
    with k' have M: "M k' = Some f'" by simp
    show ?thesis
    proof (cases "reversed k' = k")
      case True
      then have r: "reversed k = k'" by auto
      with M assms(3) obtain g where "M k = Some g" by auto
      with assms(1) M r have "k' = k" by (fastforce simp: flows_ok_def)
      with True r show ?thesis by simp
    next
      case False
      with M assms show ?thesis by (auto simp: flows_ok_def)
    qed
  qed
qed

section \<open>The invariant\<close>

definition table_ok :: "('k \<Rightarrow> u64) \<Rightarrow> ('k, 'v) umap \<Rightarrow> nat \<Rightarrow> nat \<Rightarrow> bool" where
  "table_ok h m limit cursor \<longleftrightarrow>
     um_inv h m \<and> um_size m \<le> limit \<and> limit \<le> um_bucket_count m \<and> cursor < um_bucket_count m"

definition fm_inv :: "flow_manager \<Rightarrow> bool" where
  "fm_inv fm \<longleftrightarrow>
     table_ok five_tuple_hash (fm_flows fm) (fm_max_flows fm) (fm_flow_cursor fm) \<and>
     table_ok hash_u32 (fm_source_stats fm) (fm_max_sources fm) (fm_source_cursor fm) \<and>
     flows_ok (find_flow fm) \<and> index_ok (dom (find_flow fm)) (fm_flow_keys_by_source fm)"

lemma fm_invI [inv_intros]:
  "table_ok five_tuple_hash (fm_flows fm) (fm_max_flows fm) (fm_flow_cursor fm) \<Longrightarrow>
   table_ok hash_u32 (fm_source_stats fm) (fm_max_sources fm) (fm_source_cursor fm) \<Longrightarrow>
   flows_ok (find_flow fm) \<Longrightarrow> index_ok (dom (find_flow fm)) (fm_flow_keys_by_source fm) \<Longrightarrow>
   fm_inv fm"
  by (simp add: fm_inv_def)

lemma fm_invD:
  assumes "fm_inv fm"
  shows "um_inv five_tuple_hash (fm_flows fm)" "um_inv hash_u32 (fm_source_stats fm)"
    "flows_ok (find_flow fm)" "index_ok (dom (find_flow fm)) (fm_flow_keys_by_source fm)"
    "table_ok five_tuple_hash (fm_flows fm) (fm_max_flows fm) (fm_flow_cursor fm)"
    "table_ok hash_u32 (fm_source_stats fm) (fm_max_sources fm) (fm_source_cursor fm)"
  using assms by (simp_all add: fm_inv_def table_ok_def)

lemma um_bucket_count_simps [umap_simps]:
  "um_bucket_count (um_put h m k v) = um_bucket_count m"
  "um_bucket_count (um_erase h m k) = um_bucket_count m"
  by (simp_all add: um_bucket_count_def um_put_def um_erase_def Let_def)

lemma table_ok_put [inv_intros]:
  "table_ok h m limit cursor \<Longrightarrow> um_find h m k \<noteq> None \<or> um_size m < limit \<Longrightarrow>
   table_ok h (um_put h m k v) limit cursor"
  by (auto simp: table_ok_def umap_simps um_store)

lemma table_ok_erase [inv_intros]:
  "table_ok h m limit cursor \<Longrightarrow> table_ok h (um_erase h m k) limit cursor"
  by (auto simp: table_ok_def umap_simps um_store)

lemma um_inv_reserve: "0 < n \<Longrightarrow> um_inv h (um_reserve n)"
  by (simp add: um_inv_def um_reserve_def)

lemma um_find_reserve: "0 < n \<Longrightarrow> um_find h (um_reserve n) = (\<lambda>_. None)"
  by (rule ext) (simp add: um_find_def um_reserve_def um_bucket_def)

lemma table_ok_reserve [inv_intros]: "0 < n \<Longrightarrow> limit \<le> n \<Longrightarrow> table_ok h (um_reserve n) limit 0"
  by (simp add: table_ok_def um_inv_reserve) (simp add: um_size_def um_reserve_def um_bucket_count_def sum_list_replicate)

lemma fm_inv_new:
  assumes "\<And>n. n \<le> reserved n \<and> 0 < reserved n"
  shows "fm_inv (new_flow_manager reserved w mf ms)"
proof -
  have "find_flow (new_flow_manager reserved w mf ms) = (\<lambda>_. None)"
    using assms by (simp add: new_flow_manager_def um_find_reserve)
  then show ?thesis
    using assms
    by (intro fm_invI) (simp_all add: new_flow_manager_def table_ok_reserve flows_ok_empty index_ok_empty)
qed

section \<open>Finding a conversation\<close>

definition locate :: "(five_tuple \<Rightarrow> flow option) \<Rightarrow> five_tuple \<Rightarrow> (five_tuple \<times> flow) option" where
  "locate M key =
     (case M key of
        Some f \<Rightarrow> Some (key, f)
      | None \<Rightarrow> map_option (\<lambda>f. (reversed key, f)) (M (reversed key)))"

lemma locate_Some:
  "locate M key = Some (k, f) \<Longrightarrow> M k = Some f \<and> (k = key \<or> k = reversed key \<and> M key = None)"
  by (auto simp: locate_def split: option.splits)

lemma locate_None: "locate M key = None \<longleftrightarrow> M key = None \<and> M (reversed key) = None"
  by (auto simp: locate_def split: option.splits)

lemma locate_key: "flows_ok M \<Longrightarrow> M k = Some f \<Longrightarrow> locate M k = Some (k, f)"
  by (simp add: locate_def)

lemma locate_reversed: "flows_ok M \<Longrightarrow> locate M (reversed key) = locate M key"
  by (cases "M key"; cases "M (reversed key)")
     (auto simp: locate_def dest: flows_ok_rev)

lemma get_flow_locate: "get_flow fm key = map_option snd (locate (find_flow fm) key)"
  by (auto simp: get_flow_def locate_def option.map_comp o_def option.map_ident split: option.splits)

section \<open>Source statistics\<close>

text \<open>The statistics of one source after one of its packets; \<open>full\<close> when no new source fits.\<close>

definition fresh_source :: "time_point \<Rightarrow> source_stats" where
  "fresh_source now = source_stats_empty\<lparr>window_start := now\<rparr>"

definition next_source ::
    "bool \<Rightarrow> int \<Rightarrow> parsed_packet \<Rightarrow> time_point \<Rightarrow> source_stats option \<Rightarrow> source_stats option" where
  "next_source full w p now e =
     (case e of
        None \<Rightarrow> if full then None else Some (count_source_packet p (fresh_source now))
      | Some s \<Rightarrow>
          Some (count_source_packet p (if now - window_start s \<ge> seconds w then fresh_source now else s)))"

lemma update_source_stats_eq:
  "update_source_stats p now fm =
     (let e = next_source (fm_max_sources fm \<le> um_size (fm_source_stats fm)) (fm_window_seconds fm) p now
                (find_source fm (src_ip (tuple p)))
      in (e, case e of None \<Rightarrow> fm
             | Some s \<Rightarrow> fm\<lparr>fm_source_stats := um_put hash_u32 (fm_source_stats fm) (src_ip (tuple p)) s\<rparr>))"
  by (auto simp: update_source_stats_def next_source_def fresh_source_def Let_def split: option.split)

lemma next_source_None: "next_source full w p now e = None \<longleftrightarrow> e = None \<and> full"
  by (auto simp: next_source_def split: option.splits)

lemma update_source_stats_inv [inv_intros]:
  assumes "fm_inv fm"
  shows "fm_inv (snd (update_source_stats p now fm))"
proof (cases "next_source (fm_max_sources fm \<le> um_size (fm_source_stats fm)) (fm_window_seconds fm) p now
    (find_source fm (src_ip (tuple p)))")
  case None
  with assms show ?thesis by (simp add: update_source_stats_eq)
next
  case (Some s)
  then have "find_source fm (src_ip (tuple p)) \<noteq> None \<or> um_size (fm_source_stats fm) < fm_max_sources fm"
    by (metis next_source_None not_le option.distinct(1))
  with Some assms show ?thesis by (simp add: update_source_stats_eq fm_inv_def table_ok_put)
qed

lemma update_source_stats_frame:
  "fm_flows (snd (update_source_stats p now fm)) = fm_flows fm"
  "fm_flow_keys_by_source (snd (update_source_stats p now fm)) = fm_flow_keys_by_source fm"
  "fm_window_seconds (snd (update_source_stats p now fm)) = fm_window_seconds fm"
  "fm_max_flows (snd (update_source_stats p now fm)) = fm_max_flows fm"
  "fm_max_sources (snd (update_source_stats p now fm)) = fm_max_sources fm"
  by (auto simp: update_source_stats_eq Let_def split: option.split)

section \<open>Observing a packet\<close>

text \<open>
  The specification of \<open>observe_packet\<close> on two finite maps: a packet belongs to the conversation
  that has an entry in one of the two directions; a packet without one opens its own.
\<close>

type_synonym flow_map = "five_tuple \<Rightarrow> flow option"
type_synonym source_map = "u32 \<Rightarrow> source_stats option"

definition spec_flow ::
    "nat \<Rightarrow> parsed_packet \<Rightarrow> packet_direction \<Rightarrow> time_point \<Rightarrow> flow_map \<Rightarrow> (flow \<times> bool) option \<times> flow_map" where
  "spec_flow max_flows p direction now M =
     (case locate M (tuple p) of
        Some (k, f) \<Rightarrow>
          let f' = update_flow_stats p (k = tuple p) now f in (Some (f', k = tuple p), M(k \<mapsto> f'))
      | None \<Rightarrow>
          if card (dom M) < max_flows then
            let f' = update_flow_stats p True now (open_flow (tuple p) direction now)
            in (Some (f', True), M(tuple p \<mapsto> f'))
          else (None, M))"

definition spec_source ::
    "nat \<Rightarrow> int \<Rightarrow> parsed_packet \<Rightarrow> time_point \<Rightarrow> source_map \<Rightarrow> source_stats option \<times> source_map" where
  "spec_source max_sources w p now S =
     (let src = src_ip (tuple p); e = next_source (max_sources \<le> card (dom S)) w p now (S src)
      in (e, S(src := e)))"

definition spec_observe ::
    "nat \<Rightarrow> nat \<Rightarrow> int \<Rightarrow> parsed_packet \<Rightarrow> packet_direction \<Rightarrow> time_point \<Rightarrow> flow_map \<times> source_map \<Rightarrow>
     source_stats option \<times> flow_map \<times> source_map" where
  "spec_observe max_flows max_sources w p direction now = (\<lambda>(M, S).
     if direction = UNKNOWN then (None, M, S)
     else let (updated, M) = spec_flow max_flows p direction now M;
              rated = (direction = INBOUND \<and>
                (case updated of None \<Rightarrow> True | Some (f, fwd) \<Rightarrow> fwd \<and> f_origin f = REMOTE_INITIATED))
          in if rated then let (r, S) = spec_source max_sources w p now S in (r, M, S)
             else (None, M, S))"

definition fm_abs :: "flow_manager \<Rightarrow> flow_map \<times> source_map" where
  "fm_abs fm = (find_flow fm, find_source fm)"

lemma f_key_update [simp]: "f_key (update_flow_stats p fwd now f) = f_key f"
  by (simp add: update_flow_stats_def Let_def)

lemma f_origin_update [simp]: "f_origin (update_flow_stats p fwd now f) = f_origin f"
  by (simp add: update_flow_stats_def Let_def)

lemma f_key_open [simp]: "f_key (open_flow key direction now) = key"
  by (simp add: open_flow_def)

lemma update_source_stats_refines:
  assumes "fm_inv fm"
  shows "fst (update_source_stats p now fm) =
      fst (spec_source (fm_max_sources fm) (fm_window_seconds fm) p now (find_source fm)) \<and>
    find_source (snd (update_source_stats p now fm)) =
      snd (spec_source (fm_max_sources fm) (fm_window_seconds fm) p now (find_source fm))"
proof -
  have same: "find_source fm = (find_source fm)(src := None)" if "find_source fm src = None" for src
    using that by auto
  show ?thesis
    using fm_invD(2) [OF assms] same
    by (auto simp: update_source_stats_eq spec_source_def Let_def um_store next_source_None
        um_size_card [OF fm_invD(2) [OF assms]] split: option.split)
       (auto simp: next_source_def)
qed

lemma fm_inv_put_flow:
  assumes "fm_inv fm" "find_flow fm k \<noteq> None" "f_key f = k"
  shows "fm_inv (fm\<lparr>fm_flows := um_put five_tuple_hash (fm_flows fm) k f\<rparr>)"
  using assms fm_invD [OF assms(1)]
  by (auto intro!: fm_invI table_ok_put flows_ok_put simp: um_store insert_absorb domIff)

lemma fm_inv_open_flow:
  assumes "fm_inv fm" "find_flow fm k = None" "find_flow fm (reversed k) = None" "f_key f = k"
    "um_size (fm_flows fm) < fm_max_flows fm"
  shows "fm_inv (fm\<lparr>fm_flows := um_put five_tuple_hash (fm_flows fm) k f,
                     fm_flow_keys_by_source := index_flow k (fm_flow_keys_by_source fm)\<rparr>)"
  using assms fm_invD [OF assms(1)]
  by (auto intro!: fm_invI table_ok_put flows_ok_put index_ok_insert simp: um_store)

lemma update_flow_refines:
  assumes "fm_inv fm"
  shows "fst (update_flow p direction now fm) =
      fst (spec_flow (fm_max_flows fm) p direction now (find_flow fm))" (is ?result)
    and "find_flow (snd (update_flow p direction now fm)) =
      snd (spec_flow (fm_max_flows fm) p direction now (find_flow fm))" (is ?table)
    and "fm_inv (snd (update_flow p direction now fm))" (is ?inv)
proof -
  note inv = fm_invD [OF assms]
  note size = um_size_card [OF inv(1)]
  have "?result \<and> ?table \<and> ?inv"
  proof (cases "find_flow fm (tuple p)")
    case (Some f)
    then have "fm_inv (fm\<lparr>fm_flows := um_put five_tuple_hash (fm_flows fm) (tuple p) (update_flow_stats p True now f)\<rparr>)"
      using inv(3) flows_okD by (intro fm_inv_put_flow [OF assms]) (simp, fastforce)
    with Some inv(1) show ?thesis
      by (simp add: update_flow_def find_or_open_def spec_flow_def locate_def um_store Let_def)
  next
    case None
    note key = None
    show ?thesis
    proof (cases "find_flow fm (reversed (tuple p))")
      case (Some f)
      then have "fm_inv (fm\<lparr>fm_flows := um_put five_tuple_hash (fm_flows fm) (reversed (tuple p)) (update_flow_stats p False now f)\<rparr>)"
        using inv(3) flows_okD by (intro fm_inv_put_flow [OF assms]) (simp, fastforce)
      moreover have "reversed (tuple p) \<noteq> tuple p" using Some key by auto
      ultimately show ?thesis using Some key inv(1)
        by (simp add: update_flow_def find_or_open_def spec_flow_def locate_def um_store Let_def)
    next
      case None
      show ?thesis
      proof (cases "um_size (fm_flows fm) < fm_max_flows fm")
        case True
        let ?fm = "fm\<lparr>fm_flows := um_put five_tuple_hash (fm_flows fm) (tuple p) (open_flow (tuple p) direction now),
          fm_flow_keys_by_source := index_flow (tuple p) (fm_flow_keys_by_source fm)\<rparr>"
        have "fm_inv ?fm" by (rule fm_inv_open_flow [OF assms key None _ True]) simp
        then have "fm_inv (?fm\<lparr>fm_flows := um_put five_tuple_hash (fm_flows ?fm) (tuple p)
            (update_flow_stats p True now (open_flow (tuple p) direction now))\<rparr>)"
          using inv(1) by (intro fm_inv_put_flow) (simp_all add: um_store)
        with True None key inv(1) show ?thesis
          by (simp add: update_flow_def find_or_open_def spec_flow_def locate_def um_store Let_def size [symmetric])
      next
        case False
        with None key assms show ?thesis
          by (simp add: update_flow_def find_or_open_def spec_flow_def locate_def size [symmetric])
      qed
    qed
  qed
  then show ?result ?table ?inv by simp_all
qed

lemma update_flow_frame:
  "fm_source_stats (snd (update_flow p direction now fm)) = fm_source_stats fm"
  "fm_window_seconds (snd (update_flow p direction now fm)) = fm_window_seconds fm"
  "fm_max_flows (snd (update_flow p direction now fm)) = fm_max_flows fm"
  "fm_max_sources (snd (update_flow p direction now fm)) = fm_max_sources fm"
  by (auto simp: update_flow_def find_or_open_def Let_def split: option.split)

lemma observe_packet_split:
  "observe_packet p direction now fm =
     (if direction = UNKNOWN then (None, fm)
      else if direction = INBOUND \<and>
          (case fst (update_flow p direction now fm) of None \<Rightarrow> True
           | Some (f, fwd) \<Rightarrow> fwd \<and> f_origin f = REMOTE_INITIATED)
      then update_source_stats p now (snd (update_flow p direction now fm))
      else (None, snd (update_flow p direction now fm)))"
  by (cases "update_flow p direction now fm") (auto simp: observe_packet_def split: option.split)

lemma observe_packet_inv [inv_intros]: "fm_inv fm \<Longrightarrow> fm_inv (snd (observe_packet p direction now fm))"
  by (simp add: observe_packet_split update_flow_refines(3) update_source_stats_inv)

lemma observe_packet_refines:
  assumes "fm_inv fm"
  shows "(fst (observe_packet p direction now fm), fm_abs (snd (observe_packet p direction now fm))) =
    spec_observe (fm_max_flows fm) (fm_max_sources fm) (fm_window_seconds fm) p direction now (fm_abs fm)"
  using update_flow_refines [OF assms, of p direction now]
    update_source_stats_refines [OF update_flow_refines(3) [OF assms, of p direction now], of p now]
  by (cases "fst (spec_flow (fm_max_flows fm) p direction now (find_flow fm))"; cases direction)
     (simp_all add: observe_packet_split spec_observe_def fm_abs_def split_beta Let_def
       update_flow_frame update_source_stats_frame prod_eq_iff)

section \<open>Removing flows\<close>

definition spec_extract :: "five_tuple \<Rightarrow> flow_map \<Rightarrow> ended_flow option \<times> flow_map" where
  "spec_extract key M =
     (case locate M key of
        None \<Rightarrow> (None, M)
      | Some (k, f) \<Rightarrow>
          (case end_reason f of
             None \<Rightarrow> (None, M)
           | Some r \<Rightarrow> (Some \<lparr>e_flow = f, e_reason = r\<rparr>, M(k := None))))"

lemma fm_inv_erase_flow:
  assumes "fm_inv fm"
  shows "fm_inv (fm\<lparr>fm_flow_keys_by_source := unindex_flow k (fm_flow_keys_by_source fm),
                     fm_flows := um_erase five_tuple_hash (fm_flows fm) k\<rparr>)"
proof -
  have "flows_ok ((find_flow fm)(k := None))"
    by (rule flows_ok_sub [OF fm_invD(3) [OF assms]]) (simp add: map_le_def)
  then show ?thesis
    using fm_invD [OF assms] by (intro fm_invI) (simp_all add: um_store table_ok_erase index_ok_remove)
qed

lemma extract_completed_cases:
  "extract_completed key fm =
     (case locate (find_flow fm) key of
        None \<Rightarrow> (None, fm)
      | Some (k, f) \<Rightarrow>
          (case end_reason f of
             None \<Rightarrow> (None, fm)
           | Some r \<Rightarrow>
               (Some \<lparr>e_flow = f, e_reason = r\<rparr>,
                fm\<lparr>fm_flow_keys_by_source := unindex_flow k (fm_flow_keys_by_source fm),
                   fm_flows := um_erase five_tuple_hash (fm_flows fm) k\<rparr>)))"
  by (simp add: extract_completed_def locate_def Let_def)

lemma extract_completed_inv [inv_intros]: "fm_inv fm \<Longrightarrow> fm_inv (snd (extract_completed key fm))"
  by (auto simp: extract_completed_cases fm_inv_erase_flow split: option.split)

lemma extract_completed_refines:
  assumes "fm_inv fm"
  shows "(fst (extract_completed key fm), fm_abs (snd (extract_completed key fm))) =
    (fst (spec_extract key (find_flow fm)), (snd (spec_extract key (find_flow fm)), find_source fm))"
  using fm_invD(1) [OF assms]
  by (auto simp: extract_completed_cases spec_extract_def fm_abs_def um_store split: option.split)

definition spec_discard :: "u32 \<Rightarrow> flow_map \<Rightarrow> flow_map" where
  "spec_discard src M = (\<lambda>k. if src_ip k = src then None else M k)"

lemma table_ok_erase_all:
  assumes "table_ok h m limit cursor"
  shows "table_ok h (fold (\<lambda>k m. um_erase h m k) ks m) limit cursor"
  using assms by (induction ks arbitrary: m) (simp_all add: table_ok_erase)

lemma discard_source_flows_refines:
  assumes "fm_inv fm"
  shows "find_flow (discard_source_flows src fm) = spec_discard src (find_flow fm)"
    "find_source (discard_source_flows src fm) = find_source fm"
    "fm_inv (discard_source_flows src fm)"
proof -
  note inv = fm_invD [OF assms]
  have "find_flow (discard_source_flows src fm) = spec_discard src (find_flow fm) \<and>
    find_source (discard_source_flows src fm) = find_source fm \<and> fm_inv (discard_source_flows src fm)"
  proof (cases "fm_flow_keys_by_source fm src")
    case None
    then have none: "find_flow fm k = None" if "src_ip k = src" for k
      using index_ok_NoneD [OF inv(4) None] that by auto
    have "spec_discard src (find_flow fm) = find_flow fm"
      by (rule ext) (simp add: spec_discard_def none)
    with None assms show ?thesis by (simp add: discard_source_flows_def)
  next
    case (Some ks)
    let ?fm = "discard_source_flows src fm"
    have ks: "set ks = {k \<in> dom (find_flow fm). src_ip k = src}"
      using index_ok_SomeD [OF inv(4) Some] by blast
    have find: "find_flow ?fm = spec_discard src (find_flow fm)"
      using Some by (intro ext)
        (auto simp: discard_source_flows_def tab.find_erase_all [OF inv(1)] ks spec_discard_def domIff)
    have dom: "dom (find_flow ?fm) = {k \<in> dom (find_flow fm). src_ip k \<noteq> src}"
      unfolding find by (auto simp: spec_discard_def split: if_splits)
    have "fm_inv ?fm"
    proof (rule fm_invI)
      show "flows_ok (find_flow ?fm)"
        unfolding find
        by (rule flows_ok_sub [OF inv(3)]) (auto simp: map_le_def spec_discard_def split: if_splits)
      show "index_ok (dom (find_flow ?fm)) (fm_flow_keys_by_source ?fm)"
        unfolding dom using index_ok_drop [OF inv(4), of src] Some by (simp add: discard_source_flows_def)
    qed (use Some inv in \<open>simp_all add: discard_source_flows_def table_ok_erase_all\<close>)
    with find Some show ?thesis by (simp add: discard_source_flows_def)
  qed
  then show "find_flow (discard_source_flows src fm) = spec_discard src (find_flow fm)"
    "find_source (discard_source_flows src fm) = find_source fm"
    "fm_inv (discard_source_flows src fm)" by simp_all
qed

section \<open>The sweep\<close>

lemma erase_doomed_find:
  assumes "um_inv h m"
  shows "um_find h (fst (erase_doomed h on_expired ks m s)) =
    (\<lambda>k. if k \<in> set ks then None else um_find h m k)"
  using assms
proof (induction ks arbitrary: m s)
  case (Cons k ks)
  then show ?case by (auto simp: um_store fun_eq_iff split: option.split)
qed simp

text \<open>What an erasing step keeps, the loop keeps.\<close>

lemma erase_doomed_induct:
  assumes "P m s" "\<And>m s k v. P m s \<Longrightarrow> um_find h m k = Some v \<Longrightarrow> P (um_erase h m k) (on_expired v s)"
  shows "P (fst (erase_doomed h on_expired ks m s)) (snd (erase_doomed h on_expired ks m s))"
  using assms(1)
proof (induction ks arbitrary: m s)
  case (Cons k ks)
  then show ?case by (cases "um_find h m k") (simp_all add: assms(2))
qed simp

lemma doomed_keys_iff:
  assumes "um_inv h m"
  shows "k \<in> set (doomed_keys is_expired m cursor) \<longleftrightarrow>
    (\<exists>v. um_find h m k = Some v \<and> is_expired v \<and>
      (\<exists>i < sweep_quota (um_bucket_count m). um_bucket h m k = (cursor + i) mod um_bucket_count m))"
    (is "?l \<longleftrightarrow> ?r")
proof
  have len: "um_bucket_count m > 0" "um_bucket_count m = length m"
    using assms by (simp_all add: um_inv_def um_bucket_count_def)
  {
    assume ?l
    then obtain i v where i: "i < sweep_quota (um_bucket_count m)"
      and v: "(k, v) \<in> set (m ! ((cursor + i) mod um_bucket_count m))" "is_expired v"
      by (auto simp: doomed_keys_def Let_def)
    have b: "(cursor + i) mod um_bucket_count m < length m" using len by simp
    with v assms have "um_find h m k = Some v" by (auto simp: um_find_entry)
    moreover have "um_bucket h m k = (cursor + i) mod um_bucket_count m"
      using um_inv_nth(2) [OF assms b v(1)] .
    ultimately show ?r using i v(2) by blast
  }
  assume ?r
  then obtain v i where v: "um_find h m k = Some v" "is_expired v"
    and i: "i < sweep_quota (um_bucket_count m)" "um_bucket h m k = (cursor + i) mod um_bucket_count m"
    by blast
  have "(k, v) \<in> set (m ! um_bucket h m k)"
    using v(1) map_of_SomeD by (fastforce simp: um_find_def)
  moreover have "i mod um_bucket_count m < min (sweep_quota (um_bucket_count m)) (um_bucket_count m)"
    using i len(1) le_less_trans [OF mod_less_eq_dividend i(1)] by simp
  moreover have "(cursor + i mod um_bucket_count m) mod um_bucket_count m = um_bucket h m k"
    using i(2) by (simp add: mod_add_right_eq)
  ultimately show ?l using v(2)
    by (auto simp: doomed_keys_def Let_def intro!: bexI [of _ "i mod um_bucket_count m"] rev_image_eqI [of "(k, v)"])
qed

text \<open>The flow sweep: the reported flows are the removed entries, each once.\<close>

definition swept :: "flow_map \<Rightarrow> nat \<Rightarrow> nat \<Rightarrow> (five_tuple, flow) umap \<Rightarrow> flow_index \<times> ended_flow list \<Rightarrow> bool" where
  "swept M limit cursor m s \<longleftrightarrow>
     table_ok five_tuple_hash m limit cursor \<and>
     um_find five_tuple_hash m \<subseteq>\<^sub>m M \<and>
     index_ok (dom (um_find five_tuple_hash m)) (fst s) \<and>
     distinct (map (\<lambda>e. f_key (e_flow e)) (snd s)) \<and>
     (\<forall>e. e \<in> set (snd s) \<longleftrightarrow> e_reason e = TIMEOUT \<and>
       (\<exists>k. M k = Some (e_flow e) \<and> um_find five_tuple_hash m k = None))"

lemma swept_step:
  assumes M: "flows_ok M" and P: "swept M limit cursor m s"
    and k: "um_find five_tuple_hash m k = Some f"
  shows "swept M limit cursor (um_erase five_tuple_hash m k) (expire_flow f s)"
proof -
  let ?h = five_tuple_hash
  have t: "table_ok ?h m limit cursor" and inv: "um_inv ?h m" using P by (simp_all add: swept_def table_ok_def)
  have le: "M j = Some g" if "um_find ?h m j = Some g" for j g
    using P that by (auto simp: swept_def map_le_def dom_def)
  have key: "f_key f = k" using flows_okD [OF M le [OF k]] .
  have same: "g = f \<longleftrightarrow> k = j" if "M j = Some g" for j g
    using flows_okD [OF M that] key le [OF k] that by (metis option.inject)
  have fresh: "k \<noteq> f_key (e_flow e)" if "e \<in> set (snd s)" for e
    using that P k flows_okD [OF M] by (fastforce simp: swept_def)
  have out: "e \<in> set (snd (expire_flow f s)) \<longleftrightarrow> e_reason e = TIMEOUT \<and>
      (\<exists>j. M j = Some (e_flow e) \<and> um_find ?h (um_erase ?h m k) j = None)" for e
  proof -
    have "e \<in> set (snd (expire_flow f s)) \<longleftrightarrow> e_reason e = TIMEOUT \<and>
        (e_flow e = f \<or> (\<exists>j. M j = Some (e_flow e) \<and> um_find ?h m j = None))"
      using P by (cases e) (auto simp: expire_flow_def swept_def)
    moreover have "(e_flow e = f \<or> (\<exists>j. M j = Some (e_flow e) \<and> um_find ?h m j = None)) \<longleftrightarrow>
        (\<exists>j. M j = Some (e_flow e) \<and> um_find ?h (um_erase ?h m k) j = None)"
    proof (cases "e_flow e = f")
      case True
      then have "M k = Some (e_flow e) \<and> um_find ?h (um_erase ?h m k) k = None"
        using le [OF k] by (simp add: um_store inv)
      with True show ?thesis by blast
    next
      case False
      then have "j \<noteq> k" if "M j = Some (e_flow e)" for j using same [OF that] by auto
      with False show ?thesis by (auto simp: um_store inv)
    qed
    ultimately show ?thesis by simp
  qed
  have "index_ok (dom (um_find ?h m) - {k}) (fst (expire_flow f s))"
    using P key by (auto simp: expire_flow_def swept_def intro: index_ok_remove)
  moreover have "distinct (map (\<lambda>e. f_key (e_flow e)) (snd (expire_flow f s)))"
  proof -
    have "distinct (map (\<lambda>e. f_key (e_flow e)) (snd s))" using P by (simp add: swept_def)
    moreover have "k \<notin> (\<lambda>e. f_key (e_flow e)) ` set (snd s)" using fresh by blast
    ultimately show ?thesis using key by (simp add: expire_flow_def)
  qed
  moreover have "um_find ?h (um_erase ?h m k) \<subseteq>\<^sub>m M"
    using P by (auto simp: swept_def um_store inv map_le_def)
  ultimately show ?thesis
    using out table_ok_erase [OF t] by (simp add: swept_def um_store inv)
qed

definition doomed_flows :: "time_point \<Rightarrow> flow_manager \<Rightarrow> five_tuple set" where
  "doomed_flows now fm = set (doomed_keys (flow_expired now) (fm_flows fm) (fm_flow_cursor fm))"

definition doomed_sources :: "time_point \<Rightarrow> flow_manager \<Rightarrow> u32 set" where
  "doomed_sources now fm =
     set (doomed_keys (source_expired (fm_window_seconds fm) now) (fm_source_stats fm) (fm_source_cursor fm))"

definition sweep_flows ::
    "time_point \<Rightarrow> flow_manager \<Rightarrow> (five_tuple, flow) umap \<times> flow_index \<times> ended_flow list" where
  "sweep_flows now fm =
     erase_doomed five_tuple_hash expire_flow
       (doomed_keys (flow_expired now) (fm_flows fm) (fm_flow_cursor fm))
       (fm_flows fm) (fm_flow_keys_by_source fm, [])"

definition sweep_sources :: "time_point \<Rightarrow> flow_manager \<Rightarrow> (u32, source_stats) umap \<times> unit" where
  "sweep_sources now fm =
     erase_doomed hash_u32 (\<lambda>_ u. u)
       (doomed_keys (source_expired (fm_window_seconds fm) now) (fm_source_stats fm) (fm_source_cursor fm))
       (fm_source_stats fm) ()"

lemma cleanup_expired_eq:
  "cleanup_expired now fm =
     (snd (snd (sweep_flows now fm)),
      fm\<lparr>fm_flows := fst (sweep_flows now fm), fm_flow_keys_by_source := fst (snd (sweep_flows now fm)),
         fm_flow_cursor := (fm_flow_cursor fm + sweep_quota (um_bucket_count (fm_flows fm))) mod um_bucket_count (fm_flows fm),
         fm_source_stats := fst (sweep_sources now fm),
         fm_source_cursor := (fm_source_cursor fm + sweep_quota (um_bucket_count (fm_source_stats fm)))
           mod um_bucket_count (fm_source_stats fm)\<rparr>)"
  by (simp add: cleanup_expired_def sweep_expired_def sweep_flows_def sweep_sources_def Let_def split_beta)

lemma sweep_flows_swept:
  assumes "fm_inv fm"
  shows "swept (find_flow fm) (fm_max_flows fm) (fm_flow_cursor fm) (fst (sweep_flows now fm)) (snd (sweep_flows now fm))"
  unfolding sweep_flows_def
proof (rule erase_doomed_induct [where P = "swept (find_flow fm) (fm_max_flows fm) (fm_flow_cursor fm)"])
  show "swept (find_flow fm) (fm_max_flows fm) (fm_flow_cursor fm) (fm_flows fm) (fm_flow_keys_by_source fm, [])"
    using fm_invD [OF assms] by (auto simp: swept_def)
qed (rule swept_step [OF fm_invD(3) [OF assms]])

lemma um_bucket_count_erase_doomed:
  "um_bucket_count (fst (erase_doomed h on_expired ks m s)) = um_bucket_count m"
  by (rule erase_doomed_induct [where P = "\<lambda>m' s'. um_bucket_count m' = um_bucket_count m"])
     (simp_all add: umap_simps)

lemma sweep_sources_ok:
  assumes "fm_inv fm"
  shows "table_ok hash_u32 (fst (sweep_sources now fm)) (fm_max_sources fm) (fm_source_cursor fm)"
  unfolding sweep_sources_def
  by (rule erase_doomed_induct [where P = "\<lambda>m s. table_ok hash_u32 m (fm_max_sources fm) (fm_source_cursor fm)"])
     (auto intro: table_ok_erase fm_invD(6) [OF assms])

lemma table_ok_cursor: "table_ok h m limit cursor \<Longrightarrow> cursor' < um_bucket_count m \<Longrightarrow> table_ok h m limit cursor'"
  by (simp add: table_ok_def)

lemma cleanup_expired_find:
  assumes "fm_inv fm"
  shows "find_flow (snd (cleanup_expired now fm)) =
      (\<lambda>k. if k \<in> doomed_flows now fm then None else find_flow fm k)"
    "find_source (snd (cleanup_expired now fm)) =
      (\<lambda>k. if k \<in> doomed_sources now fm then None else find_source fm k)"
  using erase_doomed_find [OF fm_invD(1) [OF assms]] erase_doomed_find [OF fm_invD(2) [OF assms]]
  by (simp_all add: cleanup_expired_eq sweep_flows_def sweep_sources_def doomed_flows_def doomed_sources_def)

lemma cleanup_expired_inv [inv_intros]:
  assumes "fm_inv fm"
  shows "fm_inv (snd (cleanup_expired now fm))"
proof -
  note s = sweep_flows_swept [OF assms, of now] sweep_sources_ok [OF assms, of now]
  have b: "um_bucket_count (fst (sweep_flows now fm)) = um_bucket_count (fm_flows fm)"
    "um_bucket_count (fst (sweep_sources now fm)) = um_bucket_count (fm_source_stats fm)"
    by (simp_all add: sweep_flows_def sweep_sources_def um_bucket_count_erase_doomed)
  have "0 < um_bucket_count (fm_flows fm)" "0 < um_bucket_count (fm_source_stats fm)"
    using fm_invD(5,6) [OF assms] by (auto simp: table_ok_def)
  with s b show ?thesis
    by (intro fm_invI)
       (auto simp: cleanup_expired_eq swept_def intro: table_ok_cursor flows_ok_sub [OF fm_invD(3) [OF assms]])
qed

lemma cleanup_expired_reports:
  assumes "fm_inv fm"
  shows "distinct (map (\<lambda>e. f_key (e_flow e)) (fst (cleanup_expired now fm)))"
    "e \<in> set (fst (cleanup_expired now fm)) \<longleftrightarrow> e_reason e = TIMEOUT \<and>
       (\<exists>k \<in> doomed_flows now fm. find_flow fm k = Some (e_flow e))"
proof -
  note s = sweep_flows_swept [OF assms, of now]
  show "distinct (map (\<lambda>e. f_key (e_flow e)) (fst (cleanup_expired now fm)))"
    using s by (simp add: cleanup_expired_eq swept_def)
  have "um_find five_tuple_hash (fst (sweep_flows now fm)) =
      (\<lambda>k. if k \<in> doomed_flows now fm then None else find_flow fm k)"
    using cleanup_expired_find(1) [OF assms, of now] by (simp add: cleanup_expired_eq)
  with s show "e \<in> set (fst (cleanup_expired now fm)) \<longleftrightarrow> e_reason e = TIMEOUT \<and>
       (\<exists>k \<in> doomed_flows now fm. find_flow fm k = Some (e_flow e))"
    by (auto simp: cleanup_expired_eq swept_def)
qed

end
