(* ===== verification/Flow_Properties.thy ===== *)
theory Flow_Properties
  imports Flow_Table
begin

text \<open>
  The properties of FlowManager: its invariant under every sequence of operations, its refinement of
  two finite maps, the accounting of packets to conversations and to rate windows, and the safety and
  the progress of the incremental sweep.
\<close>

section \<open>Sequences of operations\<close>

datatype fm_op =
    Observe parsed_packet packet_direction time_point
  | Extract five_tuple
  | Discard u32
  | Cleanup time_point

fun fm_step :: "fm_op \<Rightarrow> flow_manager \<Rightarrow> flow_manager" where
  "fm_step (Observe p d now) fm = snd (observe_packet p d now fm)"
| "fm_step (Extract key) fm = snd (extract_completed key fm)"
| "fm_step (Discard src) fm = discard_source_flows src fm"
| "fm_step (Cleanup now) fm = snd (cleanup_expired now fm)"

definition fm_run :: "fm_op list \<Rightarrow> flow_manager \<Rightarrow> flow_manager" where
  "fm_run ops fm = fold fm_step ops fm"

lemma fm_run_simps [simp]:
  "fm_run [] fm = fm"
  "fm_run (op # ops) fm = fm_run ops (fm_step op fm)"
  by (simp_all add: fm_run_def)

lemma fm_step_inv: "fm_inv fm \<Longrightarrow> fm_inv (fm_step op fm)"
  by (cases op) (simp_all add: observe_packet_inv extract_completed_inv cleanup_expired_inv
      discard_source_flows_refines(3))

lemma fm_run_inv: "fm_inv fm \<Longrightarrow> fm_inv (fm_run ops fm)"
  by (induction ops arbitrary: fm) (simp_all add: fm_step_inv)

text \<open>What the operations leave alone: the limits, the window and the numbers of buckets.\<close>

definition same_shape :: "flow_manager \<Rightarrow> flow_manager \<Rightarrow> bool" where
  "same_shape fm fm' \<longleftrightarrow>
     um_bucket_count (fm_flows fm') = um_bucket_count (fm_flows fm) \<and>
     um_bucket_count (fm_source_stats fm') = um_bucket_count (fm_source_stats fm) \<and>
     fm_max_flows fm' = fm_max_flows fm \<and> fm_max_sources fm' = fm_max_sources fm \<and>
     fm_window_seconds fm' = fm_window_seconds fm"

definition same_cursors :: "flow_manager \<Rightarrow> flow_manager \<Rightarrow> bool" where
  "same_cursors fm fm' \<longleftrightarrow>
     fm_flow_cursor fm' = fm_flow_cursor fm \<and> fm_source_cursor fm' = fm_source_cursor fm"

lemma um_bucket_count_erase_all:
  "um_bucket_count (fold (\<lambda>k m. um_erase h m k) ks m) = um_bucket_count m"
  by (induction ks arbitrary: m) (simp_all add: umap_simps)

lemma update_source_stats_shape:
  "same_shape fm (snd (update_source_stats p now fm)) \<and> same_cursors fm (snd (update_source_stats p now fm))"
  by (auto simp: update_source_stats_eq Let_def same_shape_def same_cursors_def umap_simps split: option.split)

lemma update_flow_shape:
  "same_shape fm (snd (update_flow p d now fm)) \<and> same_cursors fm (snd (update_flow p d now fm))"
  by (auto simp: update_flow_def find_or_open_def Let_def same_shape_def same_cursors_def umap_simps split: option.split)

lemma fm_step_shape: "same_shape fm (fm_step op fm)"
proof (cases op)
  case (Observe p d now)
  then show ?thesis
    using update_flow_shape [of fm p d now] update_source_stats_shape [of "snd (update_flow p d now fm)" p now]
    by (cases d; simp add: observe_packet_split same_shape_def)
qed (auto simp: extract_completed_cases discard_source_flows_def cleanup_expired_eq same_shape_def
      sweep_flows_def sweep_sources_def um_bucket_count_erase_doomed um_bucket_count_erase_all umap_simps
      split: option.split)

lemma fm_step_cursors: "(\<And>now. op \<noteq> Cleanup now) \<Longrightarrow> same_cursors fm (fm_step op fm)"
proof (cases op)
  case (Observe p d now)
  then show ?thesis
    using update_flow_shape [of fm p d now] update_source_stats_shape [of "snd (update_flow p d now fm)" p now]
    by (cases d; simp add: observe_packet_split same_cursors_def)
qed (auto simp: extract_completed_cases discard_source_flows_def same_cursors_def split: option.split)

lemma fm_run_shape: "same_shape fm (fm_run ops fm)"
proof (induction ops arbitrary: fm)
  case (Cons op ops)
  then show ?case using fm_step_shape [of fm op] by (simp add: same_shape_def)
qed (simp add: same_shape_def)

lemma size_le_limit:
  assumes "fm_inv fm"
  shows "um_size (fm_flows fm) \<le> fm_max_flows fm" "um_size (fm_source_stats fm) \<le> fm_max_sources fm"
  using fm_invD(5,6) [OF assms] by (simp_all add: table_ok_def)

text \<open>C8. From construction on, whatever the order of the operations: the tables hold at most
  \<open>max_flows\<close> flows and \<open>max_sources\<close> sources and never exceed the buckets reserved for them, so that
  they are never rehashed and the sweep positions stay valid; every flow is stored under its own
  key; both directions of a conversation never have an entry at the same time; and the index by
  source lists exactly the keys of the flow table, without empty entries. The hypothesis is what the
  library promises of \<open>reserve\<close>.\<close>

theorem flow_manager_invariant:
  assumes "\<And>n. n \<le> reserved n \<and> 0 < reserved n"
  shows "let fm = fm_run ops (new_flow_manager reserved w max_flows max_sources) in
    um_size (fm_flows fm) \<le> max_flows \<and> um_size (fm_source_stats fm) \<le> max_sources \<and>
    um_bucket_count (fm_flows fm) = reserved max_flows \<and>
    um_bucket_count (fm_source_stats fm) = reserved max_sources \<and>
    flows_ok (find_flow fm) \<and> index_ok (dom (find_flow fm)) (fm_flow_keys_by_source fm)"
proof -
  let ?new = "new_flow_manager reserved w max_flows max_sources"
  have inv: "fm_inv (fm_run ops ?new)" by (intro fm_run_inv fm_inv_new assms)
  have "um_bucket_count (fm_flows ?new) = reserved max_flows"
    "um_bucket_count (fm_source_stats ?new) = reserved max_sources"
    "fm_max_flows ?new = max_flows" "fm_max_sources ?new = max_sources"
    by (simp_all add: new_flow_manager_def um_bucket_count_def um_reserve_def)
  with fm_run_shape [of ?new ops] size_le_limit [OF inv] fm_invD(3,4) [OF inv] show ?thesis
    by (simp add: same_shape_def Let_def)
qed

definition syn_packet :: "u32 \<Rightarrow> u16 \<Rightarrow> parsed_packet" where
  "syn_packet src dport =
     \<lparr>tuple = mk_tuple src 1 40000 dport 6, total_len = 40, payload_len = 0, has_ports = True, tcp_flags = 2\<rparr>"

lemma syn_packet_sel [simp]:
  "tuple (syn_packet src dport) = mk_tuple src 1 40000 dport 6"
  "tcp_flags (syn_packet src dport) = 2"
  by (simp_all add: syn_packet_def)

text \<open>Two sources compete for a table of one flow.\<close>

definition sample_manager :: flow_manager where
  "sample_manager = new_flow_manager Suc 10 1 2"

lemma sample_manager_inv: "fm_inv sample_manager"
  unfolding sample_manager_def by (rule fm_inv_new) simp

theorem flow_manager_invariant_witness:
  "um_size (fm_flows (fm_run [Observe (syn_packet 7 80) INBOUND 0, Observe (syn_packet 8 80) INBOUND 1]
     (new_flow_manager Suc 10 1 2))) \<le> 1"
  using flow_manager_invariant [of Suc "[Observe (syn_packet 7 80) INBOUND 0, Observe (syn_packet 8 80) INBOUND 1]" 10 1 2]
  by (simp add: Let_def)

text \<open>C9. The hash tables, the index and the sweep positions are an implementation of two finite
  maps: observing a packet, taking out a completed flow and discarding the flows of a source give
  the results, and have the effects, of the specifications on the maps.\<close>

theorem flow_manager_refines_maps:
  assumes "fm_inv fm"
  shows "(fst (observe_packet p d now fm), fm_abs (snd (observe_packet p d now fm))) =
      spec_observe (fm_max_flows fm) (fm_max_sources fm) (fm_window_seconds fm) p d now (fm_abs fm) \<and>
    (fst (extract_completed key fm), fm_abs (snd (extract_completed key fm))) =
      (fst (spec_extract key (find_flow fm)), (snd (spec_extract key (find_flow fm)), find_source fm)) \<and>
    fm_abs (discard_source_flows src fm) = (spec_discard src (find_flow fm), find_source fm)"
  using observe_packet_refines [OF assms, of p d now] extract_completed_refines [OF assms, of key]
    discard_source_flows_refines [OF assms, of src]
  by (simp add: fm_abs_def)

theorem flow_manager_refines_maps_witness:
  "fm_abs (discard_source_flows 7 sample_manager) =
     (spec_discard 7 (find_flow sample_manager), find_source sample_manager)"
  using flow_manager_refines_maps [OF sample_manager_inv, where src = 7] by blast

section \<open>Packets and conversations\<close>

definition packets :: "flow \<Rightarrow> u64 \<times> u64" where
  "packets f = (rs_count (d_packet_len (f_forward f)), rs_count (d_packet_len (f_backward f)))"

lemma rs_count_update_direction [simp]:
  "rs_count (d_packet_len (update_direction p now d)) = rs_count (d_packet_len d) + 1"
  by (simp add: update_direction_def count_flags_def Let_def)

lemma packets_update:
  "packets (update_flow_stats p fwd now f) =
     (if fwd then (fst (packets f) + 1, snd (packets f)) else (fst (packets f), snd (packets f) + 1))"
  by (simp add: packets_def update_flow_stats_def Let_def)

lemma update_flow_stats_times [simp]:
  "f_last_seen (update_flow_stats p fwd now f) = now"
  "f_first_seen (update_flow_stats p fwd now f) = f_first_seen f"
  by (simp_all add: update_flow_stats_def Let_def)

lemma observe_find_flow:
  assumes "fm_inv fm" "d \<noteq> UNKNOWN"
  shows "find_flow (snd (observe_packet p d now fm)) = snd (spec_flow (fm_max_flows fm) p d now (find_flow fm))"
  using observe_packet_refines [OF assms(1), of p d now] assms(2)
  by (auto simp: fm_abs_def spec_observe_def split_beta Let_def split: if_splits)

lemma get_flow_spec: "get_flow fm key = map_option snd (locate (find_flow fm) key)"
  by (rule get_flow_locate)

text \<open>C34. Direction does not matter to a lookup, and packets are accounted once: after a packet of a
  known conversation, or of a new one while there is room, either key finds the conversation, its
  last activity is the time of the packet, and exactly one counter grew by one, the forward one if
  the packet goes the way of the stored key. The entries of all other conversations are unchanged.\<close>

theorem packet_accounted_once:
  assumes "fm_inv fm" "d \<noteq> UNKNOWN"
    and "get_flow fm (tuple p) \<noteq> None \<or> um_size (fm_flows fm) < fm_max_flows fm"
  shows "let fm' = snd (observe_packet p d now fm) in
    \<exists>f. get_flow fm' (tuple p) = Some f \<and> get_flow fm' (reversed (tuple p)) = Some f \<and>
      f_last_seen f = now \<and>
      packets f = (case get_flow fm (tuple p) of
          None \<Rightarrow> (1, 0)
        | Some g \<Rightarrow> if f_key g = tuple p then (fst (packets g) + 1, snd (packets g))
                    else (fst (packets g), snd (packets g) + 1)) \<and>
      f_first_seen f = (case get_flow fm (tuple p) of None \<Rightarrow> now | Some g \<Rightarrow> f_first_seen g) \<and>
      (\<forall>k. k \<noteq> tuple p \<and> k \<noteq> reversed (tuple p) \<longrightarrow> get_flow fm' k = get_flow fm k)"
proof -
  let ?M = "find_flow fm" and ?fm' = "snd (observe_packet p d now fm)"
  let ?M' = "snd (spec_flow (fm_max_flows fm) p d now ?M)"
  note inv = fm_invD [OF assms(1)]
  have M': "find_flow ?fm' = ?M'" by (rule observe_find_flow [OF assms(1,2)])
  have ok: "flows_ok ?M'"
    using fm_invD(3) [OF observe_packet_inv [OF assms(1), of p d now]] by (simp add: M')
  obtain k g where kg: "?M' = ?M(k \<mapsto> update_flow_stats p (k = tuple p) now g)"
    "k = tuple p \<or> k = reversed (tuple p)" "f_key g = k"
    "case get_flow fm (tuple p) of None \<Rightarrow> k = tuple p \<and> g = open_flow (tuple p) d now | Some h \<Rightarrow> h = g"
  proof (cases "locate ?M (tuple p)")
    case None
    with assms(3) have "card (dom ?M) < fm_max_flows fm"
      by (simp add: get_flow_locate um_size_card [OF inv(1)])
    with None that [of "tuple p" "open_flow (tuple p) d now"] show ?thesis
      by (simp add: spec_flow_def get_flow_locate Let_def)
  next
    case (Some kg)
    obtain k g where kg: "kg = (k, g)" by (cases kg)
    with Some locate_Some [of ?M "tuple p" k g] inv(3) that [of k g] show ?thesis
      by (auto simp: spec_flow_def get_flow_locate Let_def dest: flows_okD)
  qed
  let ?f = "update_flow_stats p (k = tuple p) now g"
  have "locate ?M' k = Some (k, ?f)" using kg(1) by (simp add: locate_def)
  then have loc: "locate ?M' (tuple p) = Some (k, ?f)" "locate ?M' (reversed (tuple p)) = Some (k, ?f)"
    using kg(2) locate_reversed [OF ok, of "tuple p"] by auto
  have other: "get_flow ?fm' j = get_flow fm j" if "j \<noteq> tuple p" "j \<noteq> reversed (tuple p)" for j
  proof -
    have "j \<noteq> k" "reversed j \<noteq> k" using that kg(2) by (metis reversed_reversed)+
    then show ?thesis by (simp add: get_flow_def M' kg(1) split: option.split)
  qed
  have new: "packets (open_flow (tuple p) d now) = (0, 0)"
    "f_first_seen (open_flow (tuple p) d now) = now"
    by (simp_all add: packets_def open_flow_def direction_empty_def rs_empty_def)
  show ?thesis
    unfolding Let_def
  proof (intro exI [of _ ?f] conjI)
    show "packets ?f = (case get_flow fm (tuple p) of
          None \<Rightarrow> (1, 0)
        | Some g \<Rightarrow> if f_key g = tuple p then (fst (packets g) + 1, snd (packets g))
                    else (fst (packets g), snd (packets g) + 1))"
      using kg new by (cases "get_flow fm (tuple p)") (simp_all add: packets_update)
    show "f_first_seen ?f = (case get_flow fm (tuple p) of None \<Rightarrow> now | Some g \<Rightarrow> f_first_seen g)"
      using kg new by (cases "get_flow fm (tuple p)") simp_all
  qed (use loc other in \<open>auto simp: get_flow_locate M'\<close>)
qed

lemma sample_manager_room: "um_size (fm_flows sample_manager) < fm_max_flows sample_manager"
  by (simp add: sample_manager_def new_flow_manager_def um_size_def um_reserve_def)

theorem packet_accounted_once_witness:
  "get_flow (snd (observe_packet (syn_packet 7 80) INBOUND 5 sample_manager)) (mk_tuple 1 7 80 40000 6) \<noteq> None"
  using packet_accounted_once [OF sample_manager_inv, of INBOUND "syn_packet 7 80" 5] sample_manager_room
  by (auto simp: Let_def reversed_def)

section \<open>Rate windows\<close>

text \<open>A run of packets of one source, each with its time.\<close>

definition rate_run :: "(time_point \<times> parsed_packet) list \<Rightarrow> flow_manager \<Rightarrow> flow_manager" where
  "rate_run ps fm = fold (\<lambda>(t, p) fm. snd (update_source_stats p t fm)) ps fm"

lemma find_source_update:
  assumes "fm_inv fm"
  shows "find_source (snd (update_source_stats p now fm)) =
    (find_source fm)(src_ip (tuple p) :=
      next_source (fm_max_sources fm \<le> um_size (fm_source_stats fm)) (fm_window_seconds fm) p now
        (find_source fm (src_ip (tuple p))))"
  using update_source_stats_refines [OF assms, of p now] um_size_card [OF fm_invD(2) [OF assms]]
  by (simp add: spec_source_def Let_def)

definition window_stats :: "time_point \<Rightarrow> (time_point \<times> parsed_packet) list \<Rightarrow> source_stats" where
  "window_stats t0 ps =
     \<lparr>recent_dst_ports = (\<lambda>(t, p). dst_port (tuple p)) ` set ps,
      syn_count = of_nat (length (filter (\<lambda>(t, p). has_flag (tcp_flags p) TH_SYN) ps)),
      window_start = t0\<rparr>"

lemma window_stats_snoc:
  "count_source_packet p (window_stats t0 ps) = window_stats t0 (ps @ [(t, p)])"
  by (simp add: count_source_packet_def window_stats_def Let_def)

lemma window_stats_Nil: "fresh_source t0 = window_stats t0 []"
  by (simp add: fresh_source_def source_stats_empty_def window_stats_def)

lemma rate_run_inv: "fm_inv fm \<Longrightarrow> fm_inv (rate_run ps fm)"
  unfolding rate_run_def
  by (induction ps arbitrary: fm) (auto simp: update_source_stats_inv)

lemma rate_run_window:
  assumes "fm_inv fm" "find_source fm src = Some (window_stats t0 qs)"
    "\<forall>(t, p) \<in> set ps. src_ip (tuple p) = src \<and> t < t0 + seconds (fm_window_seconds fm)"
  shows "find_source (rate_run ps fm) src = Some (window_stats t0 (qs @ ps))"
  using assms
proof (induction ps arbitrary: fm qs)
  case (Cons tp ps)
  obtain t p where tp: "tp = (t, p)" by (cases tp)
  let ?fm = "snd (update_source_stats p t fm)"
  have src: "src_ip (tuple p) = src" "t < t0 + seconds (fm_window_seconds fm)" using Cons.prems(3) tp by auto
  have "find_source ?fm src = Some (window_stats t0 (qs @ [tp]))"
    using src Cons.prems(2) window_stats_snoc [of p t0 qs t]
    by (simp add: find_source_update [OF Cons.prems(1)] next_source_def tp window_stats_def)
  moreover have "\<forall>(t, p) \<in> set ps. src_ip (tuple p) = src \<and> t < t0 + seconds (fm_window_seconds ?fm)"
    using Cons.prems(3) by (auto simp: update_source_stats_frame)
  ultimately have "find_source (rate_run ps ?fm) src = Some (window_stats t0 ((qs @ [tp]) @ ps))"
    by (intro Cons.IH update_source_stats_inv Cons.prems(1))
  then show ?case by (simp add: rate_run_def tp)
qed (simp add: rate_run_def)

text \<open>C35. A rate window counts exactly its packets: a source that has no statistics, or whose window
  is over, starts a window with its next packet at \<open>t0\<close>; after any further packets of it earlier than
  the end of that window, the ports are the destination ports of exactly these packets and the
  counter the number of those with SYN set (below \<open>2 ^ 32\<close>), also when other flags are set.\<close>

theorem rate_window_exact:
  assumes "fm_inv fm"
    and "case find_source fm src of
        None \<Rightarrow> um_size (fm_source_stats fm) < fm_max_sources fm
      | Some s \<Rightarrow> t0 - window_start s \<ge> seconds (fm_window_seconds fm)"
    and "src_ip (tuple p0) = src"
    and "\<And>t p. (t, p) \<in> set ps \<Longrightarrow> src_ip (tuple p) = src \<and> t < t0 + seconds (fm_window_seconds fm)"
  shows "find_source (rate_run ((t0, p0) # ps) fm) src =
    Some \<lparr>recent_dst_ports = (\<lambda>(t, p). dst_port (tuple p)) ` set ((t0, p0) # ps),
          syn_count = of_nat (length (filter (\<lambda>(t, p). has_flag (tcp_flags p) TH_SYN) ((t0, p0) # ps))),
          window_start = t0\<rparr>"
proof -
  let ?fm = "snd (update_source_stats p0 t0 fm)"
  have "find_source ?fm src = Some (count_source_packet p0 (fresh_source t0))"
    using assms(2,3) by (auto simp: find_source_update [OF assms(1)] next_source_def split: option.splits)
  then have "find_source ?fm src = Some (window_stats t0 [(t0, p0)])"
    by (simp only: window_stats_Nil window_stats_snoc [of _ _ _ t0] append_Nil)
  then have "find_source (rate_run ps ?fm) src = Some (window_stats t0 ([(t0, p0)] @ ps))"
    using assms(1,4) by (intro rate_run_window update_source_stats_inv) (auto simp: update_source_stats_frame)
  then show ?thesis by (simp add: rate_run_def window_stats_def)
qed

lemma sample_manager_sources:
  "find_source sample_manager src = None" "um_size (fm_source_stats sample_manager) = 0"
  "fm_max_sources sample_manager = 2" "fm_window_seconds sample_manager = 10"
  by (simp_all add: sample_manager_def new_flow_manager_def um_find_reserve)
     (simp add: um_size_def um_reserve_def)

theorem rate_window_exact_witness:
  "find_source (rate_run [(0, syn_packet 7 22), (seconds 9, syn_packet 7 80)] sample_manager) 7 =
     Some \<lparr>recent_dst_ports = {22, 80}, syn_count = 2, window_start = 0\<rparr>"
proof -
  have "find_source (rate_run ((0, syn_packet 7 22) # [(seconds 9, syn_packet 7 80)]) sample_manager) 7 =
    Some \<lparr>recent_dst_ports = (\<lambda>(t, p). dst_port (tuple p)) ` set [(0, syn_packet 7 22), (seconds 9, syn_packet 7 80)],
          syn_count = of_nat (length (filter (\<lambda>(t, p). has_flag (tcp_flags p) TH_SYN)
            [(0, syn_packet 7 22), (seconds 9, syn_packet 7 80)])),
          window_start = 0\<rparr>"
    by (rule rate_window_exact [OF sample_manager_inv])
       (auto simp: sample_manager_sources seconds_def)
  then show ?thesis by (simp add: has_flag_def TH_SYN_def)
qed

text \<open>Rate detection does not depend on room for flows: when the flow table is full and the
  conversation is new, an inbound packet leaves the flows alone and still updates the statistics of
  its source; an outbound one changes nothing.\<close>

theorem full_table_keeps_detection:
  assumes "fm_inv fm" "um_size (fm_flows fm) \<ge> fm_max_flows fm" "get_flow fm (tuple p) = None"
  shows "observe_packet p INBOUND now fm = update_source_stats p now fm \<and>
    observe_packet p OUTBOUND now fm = (None, fm)"
proof -
  have "locate (find_flow fm) (tuple p) = None" using assms(3) by (simp add: get_flow_locate)
  then have "update_flow p d now fm = (None, fm)" for d
    using assms(2) by (simp add: update_flow_def find_or_open_def locate_None)
  then show ?thesis by (simp add: observe_packet_split)
qed

theorem full_table_keeps_detection_witness:
  "observe_packet (syn_packet 7 80) OUTBOUND 5 (new_flow_manager Suc 10 0 2) = (None, new_flow_manager Suc 10 0 2)"
proof -
  have "fm_inv (new_flow_manager Suc 10 0 2)" by (rule fm_inv_new) simp
  then show ?thesis
    using full_table_keeps_detection [of "new_flow_manager Suc 10 0 2" "syn_packet 7 80" 5]
    by (simp add: get_flow_def new_flow_manager_def um_find_reserve)
qed

section \<open>Ended conversations\<close>

text \<open>A conversation is taken out exactly when it has ended: with \<open>TCP_RESET\<close> when either side
  has sent RST, else with \<open>TCP_FIN\<close> when the closing handshake is complete, under either key; then it
  is gone and everything else is untouched. Otherwise nothing changes.\<close>

theorem extract_completed_exact:
  assumes "fm_inv fm"
  shows "case extract_completed key fm of
      (None, fm') \<Rightarrow> fm' = fm \<and>
        (case get_flow fm key of None \<Rightarrow> True
         | Some f \<Rightarrow> d_rst (f_forward f) = 0 \<and> d_rst (f_backward f) = 0 \<and> \<not> f_fin_handshake_complete f)
    | (Some e, fm') \<Rightarrow>
        get_flow fm key = Some (e_flow e) \<and> get_flow fm' key = None \<and>
        (\<forall>k. k \<noteq> key \<and> k \<noteq> reversed key \<longrightarrow> find_flow fm' k = find_flow fm k) \<and>
        e_reason e = (if d_rst (f_forward (e_flow e)) > 0 \<or> d_rst (f_backward (e_flow e)) > 0
                      then TCP_RESET else TCP_FIN) \<and>
        (e_reason e = TCP_FIN \<longrightarrow> f_fin_handshake_complete (e_flow e))"
proof (cases "locate (find_flow fm) key")
  case None
  then show ?thesis by (simp add: extract_completed_cases get_flow_locate)
next
  case (Some kf)
  obtain k f where kf: "kf = (k, f)" by (cases kf)
  with Some have loc: "locate (find_flow fm) key = Some (k, f)" by simp
  note k = locate_Some [OF loc]
  have gone: "locate ((find_flow fm)(k := None)) key = None"
  proof -
    have "find_flow fm (reversed key) = None \<or> reversed key = key" if "k = key"
      using k that fm_invD(3) [OF assms] by (auto simp: flows_ok_def)
    with k show ?thesis by (auto simp: locate_None)
  qed
  show ?thesis
  proof (cases "end_reason f")
    case None
    then show ?thesis
      using loc by (simp add: extract_completed_cases get_flow_locate end_reason_def word_gt_0 split: if_splits)
  next
    case (Some r)
    then have "r = (if d_rst (f_forward f) > 0 \<or> d_rst (f_backward f) > 0 then TCP_RESET else TCP_FIN)"
      "r = TCP_FIN \<longrightarrow> f_fin_handshake_complete f"
      by (auto simp: end_reason_def split: if_splits)
    moreover have "\<forall>j. j \<noteq> key \<and> j \<noteq> reversed key \<longrightarrow> j \<noteq> k" using k by auto
    ultimately show ?thesis
      using Some loc gone fm_invD(1) [OF assms]
      by (simp add: extract_completed_cases get_flow_locate um_store)
  qed
qed

theorem extract_completed_exact_witness:
  "case extract_completed (mk_tuple 7 1 40000 80 6) sample_manager of
     (None, fm') \<Rightarrow> fm' = sample_manager | (Some e, fm') \<Rightarrow> False"
proof -
  have "extract_completed (mk_tuple 7 1 40000 80 6) sample_manager = (None, sample_manager)"
    by (simp add: extract_completed_cases locate_def sample_manager_def new_flow_manager_def um_find_reserve)
  with extract_completed_exact [OF sample_manager_inv, of "mk_tuple 7 1 40000 80 6"] show ?thesis by simp
qed

text \<open>Blocking a source discards all the flows it opened and nothing else: its flows are gone under
  their keys, the flows opened by others (also those towards it) and all rate statistics stay.\<close>

theorem discard_source_exact:
  assumes "fm_inv fm"
  shows "let fm' = discard_source_flows src fm in
    (\<forall>k. find_flow fm' k = (if src_ip k = src then None else find_flow fm k)) \<and>
    (\<forall>ip. find_source fm' ip = find_source fm ip) \<and>
    fm_flow_keys_by_source fm' src = None"
proof -
  have "fm_flow_keys_by_source (discard_source_flows src fm) src = None"
    by (simp add: discard_source_flows_def split: option.split)
  then show ?thesis
    using discard_source_flows_refines [OF assms, of src] by (simp add: spec_discard_def Let_def)
qed

theorem discard_source_exact_witness:
  "find_flow (discard_source_flows 7 (fm_step (Observe (syn_packet 7 80) INBOUND 0) sample_manager))
     (mk_tuple 7 1 40000 80 6) = None"
  using discard_source_exact [OF fm_step_inv [OF sample_manager_inv], of 7 "Observe (syn_packet 7 80) INBOUND 0"]
  by (simp add: Let_def)

section \<open>The sweep is safe\<close>

lemma doomed_flow_expired:
  assumes "fm_inv fm" "k \<in> doomed_flows now fm"
  shows "\<exists>f. find_flow fm k = Some f \<and> flow_expired now f"
  using assms(2) unfolding doomed_flows_def doomed_keys_iff [OF fm_invD(1) [OF assms(1)]] by blast

lemma doomed_source_expired:
  assumes "fm_inv fm" "k \<in> doomed_sources now fm"
  shows "\<exists>s. find_source fm k = Some s \<and> source_expired (fm_window_seconds fm) now s"
  using assms(2) unfolding doomed_sources_def doomed_keys_iff [OF fm_invD(2) [OF assms(1)]] by blast

text \<open>A tick never loses a live flow and reports each flow it removes: the reported flows are those
  removed from the table, each once, all with reason \<open>TIMEOUT\<close> and without a packet for at least 60
  seconds; every other flow is still there unchanged.\<close>

theorem cleanup_safe:
  assumes "fm_inv fm"
  shows "let (ended, fm') = cleanup_expired now fm in
    distinct (map (\<lambda>e. f_key (e_flow e)) ended) \<and>
    (\<forall>e. e \<in> set ended \<longleftrightarrow> e_reason e = TIMEOUT \<and>
       find_flow fm (f_key (e_flow e)) = Some (e_flow e) \<and> find_flow fm' (f_key (e_flow e)) = None) \<and>
    (\<forall>e. e \<in> set ended \<longrightarrow> now - f_last_seen (e_flow e) \<ge> seconds 60) \<and>
    (\<forall>k. find_flow fm' k = find_flow fm k \<or> find_flow fm' k = None) \<and>
    (\<forall>k f. find_flow fm k = Some f \<and> now - f_last_seen f < seconds 60 \<longrightarrow> find_flow fm' k = Some f)"
proof -
  note find = cleanup_expired_find(1) [OF assms, of now]
  have rep: "e \<in> set (fst (cleanup_expired now fm)) \<longleftrightarrow> e_reason e = TIMEOUT \<and>
      find_flow fm (f_key (e_flow e)) = Some (e_flow e) \<and> f_key (e_flow e) \<in> doomed_flows now fm" for e
    using cleanup_expired_reports(2) [OF assms, of e now] flows_okD [OF fm_invD(3) [OF assms]] by auto
  have idle: "now - f_last_seen f \<ge> seconds 60" if "k \<in> doomed_flows now fm" "find_flow fm k = Some f" for k f
    using doomed_flow_expired [OF assms that(1)] that(2) by (simp add: flow_expired_def FLOW_TIMEOUT_SEC_def)
  then have live: "k \<notin> doomed_flows now fm" if "find_flow fm k = Some f" "now - f_last_seen f < seconds 60" for k f
    using that by (metis not_le)
  from idle rep have "\<forall>e. e \<in> set (fst (cleanup_expired now fm)) \<longrightarrow> now - f_last_seen (e_flow e) \<ge> seconds 60"
    by blast
  with rep live cleanup_expired_reports(1) [OF assms, of now] show ?thesis
    by (auto simp: split_beta Let_def find)
qed

theorem cleanup_safe_witness:
  "fst (cleanup_expired 0 sample_manager) = []"
proof -
  have "e \<notin> set (fst (cleanup_expired 0 sample_manager))" for e
    using cleanup_safe [OF sample_manager_inv, of 0]
    by (auto simp: split_beta Let_def sample_manager_def new_flow_manager_def um_find_reserve)
  then show ?thesis by (metis last_in_set)
qed

text \<open>Removing the statistics of a source whose window is over, sooner or later, never changes a
  verdict: a tick removes only such entries, and the next packet of the source, at or after the time
  of the tick, gives the same statistics whether the entry was removed or not (if the
  source is new there has to be room for it; removing entries only makes room).\<close>

theorem source_expiry_unobservable:
  assumes "fm_inv fm" "now \<le> t"
    and "find_source fm (src_ip (tuple p)) \<noteq> None \<or> um_size (fm_source_stats fm) < fm_max_sources fm"
  shows "fst (update_source_stats p t (snd (cleanup_expired now fm))) = fst (update_source_stats p t fm)"
proof -
  let ?fm = "snd (cleanup_expired now fm)" and ?src = "src_ip (tuple p)"
  have inv: "fm_inv ?fm" by (rule cleanup_expired_inv [OF assms(1)])
  note size = um_size_card [OF fm_invD(2) [OF inv]] um_size_card [OF fm_invD(2) [OF assms(1)]]
  note fin = tab.finite_dom [OF fm_invD(2) [OF assms(1)]]
  have dom: "dom (find_source ?fm) = dom (find_source fm) - doomed_sources now fm"
    by (auto simp: cleanup_expired_find [OF assms(1)] split: if_splits)
  have le: "um_size (fm_source_stats ?fm) \<le> um_size (fm_source_stats fm)"
    unfolding size dom by (rule card_mono [OF fin]) auto
  have lim: "fm_max_sources ?fm = fm_max_sources fm" "fm_window_seconds ?fm = fm_window_seconds fm"
    using fm_step_shape [of fm "Cleanup now"] by (simp_all add: same_shape_def)
  show ?thesis
  proof (cases "?src \<in> doomed_sources now fm")
    case True
    then obtain s where s: "find_source fm ?src = Some s" "now - window_start s \<ge> seconds (fm_window_seconds fm)"
      using doomed_source_expired [OF assms(1)] by (auto simp: source_expired_def)
    with assms(2) have "t - window_start s \<ge> seconds (fm_window_seconds fm)" by linarith
    moreover have "um_size (fm_source_stats ?fm) < um_size (fm_source_stats fm)"
      unfolding size dom using True s(1) by (intro psubset_card_mono [OF fin]) auto
    then have "\<not> fm_max_sources fm \<le> um_size (fm_source_stats ?fm)"
      using size_le_limit(2) [OF assms(1)] by simp
    ultimately show ?thesis using s True lim
      by (simp add: update_source_stats_eq Let_def next_source_def cleanup_expired_find(2) [OF assms(1)])
  next
    case False
    with le lim assms(3) show ?thesis
      by (auto simp: update_source_stats_eq Let_def next_source_def cleanup_expired_find(2) [OF assms(1)])
  qed
qed

theorem source_expiry_unobservable_witness:
  "fst (update_source_stats (syn_packet 7 80) 20 (snd (cleanup_expired 10 sample_manager))) =
   fst (update_source_stats (syn_packet 7 80) 20 sample_manager)"
  using source_expiry_unobservable [OF sample_manager_inv, of 10 20 "syn_packet 7 80"]
  by (simp add: sample_manager_sources)

section \<open>The sweep makes progress\<close>

text \<open>An operation that is not a packet of the conversation \<open>k\<close>.\<close>

fun foreign :: "five_tuple \<Rightarrow> fm_op \<Rightarrow> bool" where
  "foreign k (Observe p d now) \<longleftrightarrow> tuple p \<noteq> k \<and> tuple p \<noteq> reversed k"
| "foreign k _ \<longleftrightarrow> True"

lemma foreign_reversed: "foreign (reversed k) op = foreign k op"
  by (cases op) auto

definition ticks :: "fm_op list \<Rightarrow> nat" where
  "ticks ops = length (filter (\<lambda>op. case op of Cleanup _ \<Rightarrow> True | _ \<Rightarrow> False) ops)"

lemma ticks_simps [simp]:
  "ticks [] = 0"
  "ticks (op # ops) = (case op of Cleanup _ \<Rightarrow> 1 | _ \<Rightarrow> 0) + ticks ops"
  by (simp_all add: ticks_def split: fm_op.split)

lemma foreign_step:
  assumes "fm_inv fm" "foreign k op"
  shows "find_flow (fm_step op fm) k = find_flow fm k \<or> find_flow (fm_step op fm) k = None"
proof (cases op)
  case (Observe p d now)
  then have k: "k \<noteq> tuple p" "k \<noteq> reversed (tuple p)" using assms(2) by auto
  show ?thesis
  proof (cases "d = UNKNOWN")
    case True
    with Observe show ?thesis by (simp add: observe_packet_split)
  next
    case False
    have "snd (spec_flow (fm_max_flows fm) p d now (find_flow fm)) k = find_flow fm k"
      using k by (auto simp: spec_flow_def Let_def split: option.split dest: locate_Some)
    with Observe show ?thesis by (simp add: observe_find_flow [OF assms(1) False])
  qed
next
  case (Extract key)
  then show ?thesis
    using fm_invD(1) [OF assms(1)] by (auto simp: extract_completed_cases um_store split: option.split)
next
  case (Discard src)
  then show ?thesis by (simp add: discard_source_flows_refines [OF assms(1)] spec_discard_def)
next
  case (Cleanup now)
  then show ?thesis by (simp add: cleanup_expired_find [OF assms(1)])
qed

lemma foreign_run_None:
  assumes "fm_inv fm" "\<forall>op \<in> set ops. foreign k op" "find_flow fm k = None"
  shows "find_flow (fm_run ops fm) k = None"
  using assms
proof (induction ops arbitrary: fm)
  case (Cons op ops)
  then have "find_flow (fm_step op fm) k = None" using foreign_step [of fm k op] by auto
  then show ?case using Cons by (simp add: fm_step_inv)
qed simp

definition bucket_of :: "flow_manager \<Rightarrow> five_tuple \<Rightarrow> nat" where
  "bucket_of fm k = um_bucket five_tuple_hash (fm_flows fm) k"

lemma bucket_of_step: "bucket_of (fm_step op fm) k = bucket_of fm k"
  using fm_step_shape [of fm op] by (simp add: bucket_of_def um_bucket_def same_shape_def um_bucket_count_def)

lemma cleanup_removes:
  assumes "fm_inv fm" "find_flow fm k = Some f" "flow_expired now f"
    "bucket_of fm k = (fm_flow_cursor fm + i) mod um_bucket_count (fm_flows fm)"
    "i < sweep_quota (um_bucket_count (fm_flows fm))"
  shows "find_flow (snd (cleanup_expired now fm)) k = None"
proof -
  have "k \<in> doomed_flows now fm"
    using assms(2-5) unfolding doomed_flows_def doomed_keys_iff [OF fm_invD(1) [OF assms(1)]] bucket_of_def
    by blast
  then show ?thesis by (simp add: cleanup_expired_find [OF assms(1)])
qed

lemma sweep_reaches:
  assumes "fm_inv fm" "\<forall>op \<in> set ops. foreign k op"
    "\<forall>now f. Cleanup now \<in> set ops \<longrightarrow> find_flow fm k = Some f \<longrightarrow> flow_expired now f"
    "bucket_of fm k = (fm_flow_cursor fm + i) mod um_bucket_count (fm_flows fm)"
    "i < ticks ops * sweep_quota (um_bucket_count (fm_flows fm))"
  shows "find_flow (fm_run ops fm) k = None"
  using assms
proof (induction ops arbitrary: fm i)
  case (Cons op ops)
  let ?fm = "fm_step op fm" and ?b = "um_bucket_count (fm_flows fm)"
  have inv: "fm_inv ?fm" and foreign: "\<forall>op \<in> set ops. foreign k op"
    using Cons.prems(1,2) by (simp_all add: fm_step_inv)
  have b: "um_bucket_count (fm_flows ?fm) = ?b" using fm_step_shape [of fm op] by (simp add: same_shape_def)
  show ?case
  proof (cases "find_flow ?fm k")
    case None
    then show ?thesis using foreign_run_None [OF inv foreign] by simp
  next
    case (Some f)
    then have f: "find_flow fm k = Some f" using foreign_step [of fm k op] Cons.prems(1,2) by auto
    have exp: "\<forall>now f. Cleanup now \<in> set ops \<longrightarrow> find_flow ?fm k = Some f \<longrightarrow> flow_expired now f"
      using Cons.prems(3) f Some by auto
    show ?thesis
    proof (cases "\<exists>now. op = Cleanup now")
      case True
      then obtain now where op: "op = Cleanup now" by blast
      have t: "ticks (op # ops) = Suc (ticks ops)" by (simp add: op)
      have late: "\<not> i < sweep_quota ?b"
        using Some f Cons.prems op cleanup_removes [of fm k f now i] by auto
      have cur: "fm_flow_cursor ?fm = (fm_flow_cursor fm + sweep_quota ?b) mod ?b"
        by (simp add: op cleanup_expired_eq)
      then have "(fm_flow_cursor ?fm + (i - sweep_quota ?b)) mod ?b = (fm_flow_cursor fm + i) mod ?b"
      proof -
        have "fm_flow_cursor fm + sweep_quota ?b + (i - sweep_quota ?b) = fm_flow_cursor fm + i"
          using late by simp
        with cur show ?thesis by (simp only: mod_add_left_eq)
      qed
      then have "find_flow (fm_run ops ?fm) k = None"
        using Cons.prems(4) Cons.prems(5) [unfolded t] late
        by (intro Cons.IH [OF inv foreign exp, of "i - sweep_quota ?b"]) (simp_all add: b bucket_of_step del: fm_step.simps)
      then show ?thesis by simp
    next
      case False
      then have c: "fm_flow_cursor ?fm = fm_flow_cursor fm"
        using fm_step_cursors [of op fm] by (simp add: same_cursors_def)
      have "ticks (op # ops) = ticks ops" using False by (cases op) auto
      then have "find_flow (fm_run ops ?fm) k = None"
        using Cons.prems(4,5) c by (intro Cons.IH [OF inv foreign exp, of i]) (simp_all add: b bucket_of_step)
      then show ?thesis by simp
    qed
  qed
qed simp

lemma eleven_ticks: "0 < b \<Longrightarrow> b \<le> 11 * sweep_quota b"
  unfolding sweep_quota_def by (cases "b \<le> 704") (simp_all add: max_def, linarith)

lemma bucket_offset:
  assumes "fm_inv fm"
  shows "\<exists>i < um_bucket_count (fm_flows fm).
    bucket_of fm k = (fm_flow_cursor fm + i) mod um_bucket_count (fm_flows fm)"
proof -
  let ?b = "um_bucket_count (fm_flows fm)" and ?c = "fm_flow_cursor fm"
  have c: "?c < ?b" using fm_invD(5) [OF assms] by (simp add: table_ok_def)
  then have "0 < length (fm_flows fm)" by (auto simp: um_bucket_count_def)
  then have x: "bucket_of fm k < ?b"
    by (simp add: bucket_of_def um_bucket_def um_bucket_count_def)
  show ?thesis
  proof (cases "?c \<le> bucket_of fm k")
    case True
    with x show ?thesis by (intro exI [of _ "bucket_of fm k - ?c"]) simp
  next
    case False
    with x c have "?c + (?b + bucket_of fm k - ?c) = ?b + bucket_of fm k" by simp
    with x c False show ?thesis by (intro exI [of _ "?b + bucket_of fm k - ?c"]) simp
  qed
qed

text \<open>C28. A silent flow does not stay: in any sequence of operations with at least 11 ticks, whatever
  packets of other conversations, completions and discards are interleaved, a flow without packets
  whose last activity is 60 seconds before each tick is gone at the end. The same holds already
  after \<open>n\<close> ticks when \<open>n\<close> times the quota reaches the number of buckets.\<close>

theorem idle_flow_collected:
  assumes "fm_inv fm" "find_flow fm k = Some f"
    and "\<And>op. op \<in> set ops \<Longrightarrow> foreign k op"
    and "\<And>now. Cleanup now \<in> set ops \<Longrightarrow> now - f_last_seen f \<ge> seconds FLOW_TIMEOUT_SEC"
    and "11 \<le> ticks ops \<or> um_bucket_count (fm_flows fm) \<le> ticks ops * sweep_quota (um_bucket_count (fm_flows fm))"
  shows "get_flow (fm_run ops fm) k = None"
proof -
  let ?b = "um_bucket_count (fm_flows fm)"
  have "0 < ?b" using fm_invD(5) [OF assms(1)] by (auto simp: table_ok_def)
  then have enough: "?b \<le> ticks ops * sweep_quota ?b"
    using assms(5) order_trans [OF eleven_ticks mult_le_mono1] by blast
  obtain i where "i < ?b" "bucket_of fm k = (fm_flow_cursor fm + i) mod ?b"
    using bucket_offset [OF assms(1)] by blast
  then have gone: "find_flow (fm_run ops fm) k = None"
    using assms(1-4) enough by (intro sweep_reaches [where i = i]) (auto simp: flow_expired_def)
  have rev: "\<forall>op \<in> set ops. foreign (reversed k) op"
    using assms(3) by (simp add: foreign_reversed)
  show ?thesis
  proof (cases "reversed k = k")
    case True
    with gone show ?thesis by (simp add: get_flow_def)
  next
    case False
    then have "find_flow fm (reversed k) = None"
      using fm_invD(3) [OF assms(1)] assms(2) by (auto simp: flows_ok_def)
    with gone show ?thesis
      using foreign_run_None [OF assms(1) rev] by (simp add: get_flow_def)
  qed
qed

definition one_flow_manager :: "nat \<Rightarrow> parsed_packet \<Rightarrow> flow_manager" where
  "one_flow_manager max_flows p = fm_step (Observe p INBOUND 0) (new_flow_manager Suc 10 max_flows 2)"

lemma one_flow_manager_facts:
  assumes "0 < n"
  shows "fm_inv (one_flow_manager n p)"
    "find_flow (one_flow_manager n p) (tuple p) = Some (update_flow_stats p True 0 (open_flow (tuple p) INBOUND 0))"
    "um_bucket_count (fm_flows (one_flow_manager n p)) = Suc n"
    "fm_flow_cursor (one_flow_manager n p) = 0"
proof -
  let ?new = "new_flow_manager Suc 10 n 2"
  have inv: "fm_inv ?new" by (rule fm_inv_new) simp
  then show "fm_inv (one_flow_manager n p)" unfolding one_flow_manager_def by (rule fm_step_inv)
  have none: "find_flow ?new = (\<lambda>_. None)" by (simp add: new_flow_manager_def um_find_reserve)
  show "find_flow (one_flow_manager n p) (tuple p) = Some (update_flow_stats p True 0 (open_flow (tuple p) INBOUND 0))"
    using assms
    by (simp add: one_flow_manager_def observe_find_flow [OF inv] none spec_flow_def locate_def Let_def)
       (simp add: new_flow_manager_def)
  have "um_bucket_count (fm_flows ?new) = Suc n" "fm_flow_cursor ?new = 0"
    by (simp_all add: new_flow_manager_def um_bucket_count_def um_reserve_def)
  then show "um_bucket_count (fm_flows (one_flow_manager n p)) = Suc n" "fm_flow_cursor (one_flow_manager n p) = 0"
    using fm_step_shape [of ?new "Observe p INBOUND 0"] fm_step_cursors [of "Observe p INBOUND 0" ?new]
    by (simp_all add: one_flow_manager_def same_shape_def same_cursors_def)
qed

theorem idle_flow_collected_witness:
  "get_flow (fm_run [Observe (syn_packet 9 80) INBOUND 5, Cleanup (seconds 60)] (one_flow_manager 1 (syn_packet 7 80)))
     (tuple (syn_packet 7 80)) = None"
proof (rule idle_flow_collected)
  note facts = one_flow_manager_facts [of 1 "syn_packet 7 80"]
  show "fm_inv (one_flow_manager 1 (syn_packet 7 80))" by (rule facts) simp
  show "find_flow (one_flow_manager 1 (syn_packet 7 80)) (tuple (syn_packet 7 80)) =
      Some (update_flow_stats (syn_packet 7 80) True 0 (open_flow (tuple (syn_packet 7 80)) INBOUND 0))"
    by (rule facts) simp
  show "11 \<le> ticks [Observe (syn_packet 9 80) INBOUND 5, Cleanup (seconds 60)] \<or>
    um_bucket_count (fm_flows (one_flow_manager 1 (syn_packet 7 80))) \<le>
      ticks [Observe (syn_packet 9 80) INBOUND 5, Cleanup (seconds 60)] *
      sweep_quota (um_bucket_count (fm_flows (one_flow_manager 1 (syn_packet 7 80))))"
    using facts(3) by (simp add: sweep_quota_def)
qed (auto simp: reversed_def FLOW_TIMEOUT_SEC_def)

text \<open>How far the sweep has not come yet.\<close>

lemma sweep_not_reached:
  assumes "fm_inv fm" "find_flow fm k = Some f"
    "bucket_of fm k = (fm_flow_cursor fm + i) mod um_bucket_count (fm_flows fm)"
    "i < um_bucket_count (fm_flows fm)" "n * sweep_quota (um_bucket_count (fm_flows fm)) \<le> i"
  shows "find_flow (fm_run (replicate n (Cleanup now)) fm) k = Some f"
  using assms
proof (induction n arbitrary: fm i)
  case (Suc n)
  let ?fm = "fm_step (Cleanup now) fm" and ?b = "um_bucket_count (fm_flows fm)"
  let ?q = "sweep_quota ?b"
  have q: "?q \<le> i" using Suc.prems(5) by simp
  have b: "um_bucket_count (fm_flows ?fm) = ?b" using fm_step_shape [of fm "Cleanup now"] by (simp add: same_shape_def)
  have "k \<notin> doomed_flows now fm"
  proof
    assume "k \<in> doomed_flows now fm"
    then obtain j where "j < ?q" "bucket_of fm k = (fm_flow_cursor fm + j) mod ?b"
      unfolding doomed_flows_def doomed_keys_iff [OF fm_invD(1) [OF Suc.prems(1)]] bucket_of_def by blast
    then have "(fm_flow_cursor fm + j) mod ?b = (fm_flow_cursor fm + i) mod ?b" "j < i" "i < ?b"
      using Suc.prems(3,4) q by simp_all
    then have "?b dvd (fm_flow_cursor fm + i) - (fm_flow_cursor fm + j)"
      by (metis add_left_mono mod_eq_dvd_iff_nat nat_less_le)
    then have "?b dvd i - j" by simp
    with \<open>j < i\<close> \<open>i < ?b\<close> show False by (auto dest: dvd_imp_le)
  qed
  then have f: "find_flow ?fm k = Some f"
    using Suc.prems(2) by (simp add: cleanup_expired_find [OF Suc.prems(1)])
  have "(fm_flow_cursor ?fm + (i - ?q)) mod ?b = (fm_flow_cursor fm + i) mod ?b"
  proof -
    have "fm_flow_cursor fm + ?q + (i - ?q) = fm_flow_cursor fm + i" using q by simp
    moreover have "fm_flow_cursor ?fm = (fm_flow_cursor fm + ?q) mod ?b" by (simp add: cleanup_expired_eq)
    ultimately show ?thesis by (simp only: mod_add_left_eq)
  qed
  then have "find_flow (fm_run (replicate n (Cleanup now)) ?fm) k = Some f"
    using Suc.prems(3-5) f
    by (intro Suc.IH [of _ "i - ?q"] fm_step_inv Suc.prems(1)) (simp_all add: b bucket_of_step del: fm_step.simps)
  then show ?case by simp
qed simp

definition late_bucket_packet :: parsed_packet where
  "late_bucket_packet =
     \<lparr>tuple = mk_tuple 0 0 0 20 20, total_len = 20, payload_len = 0, has_ports = True, tcp_flags = 0\<rparr>"

text \<open>Ten ticks are not always enough for one pass, although each is meant to visit a tenth of the
  buckets: the tenth is rounded down. With 649 buckets, a flow whose only packet was an hour ago is
  still in the table after ten ticks.\<close>

theorem ten_ticks_not_enough:
  "um_bucket_count (fm_flows (one_flow_manager 648 late_bucket_packet)) = 649 \<and>
   (\<exists>f. get_flow (fm_run (replicate 10 (Cleanup (seconds 3600))) (one_flow_manager 648 late_bucket_packet))
          (tuple late_bucket_packet) = Some f \<and> f_last_seen f = 0)"
proof -
  note facts = one_flow_manager_facts [of 648 late_bucket_packet]
  have hash: "unat (five_tuple_hash (mk_tuple 0 0 0 20 20)) = 640"
    by (simp add: five_tuple_hash_def hash_u32_def Let_def)
  have len: "length (fm_flows (one_flow_manager 648 late_bucket_packet)) = 649"
    using facts(3) by (simp add: um_bucket_count_def)
  have "bucket_of (one_flow_manager 648 late_bucket_packet) (tuple late_bucket_packet) = 640"
    unfolding bucket_of_def um_bucket_def len by (simp add: late_bucket_packet_def hash)
  then have "find_flow (fm_run (replicate 10 (Cleanup (seconds 3600))) (one_flow_manager 648 late_bucket_packet))
      (tuple late_bucket_packet) =
      Some (update_flow_stats late_bucket_packet True 0 (open_flow (tuple late_bucket_packet) INBOUND 0))"
    using facts by (intro sweep_not_reached [where i = 640]) (simp_all add: sweep_quota_def)
  then show ?thesis using facts(3) by (simp add: get_flow_def)
qed

text \<open>A flow that has timed out but is not swept yet is continued, not restarted: the packet that
  ends a silence of any length keeps the old start and adds the silence to the intervals of its
  direction. (The rate statistics restart their window instead.)\<close>

theorem stale_flow_continued:
  assumes "fm_inv fm" "d \<noteq> UNKNOWN" "find_flow fm (tuple p) = Some g"
    and "now - f_last_seen g \<ge> seconds FLOW_TIMEOUT_SEC"
    and "rs_count (d_packet_len (f_forward g)) > 0"
  shows "\<exists>f. get_flow (snd (observe_packet p d now fm)) (tuple p) = Some f \<and>
    f_first_seen f = f_first_seen g \<and> packets f = (fst (packets g) + 1, snd (packets g)) \<and>
    d_iat_us (f_forward f) =
      rs_add (fl (of_int (to_microseconds (now - d_last_seen (f_forward g))))) (d_iat_us (f_forward g))"
proof -
  let ?f = "update_flow_stats p True now g"
  have "find_flow (snd (observe_packet p d now fm)) (tuple p) = Some ?f"
    using assms(3) by (simp add: observe_find_flow [OF assms(1,2)] spec_flow_def locate_def Let_def)
  moreover have "d_iat_us (f_forward ?f) =
      rs_add (fl (of_int (to_microseconds (now - d_last_seen (f_forward g))))) (d_iat_us (f_forward g))"
    using assms(5) by (simp add: update_flow_stats_def update_direction_def count_flags_def Let_def)
  ultimately show ?thesis by (simp add: get_flow_def packets_update)
qed

theorem stale_flow_continued_witness:
  "\<exists>f. get_flow (snd (observe_packet (syn_packet 7 80) INBOUND (seconds 600) (one_flow_manager 1 (syn_packet 7 80))))
     (tuple (syn_packet 7 80)) = Some f \<and> f_first_seen f = 0"
proof -
  note facts = one_flow_manager_facts [of 1 "syn_packet 7 80"]
  let ?g = "update_flow_stats (syn_packet 7 80) True 0 (open_flow (tuple (syn_packet 7 80)) INBOUND 0)"
  have "rs_count (d_packet_len (f_forward ?g)) > 0" "f_first_seen ?g = 0" "f_last_seen ?g = 0"
    by (simp_all add: update_flow_stats_def Let_def open_flow_def direction_empty_def rs_empty_def)
  then show ?thesis
    using stale_flow_continued [of "one_flow_manager 1 (syn_packet 7 80)" INBOUND "syn_packet 7 80" ?g "seconds 600"]
      facts(1,2) by (fastforce simp: FLOW_TIMEOUT_SEC_def)
qed

end
