(* ===== verification/Detect_Rules.thy ===== *)
theory Detect_Rules
  imports Flow_Properties
begin

text \<open>
  detect/rule.h, detect/port_scan_rule.cpp, detect/syn_flood_rule.cpp and detect/rule_engine.cpp.
  The abstract class \<open>Rule\<close> with its two subclasses is a datatype, its virtual methods are functions
  by cases; the engine is the vector of its rules.
\<close>

section \<open>The rules\<close>

datatype rule =
    PortScanRule nat
  | SynFloodRule u32

fun rule_name :: "rule \<Rightarrow> string" where
  "rule_name (PortScanRule threshold) = ''port_scan''"
| "rule_name (SynFloodRule threshold) = ''syn_flood''"

definition port_scan_match :: "nat \<Rightarrow> source_stats \<Rightarrow> bool" where
  "port_scan_match threshold s \<longleftrightarrow> card (recent_dst_ports s) \<ge> threshold"

definition syn_flood_match :: "u32 \<Rightarrow> source_stats \<Rightarrow> bool" where
  "syn_flood_match threshold s \<longleftrightarrow> syn_count s \<ge> threshold"

fun is_match :: "rule \<Rightarrow> source_stats \<Rightarrow> bool" where
  "is_match (PortScanRule threshold) s \<longleftrightarrow> port_scan_match threshold s"
| "is_match (SynFloodRule threshold) s \<longleftrightarrow> syn_flood_match threshold s"

type_synonym rule_engine = "rule list"

definition add_rule :: "rule \<Rightarrow> rule_engine \<Rightarrow> rule_engine" where
  "add_rule r rules = rules @ [r]"

fun check :: "rule_engine \<Rightarrow> source_stats \<Rightarrow> rule option" where
  "check [] s = None"
| "check (r # rules) s = (if is_match r s then Some r else check rules s)"

lemma check_None: "check rules s = None \<longleftrightarrow> (\<forall>r \<in> set rules. \<not> is_match r s)"
  by (induction rules) auto

lemma check_Some: "check rules s = Some r \<Longrightarrow> r \<in> set rules \<and> is_match r s"
  by (induction rules) (auto split: if_splits)

lemma check_skip: "filter (\<lambda>q. is_match q s) before = [] \<Longrightarrow> check (before @ rules) s = check rules s"
  by (induction before) (auto split: if_splits)

lemma check_split:
  "check rules s = Some r \<Longrightarrow>
   \<exists>before after. rules = before @ r # after \<and> is_match r s \<and> filter (\<lambda>q. is_match q s) before = []"
proof (induction rules)
  case (Cons q rules)
  show ?case
  proof (cases "is_match q s")
    case True
    with Cons.prems have "q # rules = [] @ r # rules" "is_match r s" by auto
    then show ?thesis by (metis filter.simps(1))
  next
    case False
    with Cons obtain before after where "rules = before @ r # after" "is_match r s"
      "filter (\<lambda>q. is_match q s) before = []" by auto
    with False have "q # rules = (q # before) @ r # after" "is_match r s"
      "filter (\<lambda>q. is_match q s) (q # before) = []" by simp_all
    then show ?thesis by blast
  qed
qed simp

text \<open>The engine reports the rule that was registered first among those that match, and reports
  one exactly when one matches.\<close>

theorem check_first_match:
  "(check rules s = Some r \<longleftrightarrow>
     (\<exists>before after. rules = before @ r # after \<and> is_match r s \<and> filter (\<lambda>q. is_match q s) before = [])) \<and>
   (check rules s = None \<longleftrightarrow> filter (\<lambda>q. is_match q s) rules = [])"
proof
  show "check rules s = Some r \<longleftrightarrow>
     (\<exists>before after. rules = before @ r # after \<and> is_match r s \<and> filter (\<lambda>q. is_match q s) before = [])"
    (is "?l \<longleftrightarrow> ?r")
  proof
    assume ?l
    then show ?r by (rule check_split)
  next
    assume ?r
    then show ?l by (auto simp: check_skip)
  qed
  show "check rules s = None \<longleftrightarrow> filter (\<lambda>q. is_match q s) rules = []"
    by (simp add: check_None filter_empty_conv)
qed

section \<open>Detection on the packets of one window\<close>

text \<open>The engine PacketCapture builds.\<close>

definition standard_rules :: "nat \<Rightarrow> u32 \<Rightarrow> rule_engine" where
  "standard_rules port_threshold syn_threshold =
     add_rule (SynFloodRule syn_threshold) (add_rule (PortScanRule port_threshold) [])"

lemma standard_rules_eq: "standard_rules pt st = [PortScanRule pt, SynFloodRule st]"
  by (simp add: standard_rules_def add_rule_def)

definition distinct_ports :: "(time_point \<times> parsed_packet) list \<Rightarrow> nat" where
  "distinct_ports ps = card ((\<lambda>(t, p). dst_port (tuple p)) ` set ps)"

definition syn_packets :: "(time_point \<times> parsed_packet) list \<Rightarrow> nat" where
  "syn_packets ps = length (filter (\<lambda>(t, p). has_flag (tcp_flags p) TH_SYN) ps)"

lemma check_window_stats:
  assumes "syn_packets ps < 2 ^ 32"
  shows "check (standard_rules pt st) (window_stats t0 ps) \<noteq> None \<longleftrightarrow>
    pt \<le> distinct_ports ps \<or> unat st \<le> syn_packets ps"
proof -
  have "st \<le> of_nat (syn_packets ps) \<longleftrightarrow> unat st \<le> syn_packets ps"
    using assms by (simp add: word_le_nat_alt unat_of_nat)
  then show ?thesis
    by (simp add: standard_rules_eq port_scan_match_def syn_flood_match_def window_stats_def distinct_ports_def syn_packets_def)
qed

text \<open>The thresholds are exact: the packet that brings the window of a source to the configured
  number of distinct destination ports, or of packets with SYN set, is the first one the rules hit.
  Starting from a manager without statistics of the source, after the packets \<open>ps\<close> of one window the
  engine hits exactly when one of the two counts has reached its threshold, and the scan rule is the
  one reported when both have.\<close>

theorem thresholds_exact:
  assumes "fm_inv fm" "find_source fm src = None" "um_size (fm_source_stats fm) < fm_max_sources fm"
    and "ps = (t0, p0) # qs"
    and "\<And>t p. (t, p) \<in> set ps \<Longrightarrow> src_ip (tuple p) = src \<and> t < t0 + seconds (fm_window_seconds fm)"
    and "syn_packets ps < 2 ^ 32"
  shows "\<exists>s. find_source (rate_run ps fm) src = Some s \<and>
    check (standard_rules pt st) s =
      (if pt \<le> distinct_ports ps then Some (PortScanRule pt)
       else if unat st \<le> syn_packets ps then Some (SynFloodRule st) else None)"
proof -
  let ?fm = "snd (update_source_stats p0 t0 fm)"
  have src: "src_ip (tuple p0) = src" using assms(4,5) by auto
  then have "find_source ?fm src = Some (window_stats t0 [(t0, p0)])"
    using assms(2,3) window_stats_snoc [of p0 t0 "[]" t0]
    by (simp add: find_source_update [OF assms(1)] next_source_def window_stats_Nil)
  then have "find_source (rate_run qs ?fm) src = Some (window_stats t0 ([(t0, p0)] @ qs))"
    using assms(1,4,5) by (intro rate_run_window update_source_stats_inv) (auto simp: update_source_stats_frame)
  then have s: "find_source (rate_run ps fm) src = Some (window_stats t0 ps)"
    by (simp add: rate_run_def assms(4))
  have "st \<le> of_nat (syn_packets ps) \<longleftrightarrow> unat st \<le> syn_packets ps"
    using assms(6) by (simp add: word_le_nat_alt unat_of_nat)
  with s show ?thesis
    by (simp add: standard_rules_eq port_scan_match_def syn_flood_match_def window_stats_def distinct_ports_def syn_packets_def)
qed

theorem thresholds_exact_witness:
  "\<exists>s. find_source (rate_run [(0, syn_packet 7 22), (1, syn_packet 7 80)] sample_manager) 7 = Some s \<and>
     check (standard_rules 2 100) s = Some (PortScanRule 2)"
proof -
  let ?ps = "[(0, syn_packet 7 22), (1, syn_packet 7 80)]"
  have "\<exists>s. find_source (rate_run ?ps sample_manager) 7 = Some s \<and>
    check (standard_rules 2 100) s =
      (if 2 \<le> distinct_ports ?ps then Some (PortScanRule 2)
       else if unat (100 :: u32) \<le> syn_packets ?ps then Some (SynFloodRule 100) else None)"
    by (rule thresholds_exact [OF sample_manager_inv, where qs = "[(1, syn_packet 7 80)]"])
       (auto simp: sample_manager_sources seconds_def syn_packets_def)
  then show ?thesis by (simp add: distinct_ports_def)
qed

end
