(* ===== verification/White_List.thy ===== *)
theory White_List
  imports Five_Tuple
begin

text \<open>
  response/whitelist.h and response/whitelist.cpp. The C library's \<open>inet_pton\<close> is a parameter: it gives
  the address in network byte order, or nothing when the text is not a dotted quad.
\<close>

type_synonym whitelist = "u32 set"

definition whitelist_empty :: whitelist where
  "whitelist_empty = {}"

fun whitelist_add :: "(string \<Rightarrow> u32 option) \<Rightarrow> string list \<Rightarrow> whitelist \<times> bool \<Rightarrow> whitelist \<times> bool" where
  "whitelist_add inet_pton [] (ips, ok) = (ips, ok)"
| "whitelist_add inet_pton (s # ss) (ips, ok) =
     (case inet_pton s of
        Some addr \<Rightarrow> whitelist_add inet_pton ss (insert addr ips, ok)
      | None \<Rightarrow> whitelist_add inet_pton ss (ips, False))"

text \<open>\<open>load\<close> replaces the set and tells whether every entry was readable.\<close>

definition whitelist_load :: "(string \<Rightarrow> u32 option) \<Rightarrow> string list \<Rightarrow> whitelist \<Rightarrow> whitelist \<times> bool" where
  "whitelist_load inet_pton ip_strings ips = whitelist_add inet_pton ip_strings ({}, True)"

definition is_whitelisted :: "whitelist \<Rightarrow> u32 \<Rightarrow> bool" where
  "is_whitelisted ips ip \<longleftrightarrow> ip \<in> ips"

lemma whitelist_add_eq:
  "whitelist_add inet_pton ss (ips, ok) =
     (ips \<union> {a. \<exists>s \<in> set ss. inet_pton s = Some a}, ok \<and> (\<forall>s \<in> set ss. inet_pton s \<noteq> None))"
  by (induction ss arbitrary: ips ok) (auto split: option.split)

text \<open>Loading forgets the old entries, keeps every readable address of the list and reports failure
  exactly when some entry is unreadable, so that a typing error is never silently dropped.\<close>

theorem whitelist_load_exact:
  "(is_whitelisted (fst (whitelist_load inet_pton ip_strings ips)) ip \<longleftrightarrow>
      Some ip \<in> inet_pton ` set ip_strings) \<and>
   (snd (whitelist_load inet_pton ip_strings ips) \<longleftrightarrow> None \<notin> inet_pton ` set ip_strings)"
proof -
  have "(\<exists>s \<in> set ip_strings. inet_pton s = Some ip) \<longleftrightarrow> Some ip \<in> inet_pton ` set ip_strings"
    "(\<forall>s \<in> set ip_strings. inet_pton s \<noteq> None) \<longleftrightarrow> None \<notin> inet_pton ` set ip_strings"
    by (metis image_iff)+
  then show ?thesis by (simp add: whitelist_load_def whitelist_add_eq is_whitelisted_def)
qed

end
