(* ===== verification/Block_List.thy ===== *)
theory Block_List
  imports Five_Tuple "HOL-Library.Multiset"
begin

text \<open>
  response/block_list.h and response/block_list.cpp: the map from blocked addresses to expiry times,
  which decides, and the heap of expiry times, which only says what may be removed. The log lines
  are not modelled.

  What the code needs of \<open>std::priority_queue\<close> is the locale \<open>min_queue\<close>: the order between entries
  of the same expiry is left open, as \<open>operator>\<close> compares expiry times only. The model's queue is a
  list sorted by expiry.
\<close>

section \<open>Priority queues\<close>

locale min_queue =
  fixes empty :: 'q
    and push :: "'e \<Rightarrow> 'q \<Rightarrow> 'q"
    and top :: "'q \<Rightarrow> 'e option"
    and pop :: "'q \<Rightarrow> 'q"
    and contents :: "'q \<Rightarrow> 'e multiset"
    and key :: "'e \<Rightarrow> int"
    and invar :: "'q \<Rightarrow> bool"
  assumes contents_empty: "contents empty = {#}"
    and contents_push: "invar q \<Longrightarrow> contents (push e q) = add_mset e (contents q)"
    and contents_pop: "invar q \<Longrightarrow> top q = Some e \<Longrightarrow> contents q = add_mset e (contents (pop q))"
    and top_None: "invar q \<Longrightarrow> top q = None \<longleftrightarrow> contents q = {#}"
    and top_min: "invar q \<Longrightarrow> top q = Some e \<Longrightarrow> x \<in># contents q \<Longrightarrow> key e \<le> key x"
    and invar_empty: "invar empty"
    and invar_push: "invar q \<Longrightarrow> invar (push e q)"
    and invar_pop: "invar q \<Longrightarrow> invar (pop q)"
begin

text \<open>When the top is not due, nothing is.\<close>

lemma none_due:
  assumes "invar q" "case top q of None \<Rightarrow> True | Some e \<Rightarrow> now < key e"
  shows "filter_mset (\<lambda>x. key x \<le> now) (contents q) = {#}"
proof (cases "top q")
  case None
  then show ?thesis using top_None [OF assms(1)] by simp
next
  case (Some e)
  have "now < key x" if "x \<in># contents q" for x
    using top_min [OF assms(1) Some that] assms(2) Some by simp
  then have "filter_mset (\<lambda>x. key x \<le> now) (contents q) = filter_mset (\<lambda>_. False) (contents q)"
    by (intro filter_mset_cong refl) (simp add: not_le)
  then show ?thesis by simp
qed

lemma due_pop:
  assumes "invar q" "top q = Some e" "key e \<le> now"
  shows "size (filter_mset (\<lambda>x. key x \<le> now) (contents q)) =
    Suc (size (filter_mset (\<lambda>x. key x \<le> now) (contents (pop q))))"
  using contents_pop [OF assms(1,2)] assms(3) by simp

lemma size_pop: "invar q \<Longrightarrow> top q = Some e \<Longrightarrow> size (contents q) = Suc (size (contents (pop q)))"
  by (simp add: contents_pop)

lemma in_pop:
  "invar q \<Longrightarrow> top q = Some e \<Longrightarrow> x \<in># contents q \<longleftrightarrow> x = e \<or> x \<in># contents (pop q)"
  by (simp add: contents_pop)

end

section \<open>The expiry heap\<close>

record heap_entry =
  he_expiry :: time_point
  he_ip :: u32

type_synonym expiry_heap = "heap_entry list"

definition heap_push :: "heap_entry \<Rightarrow> expiry_heap \<Rightarrow> expiry_heap" where
  "heap_push e q = insort_key he_expiry e q"

definition heap_top :: "expiry_heap \<Rightarrow> heap_entry option" where
  "heap_top q = (case q of [] \<Rightarrow> None | e # _ \<Rightarrow> Some e)"

definition heap_pop :: "expiry_heap \<Rightarrow> expiry_heap" where
  "heap_pop q = tl q"

definition heap_ok :: "expiry_heap \<Rightarrow> bool" where
  "heap_ok q \<longleftrightarrow> sorted (map he_expiry q)"

interpretation heap: min_queue "[]" heap_push heap_top heap_pop mset he_expiry heap_ok
proof unfold_locales
  fix q :: expiry_heap and e x :: heap_entry
  assume q: "heap_ok q" "heap_top q = Some e"
  then obtain q' where q': "q = e # q'" by (auto simp: heap_top_def split: list.splits)
  then show "mset q = add_mset e (mset (heap_pop q))" by (simp add: heap_pop_def)
  assume "x \<in># mset q"
  with q q' show "he_expiry e \<le> he_expiry x" by (auto simp: heap_ok_def)
qed (auto simp: heap_push_def heap_top_def heap_pop_def heap_ok_def sorted_insort_key map_tl
      sorted_tl split: list.splits)

section \<open>The block list\<close>

record block_list =
  block_map :: "u32 \<Rightarrow> time_point option"
  expiry_heap :: expiry_heap

definition block_list_empty :: block_list where
  "block_list_empty = \<lparr>block_map = (\<lambda>_. None), expiry_heap = []\<rparr>"

definition MAX_EXPIRY_CLEANUPS_PER_TICK :: nat where
  "MAX_EXPIRY_CLEANUPS_PER_TICK = 16384"

definition block :: "u32 \<Rightarrow> int \<Rightarrow> time_point \<Rightarrow> block_list \<Rightarrow> block_list" where
  "block ip ttl_seconds now bl =
     (let expiry = now + seconds ttl_seconds in
      bl\<lparr>block_map := (block_map bl)(ip \<mapsto> expiry),
         expiry_heap := heap_push \<lparr>he_expiry = expiry, he_ip = ip\<rparr> (expiry_heap bl)\<rparr>)"

definition is_blocked :: "block_list \<Rightarrow> u32 \<Rightarrow> time_point \<Rightarrow> bool" where
  "is_blocked bl ip now =
     (case block_map bl ip of None \<Rightarrow> False | Some expiry \<Rightarrow> now < expiry)"

text \<open>The loop of \<open>cleanup_expired\<close>, with its bound, and the number of released addresses.\<close>

fun release_due :: "nat \<Rightarrow> time_point \<Rightarrow> block_list \<Rightarrow> block_list \<times> nat" where
  "release_due 0 now bl = (bl, 0)"
| "release_due (Suc n) now bl =
     (case heap_top (expiry_heap bl) of
        None \<Rightarrow> (bl, 0)
      | Some e \<Rightarrow>
          if he_expiry e \<le> now then
            let bl = bl\<lparr>expiry_heap := heap_pop (expiry_heap bl)\<rparr> in
            if block_map bl (he_ip e) = Some (he_expiry e) then
              let (bl, released) = release_due n now (bl\<lparr>block_map := (block_map bl)(he_ip e := None)\<rparr>)
              in (bl, Suc released)
            else release_due n now bl
          else (bl, 0))"

definition block_cleanup :: "time_point \<Rightarrow> block_list \<Rightarrow> block_list" where
  "block_cleanup now bl = fst (release_due MAX_EXPIRY_CLEANUPS_PER_TICK now bl)"

section \<open>The invariant\<close>

text \<open>Every blocked address has its expiry in the heap, so that it will be removed.\<close>

definition bl_inv :: "block_list \<Rightarrow> bool" where
  "bl_inv bl \<longleftrightarrow> heap_ok (expiry_heap bl) \<and>
     (\<forall>ip t. block_map bl ip = Some t \<longrightarrow> \<lparr>he_expiry = t, he_ip = ip\<rparr> \<in># mset (expiry_heap bl))"

lemma bl_inv_empty [inv_intros]: "bl_inv block_list_empty"
  by (simp add: bl_inv_def block_list_empty_def heap_ok_def)

lemma bl_inv_block [inv_intros]: "bl_inv bl \<Longrightarrow> bl_inv (block ip ttl now bl)"
  by (auto simp: bl_inv_def block_def Let_def heap.contents_push heap.invar_push
      simp del: set_mset_mset)

text \<open>One turn of the loop.\<close>

definition release_one :: "heap_entry \<Rightarrow> block_list \<Rightarrow> block_list" where
  "release_one e bl =
     bl\<lparr>expiry_heap := heap_pop (expiry_heap bl),
        block_map := (if block_map bl (he_ip e) = Some (he_expiry e)
                      then (block_map bl)(he_ip e := None) else block_map bl)\<rparr>"

lemma release_due_Suc:
  "fst (release_due (Suc n) now bl) =
     (case heap_top (expiry_heap bl) of
        None \<Rightarrow> bl
      | Some e \<Rightarrow> if he_expiry e \<le> now then fst (release_due n now (release_one e bl)) else bl)"
  by (auto simp: release_one_def Let_def split_beta split: option.split)

lemma bl_inv_release_one:
  assumes "bl_inv bl" "heap_top (expiry_heap bl) = Some e"
  shows "bl_inv (release_one e bl)"
proof -
  have ok: "heap_ok (expiry_heap bl)" using assms(1) by (simp add: bl_inv_def)
  have "\<lparr>he_expiry = t, he_ip = ip\<rparr> \<in># mset (heap_pop (expiry_heap bl))"
    if "block_map (release_one e bl) ip = Some t" for ip t
  proof -
    have "block_map bl ip = Some t" "e \<noteq> \<lparr>he_expiry = t, he_ip = ip\<rparr>"
      using that by (auto simp: release_one_def split: if_splits)
    then show ?thesis
      using assms(1) heap.in_pop [OF ok assms(2)] by (auto simp: bl_inv_def simp del: set_mset_mset)
  qed
  with ok show ?thesis by (simp add: bl_inv_def release_one_def heap.invar_pop del: set_mset_mset)
qed

text \<open>What every turn keeps, the loop keeps.\<close>

lemma release_due_induct:
  assumes "bl_inv bl" "P bl"
    "\<And>bl e. bl_inv bl \<Longrightarrow> P bl \<Longrightarrow> heap_top (expiry_heap bl) = Some e \<Longrightarrow> he_expiry e \<le> now \<Longrightarrow> P (release_one e bl)"
  shows "bl_inv (fst (release_due n now bl)) \<and> P (fst (release_due n now bl))"
  using assms(1,2)
proof (induction n arbitrary: bl)
  case (Suc n)
  show ?case
  proof (cases "heap_top (expiry_heap bl)")
    case None
    with Suc.prems show ?thesis by (simp add: release_due_Suc)
  next
    case (Some e)
    with Suc show ?thesis by (simp add: release_due_Suc bl_inv_release_one assms(3) del: release_due.simps)
  qed
qed simp

lemma bl_inv_cleanup [inv_intros]: "bl_inv bl \<Longrightarrow> bl_inv (block_cleanup now bl)"
  using release_due_induct [where P = "\<lambda>_. True"] by (simp add: block_cleanup_def)

text \<open>The clean-up removes only expired entries.\<close>

lemma cleanup_map:
  assumes "bl_inv bl"
  shows "block_map (block_cleanup now bl) ip = block_map bl ip \<or>
    block_map (block_cleanup now bl) ip = None \<and> (\<exists>t. block_map bl ip = Some t \<and> t \<le> now)"
proof -
  let ?P = "\<lambda>b. block_map b ip = block_map bl ip \<or>
    block_map b ip = None \<and> (\<exists>t. block_map bl ip = Some t \<and> t \<le> now)"
  have "?P (fst (release_due n now bl))" for n
    by (rule release_due_induct [where P = ?P, OF assms, THEN conjunct2]) (auto simp: release_one_def)
  then show ?thesis by (simp add: block_cleanup_def)
qed

section \<open>Blocking over time\<close>

datatype bl_op = Block u32 int time_point | Block_tick time_point

fun bl_step :: "bl_op \<Rightarrow> block_list \<Rightarrow> block_list" where
  "bl_step (Block ip ttl now) bl = block ip ttl now bl"
| "bl_step (Block_tick now) bl = block_cleanup now bl"

definition bl_run :: "bl_op list \<Rightarrow> block_list \<Rightarrow> block_list" where
  "bl_run ops bl = fold bl_step ops bl"

text \<open>The specification: the expiry that the last block of the address sets.\<close>

fun last_expiry :: "u32 \<Rightarrow> bl_op list \<Rightarrow> time_point option \<Rightarrow> time_point option" where
  "last_expiry ip [] e = e"
| "last_expiry ip (Block ip' ttl now # ops) e =
     last_expiry ip ops (if ip' = ip then Some (now + seconds ttl) else e)"
| "last_expiry ip (Block_tick now # ops) e = last_expiry ip ops e"

lemma bl_inv_step: "bl_inv bl \<Longrightarrow> bl_inv (bl_step op bl)"
  by (cases op) (simp_all add: bl_inv_block bl_inv_cleanup)

lemma bl_inv_run: "bl_inv bl \<Longrightarrow> bl_inv (bl_run ops bl)"
  unfolding bl_run_def by (induction ops arbitrary: bl) (simp_all add: bl_inv_step)

text \<open>The entry of an address is the last expiry set, or gone because it is over.\<close>

definition agrees :: "time_point \<Rightarrow> time_point option \<Rightarrow> time_point option \<Rightarrow> bool" where
  "agrees now e m \<longleftrightarrow> m = e \<or> m = None \<and> (\<exists>t. e = Some t \<and> t \<le> now)"

lemma agrees_run:
  assumes "bl_inv bl" "agrees now e (block_map bl ip)" "\<forall>t. Block_tick t \<in> set ops \<longrightarrow> t \<le> now"
  shows "agrees now (last_expiry ip ops e) (block_map (bl_run ops bl) ip)"
  using assms
proof (induction ops arbitrary: bl e)
  case (Cons op ops)
  have inv: "bl_inv (bl_step op bl)" by (rule bl_inv_step [OF Cons.prems(1)])
  show ?case
  proof (cases op)
    case (Block ip' ttl t)
    have "agrees now (if ip' = ip then Some (t + seconds ttl) else e) (block_map (bl_step op bl) ip)"
      using Cons.prems(2) by (auto simp: Block block_def Let_def agrees_def)
    then show ?thesis using Cons.IH [OF inv] Cons.prems(3) Block by (simp add: bl_run_def)
  next
    case (Block_tick t)
    have "agrees now e (block_map (bl_step op bl) ip)"
      using cleanup_map [OF Cons.prems(1), of t ip] Cons.prems(2,3)
      by (auto simp: Block_tick agrees_def)
    then show ?thesis using Cons.IH [OF inv] Cons.prems(3) Block_tick by (simp add: bl_run_def)
  qed
qed (simp add: bl_run_def)

text \<open>C12. A verdict depends only on the last block of the address: after any interleaving of blocks and
  clean-ups up to now, the address is blocked exactly until the expiry its last block set, however
  often it was blocked before, and whether the clean-up has been late, partial or on time.\<close>

theorem blocked_until_last_expiry:
  assumes "\<And>t. Block_tick t \<in> set ops \<Longrightarrow> t \<le> now"
  shows "is_blocked (bl_run ops block_list_empty) ip now \<longleftrightarrow>
    (case last_expiry ip ops None of None \<Rightarrow> False | Some expiry \<Rightarrow> now < expiry)"
proof -
  have "agrees now (last_expiry ip ops None) (block_map (bl_run ops block_list_empty) ip)"
    using assms by (intro agrees_run bl_inv_empty) (auto simp: agrees_def block_list_empty_def)
  then show ?thesis by (auto simp: agrees_def is_blocked_def split: option.split)
qed

theorem blocked_until_last_expiry_witness:
  "is_blocked (bl_run [Block 7 5 0, Block 7 5 (seconds 3), Block_tick (seconds 6)] block_list_empty) 7 (seconds 7)"
  using blocked_until_last_expiry [of "[Block 7 5 0, Block 7 5 (seconds 3), Block_tick (seconds 6)]" "seconds 7" 7]
  by (auto simp: seconds_def)

section \<open>The work of one clean-up\<close>

definition due_entries :: "time_point \<Rightarrow> block_list \<Rightarrow> nat" where
  "due_entries now bl = length (filter (\<lambda>e. he_expiry e \<le> now) (expiry_heap bl))"

lemma due_entries_mset: "due_entries now bl = size (filter_mset (\<lambda>e. he_expiry e \<le> now) (mset (expiry_heap bl)))"
  by (simp add: due_entries_def flip: mset_filter)

lemma release_one_heap [simp]: "expiry_heap (release_one e bl) = heap_pop (expiry_heap bl)"
  by (simp add: release_one_def)

lemma release_due_work:
  assumes "bl_inv bl"
  shows "length (expiry_heap (fst (release_due n now bl))) = length (expiry_heap bl) - min n (due_entries now bl) \<and>
    due_entries now (fst (release_due n now bl)) = due_entries now bl - n"
  using assms
proof (induction n arbitrary: bl)
  case (Suc n)
  have ok: "heap_ok (expiry_heap bl)" using Suc.prems by (simp add: bl_inv_def)
  show ?case
  proof (cases "heap_top (expiry_heap bl)")
    case None
    then have "due_entries now bl = 0" using heap.none_due [OF ok, of now] by (simp add: due_entries_mset)
    with None show ?thesis by (simp add: release_due_Suc)
  next
    case (Some e)
    show ?thesis
    proof (cases "he_expiry e \<le> now")
      case True
      have "due_entries now bl = Suc (due_entries now (release_one e bl))"
        using heap.due_pop [OF ok Some True] by (simp add: due_entries_mset)
      moreover have "length (expiry_heap bl) = Suc (length (heap_pop (expiry_heap bl)))"
        using heap.size_pop [OF ok Some] by simp
      ultimately show ?thesis
        using Suc.IH [OF bl_inv_release_one [OF Suc.prems Some]] Some True
        by (simp add: release_due_Suc del: release_due.simps)
    next
      case False
      then have "due_entries now bl = 0" using heap.none_due [OF ok, of now] Some by (simp add: due_entries_mset)
      with Some False show ?thesis by (simp add: release_due_Suc del: release_due.simps)
    qed
  qed
qed simp

text \<open>C36. One clean-up does bounded work and falls behind by at most the rest: it takes at most 16384
  entries off the heap, exactly the due ones when there are no more of them, and then no expired
  address is left in the map. No address whose time is not over is released.\<close>

theorem cleanup_bounded_and_complete:
  assumes "bl_inv bl"
  shows "let bl' = block_cleanup now bl; due = due_entries now bl in
    length (expiry_heap bl') = length (expiry_heap bl) - min 16384 due \<and>
    due_entries now bl' = due - 16384 \<and>
    (due \<le> 16384 \<longrightarrow> (\<forall>ip t. block_map bl' ip = Some t \<longrightarrow> now < t)) \<and>
    (\<forall>ip t. block_map bl ip = Some t \<and> now < t \<longrightarrow> block_map bl' ip = Some t)"
proof -
  let ?bl = "block_cleanup now bl"
  have work: "length (expiry_heap ?bl) = length (expiry_heap bl) - min 16384 (due_entries now bl)"
    "due_entries now ?bl = due_entries now bl - 16384"
    using release_due_work [OF assms, of MAX_EXPIRY_CLEANUPS_PER_TICK now]
    by (simp_all add: block_cleanup_def MAX_EXPIRY_CLEANUPS_PER_TICK_def)
  have "now < t" if "due_entries now bl \<le> 16384" "block_map ?bl ip = Some t" for ip t
  proof (rule ccontr)
    assume "\<not> now < t"
    moreover have "\<lparr>he_expiry = t, he_ip = ip\<rparr> \<in> set (expiry_heap ?bl)"
      using bl_inv_cleanup [OF assms, of now] that(2) by (simp add: bl_inv_def)
    ultimately have "filter (\<lambda>e. he_expiry e \<le> now) (expiry_heap ?bl) \<noteq> []"
      by (fastforce simp: filter_empty_conv)
    with work(2) that(1) show False by (simp add: due_entries_def)
  qed
  moreover have "block_map ?bl ip = Some t" if "block_map bl ip = Some t" "now < t" for ip t
    using cleanup_map [OF assms, of now ip] that by auto
  ultimately show ?thesis using work by (simp add: Let_def)
qed

theorem cleanup_bounded_and_complete_witness:
  "block_map (block_cleanup (seconds 5) (block 7 5 0 block_list_empty)) 7 = None"
proof -
  have inv: "bl_inv (block 7 5 0 block_list_empty)" by (intro bl_inv_block bl_inv_empty)
  have due: "due_entries (seconds 5) (block 7 5 0 block_list_empty) = 1"
    by (simp add: due_entries_def block_def heap_push_def block_list_empty_def Let_def)
  have "\<not> block_map (block_cleanup (seconds 5) (block 7 5 0 block_list_empty)) 7 = Some t" for t
  proof
    assume t: "block_map (block_cleanup (seconds 5) (block 7 5 0 block_list_empty)) 7 = Some t"
    have "due_entries (seconds 5) (block 7 5 0 block_list_empty) \<le> 16384" unfolding due by simp
    with cleanup_bounded_and_complete [OF inv, of "seconds 5", unfolded Let_def] t have "seconds 5 < t"
      by blast
    moreover have "t = seconds 5"
      using cleanup_map [OF inv, of "seconds 5" 7] t by (simp add: block_def Let_def)
    ultimately show False by simp
  qed
  then show ?thesis by blast
qed

text \<open>An expiry the program can form stays inside the signed 64-bit nanosecond range for a machine that
  has been up for less than two centuries, with the largest lifetime the configuration accepts.\<close>

lemma expiry_in_range:
  "0 \<le> now \<Longrightarrow> now < seconds 7000000000 \<Longrightarrow> 0 \<le> ttl \<Longrightarrow> ttl < 2 ^ 31 \<Longrightarrow> now + seconds ttl < 2 ^ 63"
  by (simp add: seconds_def)

end
