(* ===== verification/Flow_Features.thy ===== *)
theory Flow_Features
  imports Flow_Manager
begin

text \<open>
  ai/flow_features.h, ai/flow_features.cpp and ai/flow_record.h: the 27 features of an ended flow, in
  the order the model was trained with, and what they are in terms of the packets of the flow.
\<close>

section \<open>The feature vector\<close>

definition FLOW_FEATURE_COUNT :: nat where "FLOW_FEATURE_COUNT = 27"
definition FLOW_FEATURE_SCHEMA_VERSION :: u32 where "FLOW_FEATURE_SCHEMA_VERSION = 1"

record flow_record =
  r_flow_id :: string
  r_key :: five_tuple
  r_first_seen_ms :: int
  r_last_seen_ms :: int
  r_end_reason :: flow_end_reason
  r_feature_schema_version :: u32
  r_features :: "real list"

definition count_sum :: "u32 \<Rightarrow> u32 \<Rightarrow> real" where
  "count_sum forward backward = fl (fl (real (unat forward)) + fl (real (unat backward)))"

definition flow_to_features :: "flow \<Rightarrow> real list" where
  "flow_to_features f =
     (let fw = f_forward f; bw = f_backward f;
          duration_us = fl (of_int (to_microseconds (f_last_seen f - f_first_seen f)))
      in [duration_us,
          fl (real (unat (rs_count (d_payload_len fw)))),
          fl (real (unat (rs_count (d_payload_len bw)))),
          rs_sum (d_payload_len fw),
          rs_sum (d_payload_len bw),
          rs_max (d_payload_len fw),
          rs_min (d_payload_len fw),
          rs_mean (d_payload_len fw),
          rs_stddev (d_payload_len fw),
          rs_max (d_payload_len bw),
          rs_min (d_payload_len bw),
          rs_mean (d_payload_len bw),
          rs_stddev (d_payload_len bw),
          rs_mean (d_iat_us fw),
          rs_stddev (d_iat_us fw),
          rs_max (d_iat_us fw),
          rs_min (d_iat_us fw),
          rs_mean (d_iat_us bw),
          rs_stddev (d_iat_us bw),
          rs_max (d_iat_us bw),
          rs_min (d_iat_us bw),
          count_sum (d_fin fw) (d_fin bw),
          count_sum (d_syn fw) (d_syn bw),
          count_sum (d_rst fw) (d_rst bw),
          count_sum (d_psh fw) (d_psh bw),
          count_sum (d_ack fw) (d_ack bw),
          count_sum (d_urg fw) (d_urg bw)])"

fun flow_end_reason_to_string :: "flow_end_reason \<Rightarrow> string" where
  "flow_end_reason_to_string TCP_FIN = ''tcp_fin''"
| "flow_end_reason_to_string TCP_RESET = ''tcp_reset''"
| "flow_end_reason_to_string TIMEOUT = ''timeout''"

lemma length_features: "length (flow_to_features f) = FLOW_FEATURE_COUNT"
  by (simp add: flow_to_features_def FLOW_FEATURE_COUNT_def Let_def)

section \<open>A flow as the sequence of its packets\<close>

type_synonym flow_trace = "(parsed_packet \<times> bool \<times> time_point) list"

definition flow_of_trace :: "five_tuple \<Rightarrow> packet_direction \<Rightarrow> time_point \<Rightarrow> flow_trace \<Rightarrow> flow" where
  "flow_of_trace key d t0 ps =
     fold (\<lambda>(p, fwd, t). update_flow_stats p fwd t) ps (open_flow key d t0)"

definition way :: "bool \<Rightarrow> flow_trace \<Rightarrow> parsed_packet list" where
  "way b ps = map fst (filter (\<lambda>(p, fwd, t). fwd = b) ps)"

definition lens :: "bool \<Rightarrow> flow_trace \<Rightarrow> nat list" where
  "lens b ps = map (\<lambda>p. unat (payload_len p)) (way b ps)"

definition flagged :: "u8 \<Rightarrow> bool \<Rightarrow> flow_trace \<Rightarrow> nat" where
  "flagged bit_mask b ps = length (filter (\<lambda>p. has_flag (tcp_flags p) bit_mask) (way b ps))"

definition side :: "bool \<Rightarrow> flow \<Rightarrow> direction_stats" where
  "side b f = (if b then f_forward f else f_backward f)"

lemma flow_of_trace_snoc [simp]:
  "flow_of_trace key d t0 [] = open_flow key d t0"
  "flow_of_trace key d t0 (ps @ [(p, fwd, t)]) = update_flow_stats p fwd t (flow_of_trace key d t0 ps)"
  by (simp_all add: flow_of_trace_def)

lemma way_simps [simp]:
  "way b [] = []"
  "way b (ps @ [(p, fwd, t)]) = way b ps @ (if fwd = b then [p] else [])"
  by (simp_all add: way_def)

lemma side_update:
  "side b (update_flow_stats p fwd t f) = (if fwd = b then update_direction p t (side b f) else side b f)"
  by (cases b) (simp_all add: side_def update_flow_stats_def Let_def)

lemma side_open: "side b (open_flow key d t0) = direction_empty"
  by (simp add: side_def open_flow_def)

lemma update_direction_sel:
  "d_payload_len (update_direction p t d) = rs_add (real (unat (payload_len p))) (d_payload_len d)"
  "d_syn (update_direction p t d) = d_syn d + (if has_flag (tcp_flags p) TH_SYN then 1 else 0)"
  "d_ack (update_direction p t d) = d_ack d + (if has_flag (tcp_flags p) TH_ACK then 1 else 0)"
  "d_fin (update_direction p t d) = d_fin d + (if has_flag (tcp_flags p) TH_FIN then 1 else 0)"
  "d_rst (update_direction p t d) = d_rst d + (if has_flag (tcp_flags p) TH_RST then 1 else 0)"
  "d_psh (update_direction p t d) = d_psh d + (if has_flag (tcp_flags p) TH_PUSH then 1 else 0)"
  "d_urg (update_direction p t d) = d_urg d + (if has_flag (tcp_flags p) TH_URG then 1 else 0)"
  by (simp_all add: update_direction_def count_flags_def Let_def)

lemma direction_empty_sel [simp]:
  "d_payload_len direction_empty = rs_empty" "d_iat_us direction_empty = rs_empty"
  "d_syn direction_empty = 0" "d_ack direction_empty = 0" "d_fin direction_empty = 0"
  "d_rst direction_empty = 0" "d_psh direction_empty = 0" "d_urg direction_empty = 0"
  by (simp_all add: direction_empty_def)

lemma payload_of_trace: "d_payload_len (side b (flow_of_trace key d t0 ps)) = rs_of (lens b ps)"
proof (induction ps rule: rev_induct)
  case (snoc x ps)
  then show ?case by (cases x) (simp add: side_update update_direction_sel lens_def)
qed (simp add: lens_def side_open)

lemma flags_of_trace:
  "d_syn (side b (flow_of_trace key d t0 ps)) = of_nat (flagged TH_SYN b ps)"
  "d_ack (side b (flow_of_trace key d t0 ps)) = of_nat (flagged TH_ACK b ps)"
  "d_fin (side b (flow_of_trace key d t0 ps)) = of_nat (flagged TH_FIN b ps)"
  "d_rst (side b (flow_of_trace key d t0 ps)) = of_nat (flagged TH_RST b ps)"
  "d_psh (side b (flow_of_trace key d t0 ps)) = of_nat (flagged TH_PUSH b ps)"
  "d_urg (side b (flow_of_trace key d t0 ps)) = of_nat (flagged TH_URG b ps)"
proof -
  have "d_syn (side b (flow_of_trace key d t0 ps)) = of_nat (flagged TH_SYN b ps) \<and>
    d_ack (side b (flow_of_trace key d t0 ps)) = of_nat (flagged TH_ACK b ps) \<and>
    d_fin (side b (flow_of_trace key d t0 ps)) = of_nat (flagged TH_FIN b ps) \<and>
    d_rst (side b (flow_of_trace key d t0 ps)) = of_nat (flagged TH_RST b ps) \<and>
    d_psh (side b (flow_of_trace key d t0 ps)) = of_nat (flagged TH_PUSH b ps) \<and>
    d_urg (side b (flow_of_trace key d t0 ps)) = of_nat (flagged TH_URG b ps)"
  proof (induction ps rule: rev_induct)
    case (snoc x ps)
    then show ?case by (cases x) (simp add: side_update update_direction_sel flagged_def)
  qed (simp add: flagged_def side_open)
  then show "d_syn (side b (flow_of_trace key d t0 ps)) = of_nat (flagged TH_SYN b ps)"
    "d_ack (side b (flow_of_trace key d t0 ps)) = of_nat (flagged TH_ACK b ps)"
    "d_fin (side b (flow_of_trace key d t0 ps)) = of_nat (flagged TH_FIN b ps)"
    "d_rst (side b (flow_of_trace key d t0 ps)) = of_nat (flagged TH_RST b ps)"
    "d_psh (side b (flow_of_trace key d t0 ps)) = of_nat (flagged TH_PUSH b ps)"
    "d_urg (side b (flow_of_trace key d t0 ps)) = of_nat (flagged TH_URG b ps)" by simp_all
qed

lemma times_of_trace:
  "f_first_seen (flow_of_trace key d t0 ps) = t0"
  "ps \<noteq> [] \<Longrightarrow> f_last_seen (flow_of_trace key d t0 ps) = snd (snd (last ps))"
proof -
  show "f_first_seen (flow_of_trace key d t0 ps) = t0"
  proof (induction ps rule: rev_induct)
    case (snoc x ps)
    then show ?case by (cases x) (simp add: update_flow_stats_def Let_def)
  qed (simp add: open_flow_def)
  show "ps \<noteq> [] \<Longrightarrow> f_last_seen (flow_of_trace key d t0 ps) = snd (snd (last ps))"
    by (cases ps rule: rev_cases) (auto simp: update_flow_stats_def Let_def)
qed

lemma length_way: "length (way True ps) + length (way False ps) = length ps"
  by (induction ps) (auto simp: way_def)

lemma lens_lengths: "length ps \<le> 2 ^ 21 \<Longrightarrow> lengths (lens b ps)"
  using length_way [of ps] by (cases b) (auto simp: lengths_def lens_def unat_u16_le)

lemma flagged_le: "flagged bit_mask b ps \<le> length ps"
proof -
  have "flagged bit_mask b ps \<le> length (way b ps)" by (simp add: flagged_def)
  also have "\<dots> \<le> length ps" using length_way [of ps] by (cases b) simp_all
  finally show ?thesis .
qed

lemma count_sum_exact:
  assumes "m \<le> 2 ^ 21" "n \<le> 2 ^ 21"
  shows "count_sum (of_nat m) (of_nat n) = real (m + n)"
proof -
  have "unat (of_nat m :: u32) = m" "unat (of_nat n :: u32) = n"
    using assms by (simp_all add: unat_of_nat)
  moreover have "fl (real m) = real m" "fl (real n) = real n" "fl (real (m + n)) = real (m + n)"
    using assms by (intro fl_of_nat; simp)+
  ultimately show ?thesis by (simp add: count_sum_def)
qed

text \<open>The feature vector says of a flow what happened on the wire: for a flow of up to \<open>2 ^ 21\<close>
  packets, the duration is the time from the first packet to the last in microseconds, the packet
  counts and byte counts of both ways, and all six flag counts are exact, the extremes are those of the
  payload lengths, and there are 27 features.\<close>

theorem features_of_packets:
  assumes "length ps \<le> 2 ^ 21" "lens True ps \<noteq> []" "lens False ps \<noteq> []"
  shows "let fs = flow_to_features (flow_of_trace key d t0 ps) in
    length fs = 27 \<and>
    fs ! 0 = fl (of_int (to_microseconds (snd (snd (last ps)) - t0))) \<and>
    fs ! 1 = real (length (lens True ps)) \<and> fs ! 2 = real (length (lens False ps)) \<and>
    fs ! 3 = real (sum_list (lens True ps)) \<and> fs ! 4 = real (sum_list (lens False ps)) \<and>
    fs ! 5 = real (Max (set (lens True ps))) \<and> fs ! 6 = real (Min (set (lens True ps))) \<and>
    fs ! 9 = real (Max (set (lens False ps))) \<and> fs ! 10 = real (Min (set (lens False ps))) \<and>
    drop 21 fs = map (\<lambda>bit_mask. real (flagged bit_mask True ps + flagged bit_mask False ps))
      [TH_FIN, TH_SYN, TH_RST, TH_PUSH, TH_ACK, TH_URG]"
proof -
  let ?f = "flow_of_trace key d t0 ps"
  have ps: "ps \<noteq> []" using assms(2) by (auto simp: lens_def)
  have l: "lengths (lens b ps)" for b by (rule lens_lengths [OF assms(1)])
  have pay: "d_payload_len (f_forward ?f) = rs_of (lens True ps)" "d_payload_len (f_backward ?f) = rs_of (lens False ps)"
    using payload_of_trace [of True] payload_of_trace [of False] by (simp_all add: side_def)
  have count: "fl (real (unat (rs_count (rs_of (lens b ps))))) = real (length (lens b ps))" for b
  proof -
    have "length (lens b ps) \<le> 2 ^ 53" using l [of b] by (simp add: lengths_def)
    then show ?thesis by (simp only: unat_count [OF l] fl_of_nat)
  qed
  have flag: "flagged bit_mask b ps \<le> 2 ^ 21" for bit_mask b
    using flagged_le [of bit_mask b ps] assms(1) by simp
  have sides: "f_forward ?f = side True ?f" "f_backward ?f = side False ?f" by (simp_all add: side_def)
  have flags: "count_sum (d_fin (f_forward ?f)) (d_fin (f_backward ?f)) = real (flagged TH_FIN True ps + flagged TH_FIN False ps)"
    "count_sum (d_syn (f_forward ?f)) (d_syn (f_backward ?f)) = real (flagged TH_SYN True ps + flagged TH_SYN False ps)"
    "count_sum (d_rst (f_forward ?f)) (d_rst (f_backward ?f)) = real (flagged TH_RST True ps + flagged TH_RST False ps)"
    "count_sum (d_psh (f_forward ?f)) (d_psh (f_backward ?f)) = real (flagged TH_PUSH True ps + flagged TH_PUSH False ps)"
    "count_sum (d_ack (f_forward ?f)) (d_ack (f_backward ?f)) = real (flagged TH_ACK True ps + flagged TH_ACK False ps)"
    "count_sum (d_urg (f_forward ?f)) (d_urg (f_backward ?f)) = real (flagged TH_URG True ps + flagged TH_URG False ps)"
    unfolding sides flags_of_trace by (intro count_sum_exact flag)+
  show ?thesis
    using l assms(2,3) rs_exact [OF l] rs_min_max [OF l]
    by (simp add: flow_to_features_def Let_def pay count [simplified] flags times_of_trace(1) times_of_trace(2) [OF ps] del: of_nat_add)
qed

definition sample_trace :: flow_trace where
  "sample_trace =
     [(\<lparr>tuple = mk_tuple 7 1 40000 80 6, total_len = 60, payload_len = 20, has_ports = True, tcp_flags = 2\<rparr>, True, 0),
      (\<lparr>tuple = mk_tuple 1 7 80 40000 6, total_len = 40, payload_len = 0, has_ports = True, tcp_flags = 18\<rparr>, False, 5000)]"

theorem features_of_packets_witness:
  "flow_to_features (flow_of_trace (mk_tuple 7 1 40000 80 6) INBOUND 0 sample_trace) ! 3 = 20"
  using features_of_packets [of sample_trace "mk_tuple 7 1 40000 80 6" INBOUND 0]
  by (simp add: sample_trace_def lens_def way_def Let_def)

end
