(* ===== verification/Packet_Capture.thy ===== *)
theory Packet_Capture
  imports Flow_Properties Detect_Rules White_List Block_List Flow_Features Config
begin

text \<open>
  capture/packet_capture.h and capture/packet_capture.cpp, the pipeline that gives each packet its
  verdict, with ai/ai_types.h, ai/flow_consumer.h and ai/logging_flow_consumer.cpp.

  The members of PacketCapture are the fields of one record; its methods take the record and return
  it updated. Each reading of the monotonic clock is one use of the parameter \<open>clock\<close>, whose argument
  counts the readings so far. The consumer of ended flows is an abstract class in the code and a table
  of its two operations here; its state is a type parameter. The handler of AI block events is an
  optional callback: the events it is called with are recorded. Log lines are not modelled, except
  that the records LoggingFlowConsumer logs are its state.
\<close>

section \<open>Decisions and consumers\<close>

record ai_decision =
  ad_record :: flow_record
  ad_anomaly :: bool
  ad_score :: double
  ad_threshold :: double
  ad_model_version :: string

record ai_block_event =
  ev_flow_id :: string
  ev_source_ip :: u32
  ev_score :: double
  ev_threshold :: double
  ev_ttl_seconds :: int
  ev_model_version :: string

record capture_stats =
  cs_rule_blocks :: u64
  cs_ai_new_blocks :: u64
  cs_ai_duplicates :: u64
  cs_ai_whitelisted :: u64

record 'c flow_consumer =
  fc_consume :: "flow_record \<Rightarrow> 'c \<Rightarrow> bool \<times> 'c"
  fc_drain :: "'c \<Rightarrow> ai_decision list \<times> 'c"

text \<open>The default of \<open>FlowConsumer::drain_decisions\<close>, and the logging consumer.\<close>

definition no_decisions :: "'c \<Rightarrow> ai_decision list \<times> 'c" where
  "no_decisions c = ([], c)"

definition logging_consumer :: "flow_record list flow_consumer" where
  "logging_consumer = \<lparr>fc_consume = (\<lambda>r log. (True, log @ [r])), fc_drain = no_decisions\<rparr>"

section \<open>The state\<close>

record 'c packet_capture =
  pc_block_ttl_seconds :: int
  pc_whitelist :: whitelist
  pc_block_list :: block_list
  pc_flow_manager :: flow_manager
  pc_rule_engine :: rule_engine
  pc_consumer :: 'c
  pc_has_handler :: bool
  pc_handler_calls :: "ai_block_event list"
  pc_stats :: capture_stats
  pc_steady_anchor :: time_point
  pc_wall_anchor :: time_point
  pc_sensor_instance_id :: string
  pc_next_flow_sequence :: u64
  pc_clock_reads :: nat

definition string_of_int :: "int \<Rightarrow> string" where
  "string_of_int i = (if i < 0 then ''-'' @ string_of_nat (nat (- i)) else string_of_nat (nat i))"

definition new_packet_capture ::
    "(nat \<Rightarrow> nat) \<Rightarrow> (nat \<Rightarrow> time_point) \<Rightarrow> time_point \<Rightarrow> config \<Rightarrow> whitelist \<Rightarrow> 'c \<Rightarrow> bool \<Rightarrow> 'c packet_capture" where
  "new_packet_capture reserved clock wall cfg wl consumer has_handler =
     \<lparr>pc_block_ttl_seconds = block_ttl_seconds cfg,
      pc_whitelist = wl,
      pc_block_list = block_list_empty,
      pc_flow_manager = new_flow_manager reserved (window_seconds cfg) MAX_FLOWS MAX_SOURCES,
      pc_rule_engine = standard_rules (distinct_port_threshold cfg) (syn_threshold cfg),
      pc_consumer = consumer,
      pc_has_handler = has_handler,
      pc_handler_calls = [],
      pc_stats = \<lparr>cs_rule_blocks = 0, cs_ai_new_blocks = 0, cs_ai_duplicates = 0, cs_ai_whitelisted = 0\<rparr>,
      pc_steady_anchor = clock 0,
      pc_wall_anchor = wall,
      pc_sensor_instance_id = string_of_int (to_microseconds wall),
      pc_next_flow_sequence = 1,
      pc_clock_reads = 1\<rparr>"

definition read_clock :: "(nat \<Rightarrow> time_point) \<Rightarrow> 'c packet_capture \<Rightarrow> time_point \<times> 'c packet_capture" where
  "read_clock clock pc = (clock (pc_clock_reads pc), pc\<lparr>pc_clock_reads := Suc (pc_clock_reads pc)\<rparr>)"

definition capture_stats_of :: "'c packet_capture \<Rightarrow> capture_stats" where
  "capture_stats_of pc = pc_stats pc"

section \<open>Ended flows\<close>

definition to_epoch_ms :: "'c packet_capture \<Rightarrow> time_point \<Rightarrow> int" where
  "to_epoch_ms pc point = to_milliseconds (pc_wall_anchor pc + (point - pc_steady_anchor pc))"

definition next_flow_id :: "'c packet_capture \<Rightarrow> string \<times> 'c packet_capture" where
  "next_flow_id pc =
     (pc_sensor_instance_id pc @ ''-'' @ string_of_nat (unat (pc_next_flow_sequence pc)),
      pc\<lparr>pc_next_flow_sequence := pc_next_flow_sequence pc + 1\<rparr>)"

definition consume_flow ::
    "'c flow_consumer \<Rightarrow> (nat \<Rightarrow> time_point) \<Rightarrow> ended_flow \<Rightarrow> 'c packet_capture \<Rightarrow> 'c packet_capture" where
  "consume_flow ops clock ended pc =
     (let f = e_flow ended in
      if f_origin f \<noteq> REMOTE_INITIATED then pc
      else if rs_count (d_payload_len (f_forward f)) + rs_count (d_payload_len (f_backward f)) \<le> 1 then pc
      else
        let src = src_ip (f_key f); (now, pc) = read_clock clock pc in
        if is_whitelisted (pc_whitelist pc) src \<or> is_blocked (pc_block_list pc) src now then pc
        else
          let (flow_id, pc) = next_flow_id pc;
              record = \<lparr>r_flow_id = flow_id, r_key = f_key f,
                        r_first_seen_ms = to_epoch_ms pc (f_first_seen f),
                        r_last_seen_ms = to_epoch_ms pc (f_last_seen f),
                        r_end_reason = e_reason ended,
                        r_feature_schema_version = FLOW_FEATURE_SCHEMA_VERSION,
                        r_features = flow_to_features f\<rparr>
          in pc\<lparr>pc_consumer := snd (fc_consume ops record (pc_consumer pc))\<rparr>)"

definition finish_flow ::
    "'c flow_consumer \<Rightarrow> (nat \<Rightarrow> time_point) \<Rightarrow> parsed_packet \<Rightarrow> 'c packet_capture \<Rightarrow> 'c packet_capture" where
  "finish_flow ops clock p pc =
     (case extract_completed (tuple p) (pc_flow_manager pc) of
        (None, fm) \<Rightarrow> pc\<lparr>pc_flow_manager := fm\<rparr>
      | (Some ended, fm) \<Rightarrow> consume_flow ops clock ended (pc\<lparr>pc_flow_manager := fm\<rparr>))"

section \<open>Verdicts\<close>

definition handle_inbound ::
    "'c flow_consumer \<Rightarrow> (nat \<Rightarrow> time_point) \<Rightarrow> parsed_packet \<Rightarrow> time_point \<Rightarrow> 'c packet_capture \<Rightarrow> bool \<times> 'c packet_capture" where
  "handle_inbound ops clock p now pc =
     (let src = src_ip (tuple p) in
      if is_whitelisted (pc_whitelist pc) src then (True, pc)
      else if is_blocked (pc_block_list pc) src now then (False, pc)
      else if \<not> has_ports p then (True, pc)
      else
        let (stats, fm) = observe_packet p INBOUND now (pc_flow_manager pc);
            pc = pc\<lparr>pc_flow_manager := fm\<rparr>
        in case (case stats of None \<Rightarrow> None | Some s \<Rightarrow> check (pc_rule_engine pc) s) of
             Some hit \<Rightarrow>
               (False, pc\<lparr>pc_flow_manager := discard_source_flows src fm,
                          pc_stats := (pc_stats pc)\<lparr>cs_rule_blocks := cs_rule_blocks (pc_stats pc) + 1\<rparr>,
                          pc_block_list := block src (pc_block_ttl_seconds pc) now (pc_block_list pc)\<rparr>)
           | None \<Rightarrow> (True, finish_flow ops clock p pc))"

definition handle_outbound ::
    "'c flow_consumer \<Rightarrow> (nat \<Rightarrow> time_point) \<Rightarrow> parsed_packet \<Rightarrow> time_point \<Rightarrow> 'c packet_capture \<Rightarrow> bool \<times> 'c packet_capture" where
  "handle_outbound ops clock p now pc =
     (let dst = dst_ip (tuple p) in
      if is_whitelisted (pc_whitelist pc) dst \<or> is_blocked (pc_block_list pc) dst now \<or> \<not> has_ports p
      then (True, pc)
      else (True, finish_flow ops clock p
             (pc\<lparr>pc_flow_manager := snd (observe_packet p OUTBOUND now (pc_flow_manager pc))\<rparr>)))"

text \<open>The parser never leaves its buffer (theory Packet_Parser), so the fault has no behaviour here.\<close>

definition on_packet ::
    "'c flow_consumer \<Rightarrow> (nat \<Rightarrow> time_point) \<Rightarrow> u8 list option \<Rightarrow> packet_direction \<Rightarrow> 'c packet_capture \<Rightarrow>
     bool \<times> 'c packet_capture" where
  "on_packet ops clock data direction pc =
     (if direction = UNKNOWN then (True, pc)
      else
        let (now, pc) = read_clock clock pc in
        case parse data of
          Inl fault \<Rightarrow> (True, pc)
        | Inr None \<Rightarrow> (True, pc)
        | Inr (Some p) \<Rightarrow>
            if direction = INBOUND then handle_inbound ops clock p now pc
            else handle_outbound ops clock p now pc)"

section \<open>Decisions of the model\<close>

definition apply_decision :: "time_point \<Rightarrow> ai_decision \<Rightarrow> 'c packet_capture \<Rightarrow> 'c packet_capture" where
  "apply_decision now d pc =
     (let src = src_ip (r_key (ad_record d)); stats = pc_stats pc in
      if \<not> ad_anomaly d then pc
      else if is_whitelisted (pc_whitelist pc) src then
        pc\<lparr>pc_stats := stats\<lparr>cs_ai_whitelisted := cs_ai_whitelisted stats + 1\<rparr>\<rparr>
      else if is_blocked (pc_block_list pc) src now then
        pc\<lparr>pc_stats := stats\<lparr>cs_ai_duplicates := cs_ai_duplicates stats + 1\<rparr>\<rparr>
      else
        pc\<lparr>pc_flow_manager := discard_source_flows src (pc_flow_manager pc),
           pc_block_list := block src (pc_block_ttl_seconds pc) now (pc_block_list pc),
           pc_stats := stats\<lparr>cs_ai_new_blocks := cs_ai_new_blocks stats + 1\<rparr>,
           pc_handler_calls := pc_handler_calls pc @
             (if pc_has_handler pc
              then [\<lparr>ev_flow_id = r_flow_id (ad_record d), ev_source_ip = src, ev_score = ad_score d,
                     ev_threshold = ad_threshold d, ev_ttl_seconds = pc_block_ttl_seconds pc,
                     ev_model_version = ad_model_version d\<rparr>]
              else [])\<rparr>)"

definition apply_ai_decisions ::
    "'c flow_consumer \<Rightarrow> time_point \<Rightarrow> 'c packet_capture \<Rightarrow> 'c packet_capture" where
  "apply_ai_decisions ops now pc =
     (let (decisions, consumer) = fc_drain ops (pc_consumer pc)
      in fold (apply_decision now) decisions (pc\<lparr>pc_consumer := consumer\<rparr>))"

definition on_tick :: "'c flow_consumer \<Rightarrow> (nat \<Rightarrow> time_point) \<Rightarrow> 'c packet_capture \<Rightarrow> 'c packet_capture" where
  "on_tick ops clock pc =
     (let (now, pc) = read_clock clock pc;
          pc = apply_ai_decisions ops now pc;
          (expired, fm) = cleanup_expired now (pc_flow_manager pc);
          pc = fold (consume_flow ops clock) expired (pc\<lparr>pc_flow_manager := fm\<rparr>)
      in pc\<lparr>pc_block_list := block_cleanup now (pc_block_list pc)\<rparr>)"

end
