(* ===== verification/Packet_Source.thy ===== *)
theory Packet_Source
  imports Packet_Capture Firewall_Guard
begin

text \<open>
  capture/packet_source.h and capture/packet_source.cpp, the source of packets over
  libnetfilter_queue, and the start and stop of PacketCapture (capture/packet_capture.cpp), which
  open the source, hang the firewall rules in, run the receive loop and undo both.

  The library is a parameter: the result of a call may depend on all calls before it. A pointer it
  returns is a number, null being 0. The handlers the source is built with are parameters too, over
  the state they work on; a handler that throws gives no verdict. What each turn of the receive loop
  meets - a request to stop, what \<open>recv\<close> gives, the readings of the clock - is the loop's input.
\<close>

section \<open>The library\<close>

datatype nfq_call =
    Nfq_open
  | Nfq_unbind_pf
  | Nfq_bind_pf
  | Nfq_create_queue u16
  | Nfq_set_mode nat
  | Nfq_set_queue_maxlen nat
  | Nfnl_rcvbufsiz nat
  | Nfq_fd
  | Set_recv_timeout nat
  | Nfq_destroy_queue
  | Nfq_close

type_synonym nfq_library = "(nfq_call \<times> int) list \<Rightarrow> nfq_call \<Rightarrow> int"

text \<open>A packet as the callback gets it: the identifier of its header, if it has one, the hook it came
  through, and its payload, if it can be read.\<close>

record kernel_packet =
  kp_id :: "u32 option"
  kp_hook :: u8
  kp_payload :: "u8 list option"

definition NF_INET_LOCAL_IN :: u8 where "NF_INET_LOCAL_IN = 1"
definition NF_INET_LOCAL_OUT :: u8 where "NF_INET_LOCAL_OUT = 3"

definition MAX_COPY_BYTES :: nat where "MAX_COPY_BYTES = 128"
definition RECV_TIMEOUT_SEC :: nat where "RECV_TIMEOUT_SEC = 1"
definition CLEANUP_INTERVAL_SEC :: int where "CLEANUP_INTERVAL_SEC = 1"
definition ENOBUFS_LOG_INTERVAL_SEC :: int where "ENOBUFS_LOG_INTERVAL_SEC = 5"

section \<open>The state\<close>

record 'c packet_source =
  src_queue_num :: u16
  src_handle :: bool
  src_queue :: bool
  src_fd :: int
  src_running :: bool
  src_stop_requested :: bool
  src_client :: 'c
  src_calls :: "(nfq_call \<times> int) list"
  src_verdicts :: "(u32 \<times> bool) list"

definition new_source :: "u16 \<Rightarrow> 'c \<Rightarrow> 'c packet_source" where
  "new_source q client =
     \<lparr>src_queue_num = q, src_handle = False, src_queue = False, src_fd = -1, src_running = False,
      src_stop_requested = False, src_client = client, src_calls = [], src_verdicts = []\<rparr>"

definition nfq :: "nfq_library \<Rightarrow> nfq_call \<Rightarrow> 'c packet_source \<Rightarrow> int \<times> 'c packet_source" where
  "nfq lib c s = (let r = lib (src_calls s) c in (r, s\<lparr>src_calls := src_calls s @ [(c, r)]\<rparr>))"

section \<open>Opening and closing\<close>

definition source_close :: "nfq_library \<Rightarrow> 'c packet_source \<Rightarrow> bool \<times> 'c packet_source" where
  "source_close lib s =
     (let (queue_ok, s) =
            (if src_queue s then case nfq lib Nfq_destroy_queue s of (r, s) \<Rightarrow> (0 \<le> r, s\<lparr>src_queue := False\<rparr>)
             else (True, s));
          (handle_ok, s) =
            (if src_handle s then case nfq lib Nfq_close s of (r, s) \<Rightarrow> (0 \<le> r, s\<lparr>src_handle := False\<rparr>)
             else (True, s))
      in (queue_ok \<and> handle_ok, s\<lparr>src_fd := -1\<rparr>))"

text \<open>What \<open>open\<close> does once it has the queue; failures of the calls that only tune it are logged.\<close>

definition configure_queue :: "nfq_library \<Rightarrow> 'c packet_source \<Rightarrow> bool \<times> 'c packet_source" where
  "configure_queue lib s =
     (let (mode, s) = nfq lib (Nfq_set_mode MAX_COPY_BYTES) s in
      if mode < 0 then (False, snd (source_close lib s))
      else
        let (maxlen, s) = nfq lib (Nfq_set_queue_maxlen 10240) s;
            (rcvbuf, s) = nfq lib (Nfnl_rcvbufsiz (4 * 1024 * 1024)) s;
            (fd, s) = nfq lib Nfq_fd s;
            (timeout, s) = nfq lib (Set_recv_timeout RECV_TIMEOUT_SEC) (s\<lparr>src_fd := fd\<rparr>)
        in (True, s))"

definition source_open :: "nfq_library \<Rightarrow> 'c packet_source \<Rightarrow> bool \<times> 'c packet_source" where
  "source_open lib s =
     (let (handle, s) = nfq lib Nfq_open s; s = s\<lparr>src_handle := (handle \<noteq> 0)\<rparr> in
      if handle = 0 then (False, s)
      else
        let (unbind, s) = nfq lib Nfq_unbind_pf s;
            (bind, s) = nfq lib Nfq_bind_pf s;
            (queue, s) = nfq lib (Nfq_create_queue (src_queue_num s)) s;
            s = s\<lparr>src_queue := (queue \<noteq> 0)\<rparr>
        in if queue = 0 then (False, snd (source_close lib s)) else configure_queue lib s)"

section \<open>The receive loop\<close>

record 'c packet_handlers =
  on_data :: "u8 list \<Rightarrow> packet_direction \<Rightarrow> 'c \<Rightarrow> bool option \<times> 'c"
  on_timer :: "('c \<Rightarrow> 'c) option"

definition hook_direction :: "u8 \<Rightarrow> packet_direction" where
  "hook_direction hook =
     (if hook = NF_INET_LOCAL_IN then INBOUND else if hook = NF_INET_LOCAL_OUT then OUTBOUND else UNKNOWN)"

text \<open>A packet passes when it cannot be read, and when its handler throws.\<close>

definition on_packet_received :: "'c packet_handlers \<Rightarrow> kernel_packet \<Rightarrow> 'c packet_source \<Rightarrow> 'c packet_source" where
  "on_packet_received h k s =
     (case kp_id k of
        None \<Rightarrow> s
      | Some packet_id \<Rightarrow>
          let (accept, client) =
                (case kp_payload k of
                   None \<Rightarrow> (True, src_client s)
                 | Some data \<Rightarrow>
                     (case on_data h data (hook_direction (kp_hook k)) (src_client s) of
                        (verdict, client) \<Rightarrow> (case verdict of None \<Rightarrow> True | Some v \<Rightarrow> v, client)))
          in s\<lparr>src_client := client, src_verdicts := src_verdicts s @ [(packet_id, accept)]\<rparr>)"

datatype recv_result =
    Received "kernel_packet list"
  | Socket_closed
  | Interrupted
  | No_buffer_space
  | Recv_failed int

text \<open>One turn: whether another thread has asked to stop, what \<open>recv\<close> gives, the time the overflow log
  reads, and the time the clean-up reads.\<close>

record loop_turn =
  turn_stop :: bool
  turn_recv :: recv_result
  turn_log_now :: time_point
  turn_now :: time_point

record loop_vars =
  lv_last_cleanup :: time_point
  lv_last_enobufs_log :: time_point
  lv_enobufs_since_log :: u64

datatype loop_status = Looping | Ended bool

definition source_stop :: "'c packet_source \<Rightarrow> 'c packet_source" where
  "source_stop s = s\<lparr>src_stop_requested := True, src_running := False\<rparr>"

definition count_overflow :: "time_point \<Rightarrow> loop_vars \<Rightarrow> loop_vars" where
  "count_overflow now v =
     (let v = v\<lparr>lv_enobufs_since_log := lv_enobufs_since_log v + 1\<rparr> in
      if seconds ENOBUFS_LOG_INTERVAL_SEC \<le> now - lv_last_enobufs_log v
      then v\<lparr>lv_enobufs_since_log := 0, lv_last_enobufs_log := now\<rparr> else v)"

definition periodic_cleanup ::
    "'c packet_handlers \<Rightarrow> time_point \<Rightarrow> loop_vars \<times> 'c packet_source \<Rightarrow> loop_vars \<times> 'c packet_source" where
  "periodic_cleanup h now vs =
     (case vs of (v, s) \<Rightarrow>
        if seconds CLEANUP_INTERVAL_SEC \<le> now - lv_last_cleanup v
        then (v\<lparr>lv_last_cleanup := now\<rparr>,
              case on_timer h of None \<Rightarrow> s | Some f \<Rightarrow> s\<lparr>src_client := f (src_client s)\<rparr>)
        else (v, s))"

fun loop_turns ::
    "'c packet_handlers \<Rightarrow> loop_turn list \<Rightarrow> loop_vars \<times> 'c packet_source \<Rightarrow> loop_status \<times> 'c packet_source" where
  "loop_turns h [] (v, s) = (Looping, s)"
| "loop_turns h (t # ts) (v, s) =
     (let s = (if turn_stop t then source_stop s else s) in
      if \<not> (src_running s \<and> \<not> src_stop_requested s) then (Ended True, s\<lparr>src_running := False\<rparr>)
      else case turn_recv t of
        Socket_closed \<Rightarrow> (Ended False, s\<lparr>src_running := False\<rparr>)
      | Recv_failed e \<Rightarrow> (Ended False, s\<lparr>src_running := False\<rparr>)
      | Received ks \<Rightarrow> loop_turns h ts (periodic_cleanup h (turn_now t) (v, fold (on_packet_received h) ks s))
      | Interrupted \<Rightarrow> loop_turns h ts (periodic_cleanup h (turn_now t) (v, s))
      | No_buffer_space \<Rightarrow>
          loop_turns h ts (periodic_cleanup h (turn_now t) (count_overflow (turn_log_now t) v, s)))"

definition source_loop ::
    "'c packet_handlers \<Rightarrow> time_point \<Rightarrow> time_point \<Rightarrow> loop_turn list \<Rightarrow> 'c packet_source \<Rightarrow> loop_status \<times> 'c packet_source" where
  "source_loop h now1 now2 ts s =
     loop_turns h ts
       (\<lparr>lv_last_cleanup = now1, lv_last_enobufs_log = now2, lv_enobufs_since_log = 0\<rparr>, s\<lparr>src_running := True\<rparr>)"

section \<open>Starting and stopping the capture\<close>

text \<open>The handlers PacketCapture builds its source with; its own never throw.\<close>

definition capture_handlers ::
    "'c flow_consumer \<Rightarrow> (nat \<Rightarrow> time_point) \<Rightarrow> 'c packet_capture packet_handlers" where
  "capture_handlers ops clock =
     \<lparr>on_data = (\<lambda>data direction pc. case on_packet ops clock (Some data) direction pc of (v, pc) \<Rightarrow> (Some v, pc)),
      on_timer = Some (on_tick ops clock)\<rparr>"

text \<open>\<open>start\<close> returns when its loop does; it is \<open>None\<close> while the loop runs on.\<close>

definition capture_start ::
    "nfq_library \<Rightarrow> 'w iptables \<Rightarrow> 'c packet_handlers \<Rightarrow> time_point \<Rightarrow> time_point \<Rightarrow> loop_turn list \<Rightarrow>
     'c packet_source \<times> 'w firewall_guard \<Rightarrow> (bool \<times> 'c packet_source \<times> 'w firewall_guard) option" where
  "capture_start lib ipt h now1 now2 ts sg =
     (case sg of (s, g) \<Rightarrow>
      case source_open lib s of (opened, s) \<Rightarrow>
        if \<not> opened then Some (False, s, g)
        else case install ipt g of
          None \<Rightarrow> None
        | Some (installed, g) \<Rightarrow>
            if \<not> installed then Some (False, snd (source_close lib s), g)
            else case source_loop h now1 now2 ts s of
              (Looping, s) \<Rightarrow> None
            | (Ended loop_ok, s) \<Rightarrow>
                (case uninstall ipt g of
                   None \<Rightarrow> None
                 | Some (firewall_ok, g) \<Rightarrow>
                     (case source_close lib s of
                        (close_ok, s) \<Rightarrow> Some (loop_ok \<and> firewall_ok \<and> close_ok, s, g))))"

definition capture_stop :: "'c packet_source \<Rightarrow> 'c packet_source" where
  "capture_stop s = source_stop s"

end
