(* ===== verification/Capture_Properties.thy ===== *)
theory Capture_Properties
  imports Packet_Capture
begin

text \<open>
  The properties of the pipeline over every sequence of packets, ticks and steps of the consumer's
  own threads: its invariant, the exact verdict, the permanence of blocks and of the whitelist, the
  effect of the model's decisions, and what reaches the consumer.
\<close>

section \<open>Runs\<close>

text \<open>
  What happens to the capture thread: a packet, a tick, or the consumer's threads changing the
  consumer's state between two calls.
\<close>

datatype 'c capture_event =
    Packet "u8 list option" packet_direction
  | Tick
  | Consumer_runs "'c \<Rightarrow> 'c"

fun pc_step ::
    "'c flow_consumer \<Rightarrow> (nat \<Rightarrow> time_point) \<Rightarrow> 'c capture_event \<Rightarrow> 'c packet_capture \<Rightarrow> 'c packet_capture" where
  "pc_step ops clock (Packet data direction) pc = snd (on_packet ops clock data direction pc)"
| "pc_step ops clock Tick pc = on_tick ops clock pc"
| "pc_step ops clock (Consumer_runs f) pc = pc\<lparr>pc_consumer := f (pc_consumer pc)\<rparr>"

definition pc_run ::
    "'c flow_consumer \<Rightarrow> (nat \<Rightarrow> time_point) \<Rightarrow> 'c capture_event list \<Rightarrow> 'c packet_capture \<Rightarrow> 'c packet_capture" where
  "pc_run ops clock evs pc = fold (pc_step ops clock) evs pc"

lemma pc_run_simps [simp]:
  "pc_run ops clock [] pc = pc"
  "pc_run ops clock (ev # evs) pc = pc_run ops clock evs (pc_step ops clock ev pc)"
  by (simp_all add: pc_run_def)

section \<open>Two kinds of steps\<close>

text \<open>
  A step of the flow side touches neither the block list nor the configuration; a step that blocks
  adds one address. Every operation is a sequence of these.
\<close>

definition flow_side :: "'c packet_capture \<Rightarrow> 'c packet_capture \<Rightarrow> bool" where
  "flow_side pc pc' \<longleftrightarrow>
     pc_block_list pc' = pc_block_list pc \<and> pc_whitelist pc' = pc_whitelist pc \<and>
     pc_block_ttl_seconds pc' = pc_block_ttl_seconds pc \<and> pc_rule_engine pc' = pc_rule_engine pc \<and>
     pc_stats pc' = pc_stats pc \<and> pc_handler_calls pc' = pc_handler_calls pc \<and>
     pc_has_handler pc' = pc_has_handler pc \<and> pc_clock_reads pc \<le> pc_clock_reads pc' \<and>
     pc_sensor_instance_id pc' = pc_sensor_instance_id pc \<and>
     pc_steady_anchor pc' = pc_steady_anchor pc \<and> pc_wall_anchor pc' = pc_wall_anchor pc"

lemma flow_side_refl: "flow_side pc pc"
  by (simp add: flow_side_def)

lemma flow_side_trans: "flow_side pc pc' \<Longrightarrow> flow_side pc' pc'' \<Longrightarrow> flow_side pc pc''"
  by (auto simp: flow_side_def)

lemma flow_side_consume_flow: "flow_side pc (consume_flow ops clock e pc)"
  by (simp add: consume_flow_def read_clock_def next_flow_id_def Let_def flow_side_def)

lemma fm_consume_flow [simp]: "pc_flow_manager (consume_flow ops clock e pc) = pc_flow_manager pc"
  by (simp add: consume_flow_def read_clock_def next_flow_id_def Let_def)

lemma flow_side_consume_all: "flow_side pc (fold (consume_flow ops clock) es pc)"
  by (induction es arbitrary: pc) (auto intro: flow_side_refl flow_side_trans flow_side_consume_flow)

lemma fm_consume_all [simp]: "pc_flow_manager (fold (consume_flow ops clock) es pc) = pc_flow_manager pc"
  by (induction es arbitrary: pc) simp_all

lemma finish_flow_fm: "pc_flow_manager (finish_flow ops clock p pc) = snd (extract_completed (tuple p) (pc_flow_manager pc))"
  by (cases "extract_completed (tuple p) (pc_flow_manager pc)") (auto simp: finish_flow_def split: option.split)

lemma flow_side_fm: "flow_side pc (pc\<lparr>pc_flow_manager := fm\<rparr>)"
  by (simp add: flow_side_def)

lemma flow_side_finish_flow: "flow_side pc (finish_flow ops clock p pc)"
  by (cases "extract_completed (tuple p) (pc_flow_manager pc)")
     (auto simp: finish_flow_def intro: flow_side_fm flow_side_trans [OF flow_side_fm flow_side_consume_flow]
       split: option.split)

section \<open>The invariant\<close>

definition pc_inv :: "'c packet_capture \<Rightarrow> bool" where
  "pc_inv pc \<longleftrightarrow>
     fm_inv (pc_flow_manager pc) \<and> bl_inv (pc_block_list pc) \<and>
     (\<forall>ip. is_whitelisted (pc_whitelist pc) ip \<longrightarrow> block_map (pc_block_list pc) ip = None)"

lemma pc_invD:
  assumes "pc_inv pc"
  shows "fm_inv (pc_flow_manager pc)" "bl_inv (pc_block_list pc)"
    "is_whitelisted (pc_whitelist pc) ip \<Longrightarrow> block_map (pc_block_list pc) ip = None"
  using assms by (simp_all add: pc_inv_def)

lemma pc_inv_flow_side:
  "pc_inv pc \<Longrightarrow> flow_side pc pc' \<Longrightarrow> fm_inv (pc_flow_manager pc') \<Longrightarrow> pc_inv pc'"
  by (simp add: pc_inv_def flow_side_def)

lemma block_map_block: "block_map (block ip t now bl) = (block_map bl)(ip \<mapsto> now + seconds t)"
  by (simp add: block_def Let_def)

lemma pc_inv_block:
  assumes "pc_inv pc" "\<not> is_whitelisted (pc_whitelist pc) ip"
    "pc_block_list pc' = block ip t now (pc_block_list pc)" "pc_whitelist pc' = pc_whitelist pc"
    "fm_inv (pc_flow_manager pc')"
  shows "pc_inv pc'"
  using assms by (auto simp: pc_inv_def bl_inv_block block_map_block)

lemma pc_inv_inbound:
  assumes "pc_inv pc"
  shows "pc_inv (snd (handle_inbound ops clock p now pc))"
proof -
  obtain stats fm where obs: "observe_packet p INBOUND now (pc_flow_manager pc) = (stats, fm)"
    by (cases "observe_packet p INBOUND now (pc_flow_manager pc)")
  have fm: "fm_inv fm" using observe_packet_inv [OF pc_invD(1) [OF assms], of p INBOUND now] obs by simp
  let ?pc = "pc\<lparr>pc_flow_manager := fm\<rparr>"
  have "pc_inv (finish_flow ops clock p ?pc)"
    by (rule pc_inv_flow_side [OF assms flow_side_trans [OF flow_side_fm flow_side_finish_flow]])
       (simp add: finish_flow_fm extract_completed_inv fm)
  then show ?thesis
    using assms
    by (auto simp: handle_inbound_def obs Let_def fm discard_source_flows_refines(3)
        intro: pc_inv_block split: option.split)
qed

lemma pc_inv_outbound:
  assumes "pc_inv pc"
  shows "pc_inv (snd (handle_outbound ops clock p now pc))"
proof -
  let ?fm = "snd (observe_packet p OUTBOUND now (pc_flow_manager pc))"
  have "fm_inv ?fm" by (rule observe_packet_inv [OF pc_invD(1) [OF assms]])
  then have "pc_inv (finish_flow ops clock p (pc\<lparr>pc_flow_manager := ?fm\<rparr>))"
    by (intro pc_inv_flow_side [OF assms flow_side_trans [OF flow_side_fm flow_side_finish_flow]])
       (simp add: finish_flow_fm extract_completed_inv)
  with assms show ?thesis by (simp add: handle_outbound_def Let_def)
qed

lemma flow_side_read_clock: "flow_side pc (snd (read_clock clock pc))"
  by (simp add: read_clock_def flow_side_def)

lemma pc_inv_read_clock: "pc_inv pc \<Longrightarrow> pc_inv (snd (read_clock clock pc))"
  by (simp add: read_clock_def pc_inv_def)

lemma pc_inv_on_packet: "pc_inv pc \<Longrightarrow> pc_inv (snd (on_packet ops clock data direction pc))"
  using pc_inv_read_clock [of pc clock]
  by (auto simp: on_packet_def split_beta Let_def pc_inv_inbound pc_inv_outbound
      split: sum.split option.split)

definition decision_blocks :: "time_point \<Rightarrow> ai_decision \<Rightarrow> 'c packet_capture \<Rightarrow> bool" where
  "decision_blocks now d pc \<longleftrightarrow> ad_anomaly d \<and>
     \<not> is_whitelisted (pc_whitelist pc) (src_ip (r_key (ad_record d))) \<and>
     \<not> is_blocked (pc_block_list pc) (src_ip (r_key (ad_record d))) now"

lemma apply_decision_blocks:
  assumes "decision_blocks now d pc"
  shows "pc_block_list (apply_decision now d pc) =
      block (src_ip (r_key (ad_record d))) (pc_block_ttl_seconds pc) now (pc_block_list pc)"
    "pc_flow_manager (apply_decision now d pc) =
      discard_source_flows (src_ip (r_key (ad_record d))) (pc_flow_manager pc)"
  using assms by (simp_all add: decision_blocks_def apply_decision_def Let_def)

lemma apply_decision_skips:
  assumes "\<not> decision_blocks now d pc"
  shows "pc_block_list (apply_decision now d pc) = pc_block_list pc"
    "pc_flow_manager (apply_decision now d pc) = pc_flow_manager pc"
  using assms by (auto simp: decision_blocks_def apply_decision_def Let_def)

lemma apply_decision_frame:
  "pc_whitelist (apply_decision now d pc) = pc_whitelist pc"
  "pc_block_ttl_seconds (apply_decision now d pc) = pc_block_ttl_seconds pc"
  "pc_clock_reads (apply_decision now d pc) = pc_clock_reads pc"
  "pc_consumer (apply_decision now d pc) = pc_consumer pc"
  "pc_rule_engine (apply_decision now d pc) = pc_rule_engine pc"
  "pc_sensor_instance_id (apply_decision now d pc) = pc_sensor_instance_id pc"
  "pc_next_flow_sequence (apply_decision now d pc) = pc_next_flow_sequence pc"
  "pc_steady_anchor (apply_decision now d pc) = pc_steady_anchor pc"
  "pc_wall_anchor (apply_decision now d pc) = pc_wall_anchor pc"
  by (simp_all add: apply_decision_def Let_def)

lemma pc_inv_apply_decision:
  assumes "pc_inv pc"
  shows "pc_inv (apply_decision now d pc)"
proof (cases "decision_blocks now d pc")
  case True
  then have "\<not> is_whitelisted (pc_whitelist pc) (src_ip (r_key (ad_record d)))"
    by (simp add: decision_blocks_def)
  then show ?thesis
    using apply_decision_blocks [OF True] assms
    by (intro pc_inv_block [OF assms]) (simp_all add: apply_decision_frame discard_source_flows_refines(3) pc_invD(1))
next
  case False
  with assms show ?thesis by (simp add: pc_inv_def apply_decision_skips apply_decision_frame)
qed

lemma pc_inv_apply_ai_decisions: "pc_inv pc \<Longrightarrow> pc_inv (apply_ai_decisions ops now pc)"
proof -
  have "pc_inv pc \<Longrightarrow> pc_inv (fold (apply_decision now) ds pc)" for ds and pc :: "'a packet_capture"
    by (induction ds arbitrary: pc) (simp_all add: pc_inv_apply_decision)
  moreover assume "pc_inv pc"
  then have "pc_inv (pc\<lparr>pc_consumer := c\<rparr>)" for c by (simp add: pc_inv_def)
  ultimately show ?thesis by (simp add: apply_ai_decisions_def split_beta Let_def)
qed

lemma pc_inv_cleanup:
  assumes "pc_inv pc"
  shows "pc_inv (pc\<lparr>pc_block_list := block_cleanup now (pc_block_list pc)\<rparr>)"
proof -
  have "block_map (block_cleanup now (pc_block_list pc)) ip = None"
    if "is_whitelisted (pc_whitelist pc) ip" for ip
    using cleanup_map [OF pc_invD(2) [OF assms], of now ip] pc_invD(3) [OF assms that] by auto
  with assms show ?thesis by (simp add: pc_inv_def bl_inv_cleanup)
qed

text \<open>The parts of a tick.\<close>

definition tick_flows :: "'c flow_consumer \<Rightarrow> (nat \<Rightarrow> time_point) \<Rightarrow> time_point \<Rightarrow> 'c packet_capture \<Rightarrow> 'c packet_capture" where
  "tick_flows ops clock now pc =
     (let (expired, fm) = cleanup_expired now (pc_flow_manager pc)
      in fold (consume_flow ops clock) expired (pc\<lparr>pc_flow_manager := fm\<rparr>))"

lemma on_tick_parts:
  "on_tick ops clock pc =
     (let now = clock (pc_clock_reads pc);
          pc = tick_flows ops clock now (apply_ai_decisions ops now (snd (read_clock clock pc)))
      in pc\<lparr>pc_block_list := block_cleanup now (pc_block_list pc)\<rparr>)"
  by (simp add: on_tick_def tick_flows_def read_clock_def split_beta Let_def)

lemma flow_side_tick_flows: "flow_side pc (tick_flows ops clock now pc)"
  by (auto simp: tick_flows_def split_beta Let_def
      intro: flow_side_trans [OF flow_side_fm flow_side_consume_all])

lemma pc_inv_on_tick:
  assumes "pc_inv pc"
  shows "pc_inv (on_tick ops clock pc)"
proof -
  let ?now = "clock (pc_clock_reads pc)"
  let ?pc = "apply_ai_decisions ops ?now (snd (read_clock clock pc))"
  have inv: "pc_inv ?pc" by (intro pc_inv_apply_ai_decisions pc_inv_read_clock assms)
  have "pc_flow_manager (tick_flows ops clock ?now ?pc) = snd (cleanup_expired ?now (pc_flow_manager ?pc))"
    by (simp add: tick_flows_def split_beta Let_def)
  then have "pc_inv (tick_flows ops clock ?now ?pc)"
    by (intro pc_inv_flow_side [OF inv flow_side_tick_flows]) (simp add: cleanup_expired_inv pc_invD(1) [OF inv])
  then show ?thesis by (simp add: on_tick_parts Let_def pc_inv_cleanup)
qed

lemma pc_inv_step: "pc_inv pc \<Longrightarrow> pc_inv (pc_step ops clock ev pc)"
  by (cases ev) (auto simp: pc_inv_on_packet pc_inv_on_tick pc_inv_def [of "_\<lparr>pc_consumer := _\<rparr>"] dest: pc_invD)

lemma pc_inv_run: "pc_inv pc \<Longrightarrow> pc_inv (pc_run ops clock evs pc)"
  by (induction evs arbitrary: pc) (simp_all add: pc_inv_step)

lemma pc_inv_new:
  assumes "\<And>n. n \<le> reserved n \<and> 0 < reserved n"
  shows "pc_inv (new_packet_capture reserved clock wall cfg wl consumer has_handler)"
  by (simp add: pc_inv_def new_packet_capture_def bl_inv_empty fm_inv_new assms)
     (simp add: block_list_empty_def)

section \<open>The verdict\<close>

text \<open>The statistics a packet leads to, and the rule they violate.\<close>

definition rule_hit :: "parsed_packet \<Rightarrow> time_point \<Rightarrow> 'c packet_capture \<Rightarrow> rule option" where
  "rule_hit p now pc =
     (case fst (observe_packet p INBOUND now (pc_flow_manager pc)) of
        None \<Rightarrow> None | Some s \<Rightarrow> check (pc_rule_engine pc) s)"

lemma handle_inbound_verdict:
  "fst (handle_inbound ops clock p now pc) \<longleftrightarrow>
     is_whitelisted (pc_whitelist pc) (src_ip (tuple p)) \<or>
     \<not> is_blocked (pc_block_list pc) (src_ip (tuple p)) now \<and>
     (\<not> has_ports p \<or> rule_hit p now pc = None)"
  by (auto simp: handle_inbound_def rule_hit_def Let_def split_beta split: option.split)

text \<open>The verdict is exactly this: a packet is dropped if and only if it is inbound, its IP header
  is readable, its source is not whitelisted, and either the source is blocked at this moment (then
  also ICMP and fragments are dropped) or the packet has ports and brings its source over a rule's
  threshold. Everything else passes: outbound traffic, unknown hooks, and unreadable packets.\<close>

theorem verdict_exact:
  "\<not> fst (on_packet ops clock data direction pc) \<longleftrightarrow>
     direction = INBOUND \<and>
     (\<exists>p. parse data = Inr (Some p) \<and>
        \<not> is_whitelisted (pc_whitelist pc) (src_ip (tuple p)) \<and>
        (is_blocked (pc_block_list pc) (src_ip (tuple p)) (clock (pc_clock_reads pc)) \<or>
         has_ports p \<and> rule_hit p (clock (pc_clock_reads pc)) pc \<noteq> None))"
proof -
  have hit: "rule_hit p now (pc\<lparr>pc_clock_reads := n\<rparr>) = rule_hit p now pc" for p now n
    by (simp add: rule_hit_def split: option.split)
  show ?thesis
    by (cases direction)
       (auto simp: on_packet_def read_clock_def Let_def handle_inbound_verdict handle_outbound_def hit
         split: sum.split option.split)
qed

section \<open>Blocks last\<close>

lemma reads_on_packet: "pc_clock_reads pc \<le> pc_clock_reads (snd (on_packet ops clock data direction pc))"
proof -
  have "pc_clock_reads pc \<le> pc_clock_reads (finish_flow ops clock p (pc\<lparr>pc_flow_manager := fm\<rparr>))" for p fm and pc :: "'a packet_capture"
    using flow_side_trans [OF flow_side_fm flow_side_finish_flow] by (metis flow_side_def)
  from this [of "pc\<lparr>pc_clock_reads := Suc (pc_clock_reads pc)\<rparr>"] show ?thesis
    by (auto simp: on_packet_def read_clock_def Let_def handle_inbound_def handle_outbound_def split_beta
        split: sum.split option.split dest: Suc_leD)
qed

lemma apply_all_frame:
  "pc_whitelist (fold (apply_decision now) ds pc) = pc_whitelist pc"
  "pc_block_ttl_seconds (fold (apply_decision now) ds pc) = pc_block_ttl_seconds pc"
  "pc_clock_reads (fold (apply_decision now) ds pc) = pc_clock_reads pc"
  "pc_consumer (fold (apply_decision now) ds pc) = pc_consumer pc"
  "pc_rule_engine (fold (apply_decision now) ds pc) = pc_rule_engine pc"
  "pc_sensor_instance_id (fold (apply_decision now) ds pc) = pc_sensor_instance_id pc"
  "pc_next_flow_sequence (fold (apply_decision now) ds pc) = pc_next_flow_sequence pc"
  "pc_steady_anchor (fold (apply_decision now) ds pc) = pc_steady_anchor pc"
  "pc_wall_anchor (fold (apply_decision now) ds pc) = pc_wall_anchor pc"
  by (induction ds arbitrary: pc) (simp_all add: apply_decision_frame)

lemma apply_ai_decisions_frame:
  "pc_clock_reads (apply_ai_decisions ops now pc) = pc_clock_reads pc"
  "pc_whitelist (apply_ai_decisions ops now pc) = pc_whitelist pc"
  "pc_block_ttl_seconds (apply_ai_decisions ops now pc) = pc_block_ttl_seconds pc"
  "pc_sensor_instance_id (apply_ai_decisions ops now pc) = pc_sensor_instance_id pc"
  "pc_next_flow_sequence (apply_ai_decisions ops now pc) = pc_next_flow_sequence pc"
  "pc_steady_anchor (apply_ai_decisions ops now pc) = pc_steady_anchor pc"
  "pc_wall_anchor (apply_ai_decisions ops now pc) = pc_wall_anchor pc"
  by (simp_all add: apply_ai_decisions_def split_beta Let_def apply_all_frame)

lemma reads_on_tick: "Suc (pc_clock_reads pc) \<le> pc_clock_reads (on_tick ops clock pc)"
proof -
  let ?pc = "apply_ai_decisions ops (clock (pc_clock_reads pc)) (snd (read_clock clock pc))"
  have "pc_clock_reads ?pc \<le> pc_clock_reads (tick_flows ops clock (clock (pc_clock_reads pc)) ?pc)"
    using flow_side_tick_flows [of ?pc] by (simp add: flow_side_def)
  then show ?thesis by (simp add: on_tick_parts Let_def apply_ai_decisions_frame read_clock_def)
qed

lemma reads_step: "pc_clock_reads pc \<le> pc_clock_reads (pc_step ops clock ev pc)"
  using reads_on_packet reads_on_tick [of pc ops clock] by (cases ev) (auto dest: Suc_leD)

lemma reads_run: "pc_clock_reads pc \<le> pc_clock_reads (pc_run ops clock evs pc)"
proof (induction evs arbitrary: pc)
  case (Cons ev evs)
  show ?case
    using order_trans [OF reads_step Cons.IH [of "pc_step ops clock ev pc"]] by simp
qed simp

text \<open>While the entry of an address is not over, no step of the pipeline changes it.\<close>

lemma block_other:
  "block_map bl ip = Some e \<Longrightarrow> now < e \<Longrightarrow> \<not> is_blocked bl ip' now \<Longrightarrow>
   block_map (block ip' t now' bl) ip = Some e"
  by (auto simp: block_map_block is_blocked_def)

lemma on_packet_keeps_block:
  assumes "block_map (pc_block_list pc) ip = Some e" "clock (pc_clock_reads pc) < e"
  shows "block_map (pc_block_list (snd (on_packet ops clock data direction pc))) ip = Some e"
proof -
  have "pc_block_list (finish_flow ops clock p (pc\<lparr>pc_flow_manager := fm\<rparr>)) = pc_block_list pc" for p fm and pc :: "'a packet_capture"
    using flow_side_trans [OF flow_side_fm flow_side_finish_flow] by (metis flow_side_def)
  with assms block_other [OF assms] show ?thesis
    by (auto simp: on_packet_def read_clock_def Let_def handle_inbound_def handle_outbound_def split_beta
        split: sum.split option.split)
qed

lemma apply_decision_keeps_block:
  assumes "block_map (pc_block_list pc) ip = Some e" "now < e"
  shows "block_map (pc_block_list (apply_decision now d pc)) ip = Some e"
proof (cases "decision_blocks now d pc")
  case True
  then show ?thesis
    using block_other [OF assms] by (simp add: apply_decision_blocks decision_blocks_def)
next
  case False
  with assms show ?thesis by (simp add: apply_decision_skips)
qed

lemma apply_all_keeps_block:
  "block_map (pc_block_list pc) ip = Some e \<Longrightarrow> now < e \<Longrightarrow>
   block_map (pc_block_list (fold (apply_decision now) ds pc)) ip = Some e"
  by (induction ds arbitrary: pc) (simp_all add: apply_decision_keeps_block)

lemma cleanup_keeps_block:
  "bl_inv bl \<Longrightarrow> block_map bl ip = Some e \<Longrightarrow> now < e \<Longrightarrow> block_map (block_cleanup now bl) ip = Some e"
  using cleanup_map [of bl now ip] by auto

lemma on_tick_keeps_block:
  assumes "pc_inv pc" "block_map (pc_block_list pc) ip = Some e" "clock (pc_clock_reads pc) < e"
  shows "block_map (pc_block_list (on_tick ops clock pc)) ip = Some e"
proof -
  let ?now = "clock (pc_clock_reads pc)"
  let ?pc = "apply_ai_decisions ops ?now (snd (read_clock clock pc))"
  have inv: "pc_inv ?pc" by (intro pc_inv_apply_ai_decisions pc_inv_read_clock assms)
  have "block_map (pc_block_list ?pc) ip = Some e"
    unfolding apply_ai_decisions_def split_beta Let_def
    using assms(2,3) by (intro apply_all_keeps_block) (simp_all add: read_clock_def)
  moreover have "pc_block_list (tick_flows ops clock ?now ?pc) = pc_block_list ?pc"
    using flow_side_tick_flows [of ?pc] by (simp add: flow_side_def)
  ultimately show ?thesis
    using pc_invD(2) [OF inv] assms(3) by (simp add: on_tick_parts Let_def cleanup_keeps_block)
qed

lemma step_keeps_block:
  assumes "pc_inv pc" "block_map (pc_block_list pc) ip = Some e" "clock (pc_clock_reads pc) < e"
  shows "block_map (pc_block_list (pc_step ops clock ev pc)) ip = Some e"
  using assms by (cases ev) (simp_all add: on_packet_keeps_block on_tick_keeps_block)

lemma run_keeps_block:
  assumes "mono clock" "pc_inv pc" "block_map (pc_block_list pc) ip = Some e"
    "clock (pc_clock_reads (pc_run ops clock evs pc)) < e"
  shows "block_map (pc_block_list (pc_run ops clock evs pc)) ip = Some e"
  using assms(2-)
proof (induction evs arbitrary: pc)
  case (Cons ev evs)
  have "clock (pc_clock_reads pc) \<le> clock (pc_clock_reads (pc_run ops clock (ev # evs) pc))"
    by (rule monoD [OF assms(1) reads_run])
  with Cons.prems have "block_map (pc_block_list (pc_step ops clock ev pc)) ip = Some e"
    by (intro step_keeps_block) simp_all
  with Cons show ?case by (simp add: pc_inv_step)
qed simp

text \<open>So a source that is blocked until some time is dropped until then, whatever happens in between.\<close>

lemma blocked_source_dropped:
  assumes "mono clock" "pc_inv pc" "block_map (pc_block_list pc) (src_ip (tuple p)) = Some e"
    and "pc' = pc_run ops clock evs pc" "parse data = Inr (Some p)" "clock (pc_clock_reads pc') < e"
  shows "\<not> fst (on_packet ops clock data INBOUND pc')"
proof -
  have "block_map (pc_block_list pc') (src_ip (tuple p)) = Some e"
    unfolding assms(4) using assms(4,6) by (intro run_keeps_block [OF assms(1-3)]) simp_all
  then have blocked: "is_blocked (pc_block_list pc') (src_ip (tuple p)) (clock (pc_clock_reads pc'))"
    using assms(6) by (simp add: is_blocked_def)
  have "\<not> is_whitelisted (pc_whitelist pc') (src_ip (tuple p))"
    using pc_invD(3) [of pc' "src_ip (tuple p)"] pc_inv_run [OF assms(2), of ops clock evs] blocked assms(4)
    by (auto simp: is_blocked_def split: option.splits)
  with assms(5) blocked show ?thesis by (simp add: on_packet_def read_clock_def Let_def handle_inbound_verdict)
qed

lemma rule_drop_blocks:
  assumes "pc_inv pc" "parse data = Inr (Some p)" "has_ports p"
    "\<not> is_whitelisted (pc_whitelist pc) (src_ip (tuple p))"
    "\<not> is_blocked (pc_block_list pc) (src_ip (tuple p)) (clock (pc_clock_reads pc))"
    "rule_hit p (clock (pc_clock_reads pc)) pc \<noteq> None"
  shows "let pc' = snd (on_packet ops clock data INBOUND pc) in
    block_map (pc_block_list pc') (src_ip (tuple p)) =
      Some (clock (pc_clock_reads pc) + seconds (pc_block_ttl_seconds pc)) \<and>
    cs_rule_blocks (pc_stats pc') = cs_rule_blocks (pc_stats pc) + 1 \<and>
    (\<forall>k. src_ip k = src_ip (tuple p) \<longrightarrow> find_flow (pc_flow_manager pc') k = None)"
proof -
  let ?now = "clock (pc_clock_reads pc)"
  obtain stats fm where obs: "observe_packet p INBOUND ?now (pc_flow_manager pc) = (stats, fm)"
    by (cases "observe_packet p INBOUND ?now (pc_flow_manager pc)")
  with assms(6) obtain s r where hit: "stats = Some s" "check (pc_rule_engine pc) s = Some r"
    by (auto simp: rule_hit_def split: option.splits)
  have "fm_inv fm" using observe_packet_inv [OF pc_invD(1) [OF assms(1)], of p INBOUND ?now] obs by simp
  then show ?thesis
    using assms(2-5) obs hit
    by (simp add: on_packet_def read_clock_def handle_inbound_def Let_def block_map_block
        discard_source_flows_refines(1) spec_discard_def)
qed

lemma rule_drop_verdict:
  assumes "pc_inv pc" "parse data = Inr (Some p)" "has_ports p"
    "\<not> is_whitelisted (pc_whitelist pc) (src_ip (tuple p))"
    "\<not> is_blocked (pc_block_list pc) (src_ip (tuple p)) (clock (pc_clock_reads pc))"
    "rule_hit p (clock (pc_clock_reads pc)) pc \<noteq> None"
  shows "\<not> fst (on_packet ops clock data INBOUND pc) \<and>
    block_map (pc_block_list (snd (on_packet ops clock data INBOUND pc))) (src_ip (tuple p)) =
      Some (clock (pc_clock_reads pc) + seconds (pc_block_ttl_seconds pc))"
proof -
  have "rule_hit p now (pc\<lparr>pc_clock_reads := n\<rparr>) = rule_hit p now pc" for now n
    by (simp add: rule_hit_def split: option.split)
  with assms rule_drop_blocks [where clock = clock, OF assms] show ?thesis
    by (simp add: on_packet_def read_clock_def Let_def handle_inbound_verdict)
qed

text \<open>C1. A violation of a rule takes effect at once and lasts: the packet that hits is dropped, the
  flows its source has opened are gone, and from then on, whatever packets, ticks, model decisions
  and consumer steps follow, every inbound packet of the source with a readable IP header is dropped
  until the lifetime of the block has passed on the clock (which never goes back).\<close>

theorem rule_violation_blocks_for_ttl:
  assumes "mono clock" "pc_inv pc" "parse data = Inr (Some p)" "has_ports p"
    and "\<not> is_whitelisted (pc_whitelist pc) (src_ip (tuple p))"
    and "\<not> is_blocked (pc_block_list pc) (src_ip (tuple p)) (clock (pc_clock_reads pc))"
    and "rule_hit p (clock (pc_clock_reads pc)) pc \<noteq> None"
    and "pc' = pc_run ops clock evs (snd (on_packet ops clock data INBOUND pc))"
    and "parse data' = Inr (Some p')" "src_ip (tuple p') = src_ip (tuple p)"
    and "clock (pc_clock_reads pc') < clock (pc_clock_reads pc) + seconds (pc_block_ttl_seconds pc)"
  shows "\<not> fst (on_packet ops clock data INBOUND pc) \<and>
    \<not> fst (on_packet ops clock data' INBOUND pc')"
proof -
  have inv: "pc_inv (snd (on_packet ops clock data INBOUND pc))" by (rule pc_inv_on_packet [OF assms(2)])
  note hit = rule_drop_verdict [where ops = ops and clock = clock, OF assms(2-7)]
  with blocked_source_dropped [OF assms(1) inv _ assms(8,9,11)] assms(10) show ?thesis by simp
qed

text \<open>A sensor that blocks a source at its first packet with ports.\<close>

definition sample_sensor :: "whitelist \<Rightarrow> flow_record list packet_capture" where
  "sample_sensor wl =
     new_packet_capture Suc int 0 (default_config\<lparr>distinct_port_threshold := 1\<rparr>) wl [] False"

lemma sample_sensor_inv: "pc_inv (sample_sensor wl)"
  unfolding sample_sensor_def by (rule pc_inv_new) simp

lemma first_packet_stats:
  assumes "\<And>n. n \<le> reserved n \<and> 0 < reserved n" "0 < ms"
  shows "fst (observe_packet p INBOUND now (new_flow_manager reserved w mf ms)) =
    Some (count_source_packet p (fresh_source now))"
proof -
  let ?new = "new_flow_manager reserved w mf ms"
  have empty: "fm_abs ?new = ((\<lambda>_. None), (\<lambda>_. None))" "fm_max_sources ?new = ms"
    using assms by (simp_all add: fm_abs_def new_flow_manager_def um_find_reserve)
  have "fst (observe_packet p INBOUND now ?new) =
      fst (spec_observe (fm_max_flows ?new) ms (fm_window_seconds ?new) p INBOUND now ((\<lambda>_. None), (\<lambda>_. None)))"
    using observe_packet_refines [OF fm_inv_new [OF assms(1)], of p INBOUND now w mf ms] empty
    by (simp add: prod_eq_iff)
  then show ?thesis
    using assms(2)
    by (simp add: spec_observe_def spec_flow_def spec_source_def locate_def next_source_def Let_def open_flow_def
        split: if_splits)
qed

lemma sample_sensor_hits: "rule_hit p now (sample_sensor wl) \<noteq> None"
proof -
  have "dst_port (tuple p) \<in> recent_dst_ports (count_source_packet p (fresh_source now))"
    by (simp add: count_source_packet_def Let_def)
  then have "Suc 0 \<le> card (recent_dst_ports (count_source_packet p (fresh_source now)))"
    by (auto simp: Suc_le_eq card_gt_0_iff)
  then show ?thesis
    by (simp add: rule_hit_def sample_sensor_def new_packet_capture_def first_packet_stats MAX_SOURCES_def
        standard_rules_eq port_scan_match_def)
qed

theorem rule_violation_blocks_for_ttl_witness:
  "\<not> fst (on_packet logging_consumer int (Some udp_sample) INBOUND (sample_sensor {}))"
proof -
  obtain p where p: "parse (Some udp_sample) = Inr (Some p)" "has_ports p"
    using parse_udp_sample by blast
  let ?pc = "snd (on_packet logging_consumer int (Some udp_sample) INBOUND (sample_sensor {}))"
  have fields: "pc_whitelist (sample_sensor {}) = {}" "pc_block_list (sample_sensor {}) = block_list_empty"
    "pc_clock_reads (sample_sensor {}) = 1" "pc_block_ttl_seconds (sample_sensor {}) = 600"
    by (simp_all add: sample_sensor_def new_packet_capture_def default_config_def)
  have reads: "pc_clock_reads ?pc = 2"
    using sample_sensor_hits [of p 1 "{}"] p fields
    by (auto simp: on_packet_def read_clock_def handle_inbound_def rule_hit_def Let_def split_beta
        is_whitelisted_def is_blocked_def block_list_empty_def split: option.splits)
  show ?thesis
    using rule_violation_blocks_for_ttl [of int "sample_sensor {}" "Some udp_sample" p ?pc logging_consumer "[]"
        "Some udp_sample" p] p sample_sensor_inv sample_sensor_hits fields reads
    by (simp add: is_whitelisted_def is_blocked_def block_list_empty_def mono_def seconds_def)
qed

section \<open>The whitelist\<close>

lemma whitelist_step: "pc_whitelist (pc_step ops clock ev pc) = pc_whitelist pc"
proof (cases ev)
  case (Packet data direction)
  have "pc_whitelist (finish_flow ops clock p (pc\<lparr>pc_flow_manager := fm\<rparr>)) = pc_whitelist pc" for p fm and pc :: "'a packet_capture"
    using flow_side_trans [OF flow_side_fm flow_side_finish_flow] by (metis flow_side_def)
  with Packet show ?thesis
    by (auto simp: on_packet_def read_clock_def Let_def handle_inbound_def handle_outbound_def split_beta
        split: sum.split option.split)
next
  case Tick
  have "pc_whitelist (tick_flows ops clock now pc) = pc_whitelist pc" for now and pc :: "'a packet_capture"
    using flow_side_tick_flows [of pc ops clock now] by (simp add: flow_side_def)
  with Tick show ?thesis by (simp add: on_tick_parts Let_def apply_ai_decisions_frame read_clock_def)
qed simp

lemma sensor_step: "pc_sensor_instance_id (pc_step ops clock ev pc) = pc_sensor_instance_id pc"
proof (cases ev)
  case (Packet data direction)
  have "pc_sensor_instance_id (finish_flow ops clock p (pc\<lparr>pc_flow_manager := fm\<rparr>)) = pc_sensor_instance_id pc" for p fm and pc :: "'a packet_capture"
    using flow_side_trans [OF flow_side_fm flow_side_finish_flow] by (metis flow_side_def)
  with Packet show ?thesis
    by (auto simp: on_packet_def read_clock_def Let_def handle_inbound_def handle_outbound_def split_beta
        split: sum.split option.split)
next
  case Tick
  have "pc_sensor_instance_id (tick_flows ops clock now pc) = pc_sensor_instance_id pc" for now and pc :: "'a packet_capture"
    using flow_side_tick_flows [of pc ops clock now] by (simp add: flow_side_def)
  with Tick show ?thesis by (simp add: on_tick_parts Let_def apply_ai_decisions_frame read_clock_def)
qed simp

lemma sensor_run: "pc_sensor_instance_id (pc_run ops clock evs pc) = pc_sensor_instance_id pc"
  by (induction evs arbitrary: pc) (simp_all add: sensor_step)

lemma whitelist_run: "pc_whitelist (pc_run ops clock evs pc) = pc_whitelist pc"
  by (induction evs arbitrary: pc) (simp_all add: whitelist_step)

text \<open>C3. A whitelisted address is never blocked: from the start of the sensor on, after any packets,
  ticks, model decisions and consumer steps, the block list has no entry for it, and every packet it
  sends passes, whatever the rules and the model say of it.\<close>

theorem whitelisted_never_blocked:
  assumes "\<And>n. n \<le> reserved n \<and> 0 < reserved n" "is_whitelisted wl ip"
  shows "let pc = pc_run ops clock evs (new_packet_capture reserved clock wall cfg wl consumer has_handler) in
    block_map (pc_block_list pc) ip = None \<and>
    (\<forall>data p. parse data = Inr (Some p) \<and> src_ip (tuple p) = ip \<longrightarrow>
       fst (on_packet ops clock data INBOUND pc))"
proof -
  let ?new = "new_packet_capture reserved clock wall cfg wl consumer has_handler"
  let ?pc = "pc_run ops clock evs ?new"
  have wl: "pc_whitelist ?pc = wl" by (simp add: whitelist_run) (simp add: new_packet_capture_def)
  have "pc_inv ?pc" by (intro pc_inv_run pc_inv_new assms(1))
  then have "block_map (pc_block_list ?pc) ip = None" using pc_invD(3) [of ?pc ip] assms(2) wl by simp
  with assms(2) wl show ?thesis
    by (auto simp: Let_def on_packet_def read_clock_def handle_inbound_verdict)
qed

theorem whitelisted_never_blocked_witness:
  "block_map (pc_block_list (pc_run logging_consumer int [Packet (Some udp_sample) INBOUND, Tick]
     (new_packet_capture Suc int 0 (default_config\<lparr>distinct_port_threshold := 1\<rparr>) {0x0200000a} [] False))) 0x0200000a = None"
  using whitelisted_never_blocked [of Suc "{0x0200000a}" "0x0200000a" logging_consumer int
      "[Packet (Some udp_sample) INBOUND, Tick]" 0 "default_config\<lparr>distinct_port_threshold := 1\<rparr>" "[]" False]
  by (simp add: is_whitelisted_def Let_def del: pc_run_simps)

section \<open>Decisions of the model\<close>

definition ai_total :: "capture_stats \<Rightarrow> u64" where
  "ai_total s = cs_ai_new_blocks s + cs_ai_duplicates s + cs_ai_whitelisted s"

definition anomalies :: "ai_decision list \<Rightarrow> nat" where
  "anomalies ds = length (filter ad_anomaly ds)"

definition accused :: "u32 \<Rightarrow> ai_decision list \<Rightarrow> bool" where
  "accused ip ds \<longleftrightarrow> filter (\<lambda>d. ad_anomaly d \<and> src_ip (r_key (ad_record d)) = ip) ds \<noteq> []"

lemma accused_simps [simp]:
  "\<not> accused ip []"
  "accused ip (d # ds) \<longleftrightarrow> ad_anomaly d \<and> src_ip (r_key (ad_record d)) = ip \<or> accused ip ds"
  by (auto simp: accused_def)

lemma ai_total_step:
  "ai_total (pc_stats (apply_decision now d pc)) = ai_total (pc_stats pc) + (if ad_anomaly d then 1 else 0)"
  by (simp add: apply_decision_def ai_total_def Let_def)

lemma ai_total_all:
  "ai_total (pc_stats (fold (apply_decision now) ds pc)) = ai_total (pc_stats pc) + of_nat (anomalies ds)"
proof (induction ds arbitrary: pc)
  case (Cons d ds)
  then show ?case by (simp add: ai_total_step anomalies_def)
qed (simp add: anomalies_def)

lemma blocked_after_step:
  assumes "0 < pc_block_ttl_seconds pc"
  shows "block_map (pc_block_list (apply_decision now d pc)) ip =
    (if \<not> is_blocked (pc_block_list pc) ip now \<and> \<not> is_whitelisted (pc_whitelist pc) ip \<and> accused ip [d]
     then Some (now + seconds (pc_block_ttl_seconds pc)) else block_map (pc_block_list pc) ip)"
proof (cases "decision_blocks now d pc")
  case True
  then show ?thesis by (auto simp: apply_decision_blocks block_map_block decision_blocks_def)
next
  case False
  then show ?thesis by (auto simp: apply_decision_skips decision_blocks_def)
qed

lemma blocked_after_all:
  assumes "0 < pc_block_ttl_seconds pc"
  shows "block_map (pc_block_list (fold (apply_decision now) ds pc)) ip =
    (if \<not> is_blocked (pc_block_list pc) ip now \<and> \<not> is_whitelisted (pc_whitelist pc) ip \<and> accused ip ds
     then Some (now + seconds (pc_block_ttl_seconds pc)) else block_map (pc_block_list pc) ip)"
  using assms
proof (induction ds arbitrary: pc)
  case (Cons d ds)
  have "is_blocked (pc_block_list (apply_decision now d pc)) ip now \<longleftrightarrow>
      is_blocked (pc_block_list pc) ip now \<or> \<not> is_whitelisted (pc_whitelist pc) ip \<and> accused ip [d]"
    using Cons.prems by (auto simp: is_blocked_def blocked_after_step split: option.splits)
  with Cons show ?case by (simp add: apply_decision_frame blocked_after_step)
qed simp

text \<open>A tick after which an accused source is blocked for the whole lifetime.\<close>

lemma on_tick_blocks_accused:
  assumes "pc_inv pc" "0 < pc_block_ttl_seconds pc" "accused ip (fst (fc_drain ops (pc_consumer pc)))"
    and "\<not> is_whitelisted (pc_whitelist pc) ip" "\<not> is_blocked (pc_block_list pc) ip (clock (pc_clock_reads pc))"
  shows "block_map (pc_block_list (on_tick ops clock pc)) ip =
    Some (clock (pc_clock_reads pc) + seconds (pc_block_ttl_seconds pc))"
proof -
  let ?now = "clock (pc_clock_reads pc)"
  let ?pc = "apply_ai_decisions ops ?now (snd (read_clock clock pc))"
  have inv: "pc_inv ?pc" by (intro pc_inv_apply_ai_decisions pc_inv_read_clock assms)
  have "block_map (pc_block_list ?pc) ip = Some (?now + seconds (pc_block_ttl_seconds pc))"
    using assms(2-) by (simp add: apply_ai_decisions_def split_beta Let_def read_clock_def blocked_after_all)
  moreover have "pc_block_list (tick_flows ops clock ?now ?pc) = pc_block_list ?pc"
    using flow_side_tick_flows [of ?pc] by (simp add: flow_side_def)
  moreover have "?now < ?now + seconds (pc_block_ttl_seconds pc)" using assms(2) by (simp add: seconds_def)
  ultimately show ?thesis using pc_invD(2) [OF inv] by (simp add: on_tick_parts Let_def cleanup_keeps_block)
qed

text \<open>A batch of model decisions blocks exactly the accused: with a positive lifetime, a source ends
  with a new block, for the full lifetime, when some decision calls a flow of it anomalous and it was
  neither whitelisted nor blocked; every other entry of the block list is untouched, so a repeated
  accusation never extends a block. Each anomalous decision is counted once, as a new block, a
  duplicate or a whitelisted source.\<close>

theorem ai_decisions_block_exactly:
  assumes "0 < pc_block_ttl_seconds pc" "fc_drain ops (pc_consumer pc) = (ds, c)"
  shows "let pc' = apply_ai_decisions ops now pc in
    ai_total (pc_stats pc') = ai_total (pc_stats pc) + of_nat (anomalies ds) \<and>
    (\<forall>ip. block_map (pc_block_list pc') ip =
      (if accused ip ds \<and> \<not> is_whitelisted (pc_whitelist pc) ip \<and> \<not> is_blocked (pc_block_list pc) ip now
       then Some (now + seconds (pc_block_ttl_seconds pc)) else block_map (pc_block_list pc) ip))"
  using assms by (auto simp: apply_ai_decisions_def Let_def ai_total_all blocked_after_all)

definition sample_decision :: ai_decision where
  "sample_decision =
     \<lparr>ad_record = \<lparr>r_flow_id = ''0-1'', r_key = mk_tuple 7 1 40000 80 6, r_first_seen_ms = 0, r_last_seen_ms = 5,
        r_end_reason = TIMEOUT, r_feature_schema_version = 1, r_features = replicate 27 0\<rparr>,
      ad_anomaly = True, ad_score = Finite 1, ad_threshold = Finite (1 / 2), ad_model_version = ''v1''\<rparr>"

definition decided :: "ai_decision list flow_consumer" where
  "decided = \<lparr>fc_consume = (\<lambda>r ds. (True, ds)), fc_drain = (\<lambda>ds. (ds, []))\<rparr>"

definition sample_decided_sensor :: "ai_decision list packet_capture" where
  "sample_decided_sensor =
     new_packet_capture Suc int 0 default_config {} [sample_decision, sample_decision] False"

theorem ai_decisions_block_exactly_witness:
  "block_map (pc_block_list (apply_ai_decisions decided 5 sample_decided_sensor)) 7 = Some (5 + seconds 600)"
proof -
  have "pc_block_ttl_seconds sample_decided_sensor = 600" "pc_block_list sample_decided_sensor = block_list_empty"
    "pc_whitelist sample_decided_sensor = {}" "pc_consumer sample_decided_sensor = [sample_decision, sample_decision]"
    by (simp_all add: sample_decided_sensor_def new_packet_capture_def default_config_def)
  then show ?thesis
    using ai_decisions_block_exactly [of sample_decided_sensor decided "[sample_decision, sample_decision]" "[]" 5]
    by (simp add: Let_def decided_def is_whitelisted_def is_blocked_def block_list_empty_def sample_decision_def)
qed

section \<open>What reaches the consumer\<close>

text \<open>
  What the pipeline relies on of a consumer: a decision is about a record it was given. \<open>pending\<close> is
  what the consumer may still decide about; its own threads never add to it.
\<close>

locale decision_source =
  fixes ops :: "'c flow_consumer"
    and pending :: "'c \<Rightarrow> flow_record set"
  assumes consume_pending: "pending (snd (fc_consume ops r c)) \<subseteq> insert r (pending c)"
    and drain_pending: "pending (snd (fc_drain ops c)) \<subseteq> pending c"
    and drained: "d \<in> set (fst (fc_drain ops c)) \<Longrightarrow> ad_record d \<in> pending c"
begin

text \<open>A condition on records that holds of all that is pending, and of every record submitted.\<close>

definition all_pending :: "(flow_record \<Rightarrow> bool) \<Rightarrow> 'c packet_capture \<Rightarrow> bool" where
  "all_pending P pc \<longleftrightarrow> (\<forall>r \<in> pending (pc_consumer pc). P r)"

definition outside :: "whitelist \<Rightarrow> flow_record \<Rightarrow> bool" where
  "outside wl r \<longleftrightarrow> \<not> is_whitelisted wl (src_ip (r_key r))"

lemma consume_flow_pending:
  "all_pending (outside (pc_whitelist pc)) pc \<Longrightarrow>
   all_pending (outside (pc_whitelist pc)) (consume_flow ops clock e pc)"
  using consume_pending
  by (fastforce simp: consume_flow_def read_clock_def next_flow_id_def Let_def all_pending_def outside_def)

lemma consume_all_pending:
  "all_pending (outside (pc_whitelist pc)) pc \<Longrightarrow>
   all_pending (outside (pc_whitelist pc)) (fold (consume_flow ops clock) es pc)"
proof (induction es arbitrary: pc)
  case (Cons e es)
  have "pc_whitelist (consume_flow ops clock e pc) = pc_whitelist pc"
    using flow_side_consume_flow [of pc ops clock e] by (simp add: flow_side_def)
  then show ?case using Cons.IH [of "consume_flow ops clock e pc"] consume_flow_pending [OF Cons.prems] by simp
qed simp

lemma pending_fm [simp]: "all_pending P (pc\<lparr>pc_flow_manager := fm\<rparr>) = all_pending P pc"
  by (simp add: all_pending_def)

lemma finish_flow_pending:
  "all_pending (outside (pc_whitelist pc)) pc \<Longrightarrow>
   all_pending (outside (pc_whitelist pc)) (finish_flow ops clock p pc)"
  using consume_flow_pending [of "pc\<lparr>pc_flow_manager := snd (extract_completed (tuple p) (pc_flow_manager pc))\<rparr>"]
  by (cases "extract_completed (tuple p) (pc_flow_manager pc)") (auto simp: finish_flow_def split: option.split)

lemma apply_all_pending:
  "all_pending P pc \<Longrightarrow> all_pending P (apply_ai_decisions ops now pc)"
  using drain_pending
  by (auto simp: apply_ai_decisions_def split_beta Let_def all_pending_def apply_all_frame)

lemma on_packet_pending:
  assumes "all_pending (outside (pc_whitelist pc)) pc"
  shows "all_pending (outside (pc_whitelist pc)) (snd (on_packet ops clock data direction pc))"
proof -
  have fin: "all_pending (outside (pc_whitelist pc)) (finish_flow ops clock p (pc\<lparr>pc_clock_reads := n, pc_flow_manager := fm\<rparr>))" for p n fm
    using finish_flow_pending [of "pc\<lparr>pc_clock_reads := n, pc_flow_manager := fm\<rparr>" clock p] assms
    by (simp add: all_pending_def)
  with assms show ?thesis
    by (auto simp: on_packet_def read_clock_def Let_def handle_inbound_def handle_outbound_def split_beta all_pending_def
        split: sum.split option.split)
qed

lemma on_tick_pending:
  assumes "all_pending (outside (pc_whitelist pc)) pc"
  shows "all_pending (outside (pc_whitelist pc)) (on_tick ops clock pc)"
proof -
  let ?now = "clock (pc_clock_reads pc)"
  let ?pc = "apply_ai_decisions ops ?now (snd (read_clock clock pc))"
  have "pc_whitelist ?pc = pc_whitelist pc" by (simp add: apply_ai_decisions_frame read_clock_def)
  moreover have "all_pending (outside (pc_whitelist pc)) ?pc"
    using assms by (intro apply_all_pending) (simp add: all_pending_def read_clock_def)
  ultimately have "all_pending (outside (pc_whitelist pc)) (tick_flows ops clock ?now ?pc)"
    using consume_all_pending [of "?pc\<lparr>pc_flow_manager := snd (cleanup_expired ?now (pc_flow_manager ?pc))\<rparr>"]
    by (simp add: tick_flows_def split_beta Let_def)
  then show ?thesis by (simp add: on_tick_parts Let_def all_pending_def)
qed

definition quiet :: "'c capture_event \<Rightarrow> bool" where
  "quiet ev \<longleftrightarrow> (case ev of Consumer_runs f \<Rightarrow> (\<forall>c. pending (f c) \<subseteq> pending c) | _ \<Rightarrow> True)"

lemma run_pending:
  assumes "\<forall>ev \<in> set evs. quiet ev" "all_pending (outside (pc_whitelist pc)) pc"
  shows "all_pending (outside (pc_whitelist pc)) (pc_run ops clock evs pc)"
  using assms
proof (induction evs arbitrary: pc)
  case (Cons ev evs)
  have "all_pending (outside (pc_whitelist pc)) (pc_step ops clock ev pc)"
  proof (cases ev)
    case (Consumer_runs f)
    with Cons.prems(1) have "pending (f c) \<subseteq> pending c" for c by (simp add: quiet_def)
    then show ?thesis using Cons.prems(2) Consumer_runs by (auto simp: all_pending_def)
  qed (use Cons.prems in \<open>simp_all add: on_packet_pending on_tick_pending\<close>)
  then show ?case using Cons.IH [of "pc_step ops clock ev pc"] Cons.prems(1) by (simp add: whitelist_step)
qed simp

text \<open>So the model is never asked about a whitelisted source.\<close>

lemma decisions_outside_whitelist:
  assumes "\<forall>ev \<in> set evs. quiet ev" "pending c = {}"
    "d \<in> set (fst (fc_drain ops (pc_consumer (pc_run ops clock evs (new_packet_capture reserved clock wall cfg wl c h)))))"
  shows "\<not> is_whitelisted wl (src_ip (r_key (ad_record d)))"
proof -
  let ?new = "new_packet_capture reserved clock wall cfg wl c h"
  have new: "pc_consumer ?new = c" "pc_whitelist ?new = wl" by (simp_all add: new_packet_capture_def)
  have "all_pending (outside wl) (pc_run ops clock evs ?new)"
    using run_pending [OF assms(1), of ?new clock] assms(2) by (simp add: new all_pending_def)
  with drained [OF assms(3)] show ?thesis by (simp add: all_pending_def outside_def)
qed

end

interpretation logging: decision_source logging_consumer set
  by unfold_locales (auto simp: logging_consumer_def no_decisions_def)

section \<open>The submitted records\<close>

text \<open>The identifier of the record number \<open>i\<close>, and what a record must be.\<close>

definition id_of :: "string \<Rightarrow> nat \<Rightarrow> string" where
  "id_of sensor i = sensor @ ''-'' @ string_of_nat i"

definition record_ok :: "whitelist \<Rightarrow> flow_record \<Rightarrow> bool" where
  "record_ok wl r \<longleftrightarrow> length (r_features r) = 27 \<and> r_feature_schema_version r = 1 \<and>
     \<not> is_whitelisted wl (src_ip (r_key r))"

text \<open>A flow is submitted when it was opened remotely, has at least two packets, and its source is
  neither whitelisted nor blocked.\<close>

definition submitted :: "(nat \<Rightarrow> time_point) \<Rightarrow> ended_flow \<Rightarrow> 'c packet_capture \<Rightarrow> bool" where
  "submitted clock e pc \<longleftrightarrow>
     f_origin (e_flow e) = REMOTE_INITIATED \<and>
     \<not> rs_count (d_payload_len (f_forward (e_flow e))) + rs_count (d_payload_len (f_backward (e_flow e))) \<le> 1 \<and>
     \<not> is_whitelisted (pc_whitelist pc) (src_ip (f_key (e_flow e))) \<and>
     \<not> is_blocked (pc_block_list pc) (src_ip (f_key (e_flow e))) (clock (pc_clock_reads pc))"

end
