(* ===== verification/Source_Properties.thy ===== *)
theory Source_Properties
  imports Packet_Source Capture_Properties Firewall_Properties
begin

text \<open>
  What the packet source guarantees. The receive loop is the run of the capture pipeline on the
  packets and ticks its turns give, in their order; every packet that can be answered is answered
  once; what cannot be read passes; and after \<open>start\<close> returns the queue is closed and, when it says
  so, the packet filter is as it was.
\<close>

section \<open>What the turns ask for\<close>

text \<open>A turn is served when nobody has asked to stop and the socket still gives packets or time.\<close>

definition served :: "loop_turn \<Rightarrow> bool" where
  "served t \<longleftrightarrow> \<not> turn_stop t \<and> (case turn_recv t of Socket_closed \<Rightarrow> False | Recv_failed e \<Rightarrow> False | _ \<Rightarrow> True)"

definition turn_packets :: "loop_turn \<Rightarrow> kernel_packet list" where
  "turn_packets t = (case turn_recv t of Received ks \<Rightarrow> ks | _ \<Rightarrow> [])"

definition packet_events :: "kernel_packet \<Rightarrow> 'c capture_event list" where
  "packet_events k =
     (case (kp_id k, kp_payload k) of
        (Some i, Some data) \<Rightarrow> [Packet (Some data) (hook_direction (kp_hook k))] | _ \<Rightarrow> [])"

text \<open>The packets of the turns in order, and a tick after each turn that is a second or more after the
  tick before it.\<close>

fun loop_events :: "time_point \<Rightarrow> loop_turn list \<Rightarrow> 'c capture_event list" where
  "loop_events since [] = []"
| "loop_events since (t # ts) =
     concat (map packet_events (turn_packets t)) @
     (if seconds 1 \<le> turn_now t - since then Tick # loop_events (turn_now t) ts else loop_events since ts)"

definition answered :: "loop_turn list \<Rightarrow> u32 list" where
  "answered ts = List.map_filter kp_id (concat (map turn_packets ts))"

text \<open>How the loop ends: with success when it was asked to stop, with failure when the socket fails.\<close>

definition loop_end :: "loop_turn list \<Rightarrow> loop_status" where
  "loop_end ts = (case dropWhile served ts of [] \<Rightarrow> Looping | t # _ \<Rightarrow> Ended (turn_stop t))"

section \<open>The loop is a run of the pipeline\<close>

lemma pc_run_append: "pc_run ops clock (a @ b) pc = pc_run ops clock b (pc_run ops clock a pc)"
  by (simp add: pc_run_def)

lemma received_fields [simp]:
  "src_running (on_packet_received h k s) = src_running s"
  "src_stop_requested (on_packet_received h k s) = src_stop_requested s"
  "src_handle (on_packet_received h k s) = src_handle s" "src_queue (on_packet_received h k s) = src_queue s"
  "src_calls (on_packet_received h k s) = src_calls s" "src_queue_num (on_packet_received h k s) = src_queue_num s"
  by (auto simp: on_packet_received_def Let_def split: option.splits prod.splits)

lemma fold_received_fields [simp]:
  "src_running (fold (on_packet_received h) ks s) = src_running s"
  "src_stop_requested (fold (on_packet_received h) ks s) = src_stop_requested s"
  "src_handle (fold (on_packet_received h) ks s) = src_handle s"
  "src_queue (fold (on_packet_received h) ks s) = src_queue s"
  "src_calls (fold (on_packet_received h) ks s) = src_calls s"
  "src_queue_num (fold (on_packet_received h) ks s) = src_queue_num s"
  by (induction ks arbitrary: s) simp_all

lemma received_client:
  "src_client (on_packet_received (capture_handlers ops clock) k s) =
     pc_run ops clock (packet_events k) (src_client s)"
  by (auto simp: on_packet_received_def capture_handlers_def packet_events_def Let_def
      split: option.splits prod.splits)

lemma fold_received_client:
  "src_client (fold (on_packet_received (capture_handlers ops clock)) ks s) =
     pc_run ops clock (concat (map packet_events ks)) (src_client s)"
  by (induction ks arbitrary: s) (simp_all add: received_client pc_run_append)

lemma received_ids:
  "map fst (src_verdicts (on_packet_received h k s)) =
     map fst (src_verdicts s) @ (case kp_id k of None \<Rightarrow> [] | Some i \<Rightarrow> [i])"
  by (auto simp: on_packet_received_def Let_def split: option.splits prod.splits)

lemma fold_received_ids:
  "map fst (src_verdicts (fold (on_packet_received h) ks s)) =
     map fst (src_verdicts s) @ List.map_filter kp_id ks"
  by (induction ks arbitrary: s) (auto simp: received_ids map_filter_simps split: option.split)

lemma cleanup_fields [simp]:
  "src_running (snd (periodic_cleanup h now vs)) = src_running (snd vs)"
  "src_stop_requested (snd (periodic_cleanup h now vs)) = src_stop_requested (snd vs)"
  "src_verdicts (snd (periodic_cleanup h now vs)) = src_verdicts (snd vs)"
  "src_handle (snd (periodic_cleanup h now vs)) = src_handle (snd vs)"
  "src_queue (snd (periodic_cleanup h now vs)) = src_queue (snd vs)"
  "src_calls (snd (periodic_cleanup h now vs)) = src_calls (snd vs)"
  by (auto simp: periodic_cleanup_def split: prod.splits option.splits)

text \<open>A turn that is served, without its parts: the packets, then the clean-up.\<close>

definition serve :: "'c packet_handlers \<Rightarrow> loop_turn \<Rightarrow> loop_vars \<times> 'c packet_source \<Rightarrow> loop_vars \<times> 'c packet_source" where
  "serve h t vs =
     (case vs of (v, s) \<Rightarrow>
        periodic_cleanup h (turn_now t)
          (if turn_recv t = No_buffer_space then count_overflow (turn_log_now t) v else v,
           fold (on_packet_received h) (turn_packets t) s))"

lemma loop_turns_step:
  assumes "src_running s" "\<not> src_stop_requested s"
  shows "loop_turns h (t # ts) (v, s) =
    (if served t then loop_turns h ts (serve h t (v, s))
     else (Ended (turn_stop t), (if turn_stop t then source_stop s else s)\<lparr>src_running := False\<rparr>))"
  using assms
  by (auto simp: served_def serve_def turn_packets_def source_stop_def split: recv_result.splits)

lemma serve_capture:
  fixes ops clock
  defines "h \<equiv> capture_handlers ops clock"
  shows "src_client (snd (serve h t (v, s))) =
      pc_run ops clock (concat (map packet_events (turn_packets t)) @
        (if seconds 1 \<le> turn_now t - lv_last_cleanup v then [Tick] else [])) (src_client s)"
    "lv_last_cleanup (fst (serve h t (v, s))) =
      (if seconds 1 \<le> turn_now t - lv_last_cleanup v then turn_now t else lv_last_cleanup v)"
    "map fst (src_verdicts (snd (serve h t (v, s)))) =
      map fst (src_verdicts s) @ List.map_filter kp_id (turn_packets t)"
    "src_running (snd (serve h t (v, s))) = src_running s"
    "src_stop_requested (snd (serve h t (v, s))) = src_stop_requested s"
proof -
  have last: "lv_last_cleanup (count_overflow n v) = lv_last_cleanup v" for n
    by (simp add: count_overflow_def Let_def)
  have tick: "on_timer (capture_handlers ops clock) = Some (on_tick ops clock)"
    by (simp add: capture_handlers_def)
  show "src_client (snd (serve h t (v, s))) =
      pc_run ops clock (concat (map packet_events (turn_packets t)) @
        (if seconds 1 \<le> turn_now t - lv_last_cleanup v then [Tick] else [])) (src_client s)"
    "lv_last_cleanup (fst (serve h t (v, s))) =
      (if seconds 1 \<le> turn_now t - lv_last_cleanup v then turn_now t else lv_last_cleanup v)"
    unfolding h_def
    by (simp_all add: serve_def periodic_cleanup_def CLEANUP_INTERVAL_SEC_def last tick fold_received_client
        pc_run_append)
  show "map fst (src_verdicts (snd (serve h t (v, s)))) =
      map fst (src_verdicts s) @ List.map_filter kp_id (turn_packets t)"
    "src_running (snd (serve h t (v, s))) = src_running s"
    "src_stop_requested (snd (serve h t (v, s))) = src_stop_requested s"
    by (simp_all add: serve_def fold_received_ids)
qed

lemma loop_turns_capture:
  assumes "src_running s" "\<not> src_stop_requested s"
  shows "fst (loop_turns (capture_handlers ops clock) ts (v, s)) = loop_end ts \<and>
    src_client (snd (loop_turns (capture_handlers ops clock) ts (v, s))) =
      pc_run ops clock (loop_events (lv_last_cleanup v) (takeWhile served ts)) (src_client s) \<and>
    map fst (src_verdicts (snd (loop_turns (capture_handlers ops clock) ts (v, s)))) =
      map fst (src_verdicts s) @ answered (takeWhile served ts)"
  using assms
proof (induction ts arbitrary: v s)
  case Nil
  then show ?case by (simp add: loop_end_def answered_def map_filter_simps)
next
  case (Cons t ts)
  let ?h = "capture_handlers ops clock"
  obtain v' s' where vs: "serve ?h t (v, s) = (v', s')" by fastforce
  note sv = serve_capture [where ops = ops and clock = clock and t = t and v = v and s = s, unfolded vs]
  show ?case
  proof (cases "served t")
    case True
    have "src_running s'" "\<not> src_stop_requested s'" using sv Cons.prems by simp_all
    from Cons.IH [OF this, of v'] show ?thesis
      using True sv Cons.prems
      by (simp add: loop_turns_step vs loop_end_def answered_def pc_run_append del: loop_turns.simps)
        (simp add: map_filter_def)
  next
    case False
    then show ?thesis using Cons.prems
      by (simp add: loop_turns_step loop_end_def answered_def map_filter_simps source_stop_def del: loop_turns.simps)
  qed
qed

text \<open>C31. The receive loop is the run of the capture pipeline on the packets and ticks of its turns: a
  tick follows the packets of a turn exactly when a second has passed since the last one; every
  packet with an identifier is answered exactly once and in order; the loop ends with success exactly
  at the first turn that finds the request to stop, with failure at the first that finds the socket
  closed or broken, and it takes nothing from that turn or later ones. Interruptions and overflows
  of the kernel's buffer end nothing.\<close>

theorem loop_exact:
  assumes "\<not> src_stop_requested s"
  shows "let (status, s') = source_loop (capture_handlers ops clock) now1 now2 ts s in
    status = (case dropWhile served ts of [] \<Rightarrow> Looping | t # _ \<Rightarrow> Ended (turn_stop t)) \<and>
    src_client s' = pc_run ops clock (loop_events now1 (takeWhile served ts)) (src_client s) \<and>
    map fst (src_verdicts s') = map fst (src_verdicts s) @
      List.map_filter kp_id (concat (map turn_packets (takeWhile served ts)))"
  using loop_turns_capture [of "s\<lparr>src_running := True\<rparr>" ops clock ts
      "\<lparr>lv_last_cleanup = now1, lv_last_enobufs_log = now2, lv_enobufs_since_log = 0\<rparr>"] assms
  by (simp add: source_loop_def loop_end_def answered_def split_beta Let_def)

text \<open>A turn with a packet nobody can identify and one without payload, after which the socket fails.\<close>

definition sample_turns :: "loop_turn list" where
  "sample_turns =
     [\<lparr>turn_stop = False, turn_recv = Received [\<lparr>kp_id = None, kp_hook = 1, kp_payload = Some udp_sample\<rparr>,
        \<lparr>kp_id = Some 7, kp_hook = 1, kp_payload = None\<rparr>], turn_log_now = 0, turn_now = 5\<rparr>,
      \<lparr>turn_stop = False, turn_recv = Socket_closed, turn_log_now = 0, turn_now = 6\<rparr>]"

theorem loop_exact_witness:
  "fst (source_loop (capture_handlers logging_consumer int) 0 0 sample_turns
      (new_source 0 (new_packet_capture Suc int 0 default_config {} [] False))) = Ended False \<and>
   map fst (src_verdicts (snd (source_loop (capture_handlers logging_consumer int) 0 0 sample_turns
      (new_source 0 (new_packet_capture Suc int 0 default_config {} [] False))))) = [7]"
proof -
  let ?s = "new_source 0 (new_packet_capture Suc int 0 default_config {} [] False)"
  have "\<not> src_stop_requested ?s" by (simp add: new_source_def)
  from loop_exact [OF this, of logging_consumer int 0 0 sample_turns] show ?thesis
    by (simp add: split_beta Let_def)
      (simp add: sample_turns_def served_def turn_packets_def new_source_def map_filter_simps)
qed

section \<open>What is dropped\<close>

lemma on_packet_drop:
  assumes "on_packet ops clock data direction pc = (False, pc')"
  shows "direction = INBOUND \<and>
    (\<exists>p. parse data = Inr (Some p) \<and> \<not> is_whitelisted (pc_whitelist pc) (src_ip (tuple p)))"
  using assms
  by (auto simp: on_packet_def read_clock_def handle_outbound_def handle_inbound_def Let_def
      split: if_splits sum.splits option.splits prod.splits)

text \<open>An answer that a packet of the turns accounts for: it passes, or it is dropped for what it holds.\<close>

definition accounted :: "whitelist \<Rightarrow> kernel_packet list \<Rightarrow> u32 \<times> bool \<Rightarrow> bool" where
  "accounted wl ks e \<longleftrightarrow> snd e \<or>
     (\<exists>k \<in> set ks. kp_id k = Some (fst e) \<and> kp_hook k = NF_INET_LOCAL_IN \<and>
        (\<exists>data p. kp_payload k = Some data \<and> parse (Some data) = Inr (Some p) \<and>
           \<not> is_whitelisted wl (src_ip (tuple p))))"

lemma accounted_mono: "accounted wl ks e \<Longrightarrow> set ks \<subseteq> set ks' \<Longrightarrow> accounted wl ks' e"
  by (auto simp: accounted_def)

lemma hook_inbound: "hook_direction hook = INBOUND \<Longrightarrow> hook = NF_INET_LOCAL_IN"
  by (auto simp: hook_direction_def split: if_splits)

lemma received_accounted:
  assumes "list_all (accounted wl ks) (src_verdicts s)" "pc_whitelist (src_client s) = wl" "k \<in> set ks"
  shows "list_all (accounted wl ks) (src_verdicts (on_packet_received (capture_handlers ops clock) k s))"
proof (cases "kp_id k")
  case None
  with assms(1) show ?thesis by (simp add: on_packet_received_def)
next
  case (Some i)
  show ?thesis
  proof (cases "kp_payload k")
    case None
    with Some assms(1) show ?thesis by (simp add: on_packet_received_def accounted_def)
  next
    case (Some data)
    obtain v pc where v: "on_packet ops clock (Some data) (hook_direction (kp_hook k)) (src_client s) = (v, pc)"
      by fastforce
    have "accounted wl ks (i, v)"
    proof (cases v)
      case False
      with v on_packet_drop [of ops clock "Some data" "hook_direction (kp_hook k)" "src_client s" pc]
      show ?thesis using \<open>kp_id k = Some i\<close> Some assms(2,3) hook_inbound
        by (auto simp: accounted_def)
    qed (simp add: accounted_def)
    with \<open>kp_id k = Some i\<close> Some v assms(1) show ?thesis
      by (simp add: on_packet_received_def capture_handlers_def)
  qed
qed

lemma fold_received_accounted:
  assumes "list_all (accounted wl all) (src_verdicts s)" "pc_whitelist (src_client s) = wl" "set ks \<subseteq> set all"
  shows "list_all (accounted wl all) (src_verdicts (fold (on_packet_received (capture_handlers ops clock)) ks s))"
  using assms
proof (induction ks arbitrary: s)
  case (Cons k ks)
  have "list_all (accounted wl all) (src_verdicts (on_packet_received (capture_handlers ops clock) k s))"
    by (rule received_accounted) (use Cons.prems in simp_all)
  moreover have "pc_whitelist (src_client (on_packet_received (capture_handlers ops clock) k s)) = wl"
    using Cons.prems by (simp add: received_client whitelist_run)
  ultimately show ?case using Cons by simp
qed simp

lemma loop_accounted:
  assumes "src_running s" "\<not> src_stop_requested s" "pc_whitelist (src_client s) = wl"
    "list_all (accounted wl all) (src_verdicts s)"
    "set (concat (map turn_packets (takeWhile served ts))) \<subseteq> set all"
  shows "list_all (accounted wl all) (src_verdicts (snd (loop_turns (capture_handlers ops clock) ts (v, s))))"
  using assms
proof (induction ts arbitrary: v s)
  case (Cons t ts)
  let ?h = "capture_handlers ops clock"
  obtain v' s' where vs: "serve ?h t (v, s) = (v', s')" by fastforce
  note sv = serve_capture [where ops = ops and clock = clock and t = t and v = v and s = s, unfolded vs]
  show ?case
  proof (cases "served t")
    case True
    have "src_verdicts s' = src_verdicts (fold (on_packet_received ?h) (turn_packets t) s)"
      using vs by (auto simp: serve_def dest: arg_cong [where f = "\<lambda>x. src_verdicts (snd x)"])
    then have "list_all (accounted wl all) (src_verdicts s')"
      using fold_received_accounted [OF Cons.prems(4,3), of "turn_packets t" ops clock] Cons.prems(5) True by simp
    moreover have "src_running s'" "\<not> src_stop_requested s'" "pc_whitelist (src_client s') = wl"
      using sv Cons.prems by (simp_all add: whitelist_run)
    ultimately show ?thesis using Cons.IH [of s' v'] Cons.prems True
      by (simp add: loop_turns_step vs del: loop_turns.simps)
  next
    case False
    then show ?thesis using Cons.prems
      by (simp add: loop_turns_step source_stop_def del: loop_turns.simps)
  qed
qed simp

text \<open>From the kernel's queue to the verdict and back: the only packets the loop answers with a drop
  are inbound packets with a readable payload that parses and whose source is not on the whitelist.
  Everything else the kernel hands over passes: packets of other hooks, without payload, or too short
  to parse, and everything from a whitelisted address.\<close>

theorem drops_accounted:
  assumes "\<not> src_stop_requested s" and "src_verdicts s = []"
    and "(packet_id, False) \<in> set (src_verdicts (snd (source_loop (capture_handlers ops clock) now1 now2 ts s)))"
  shows "\<exists>t \<in> set (takeWhile served ts). \<exists>k \<in> set (turn_packets t).
    kp_id k = Some packet_id \<and> kp_hook k = NF_INET_LOCAL_IN \<and>
    (\<exists>data p. kp_payload k = Some data \<and> parse (Some data) = Inr (Some p) \<and>
       \<not> is_whitelisted (pc_whitelist (src_client s)) (src_ip (tuple p)))"
proof -
  let ?ks = "concat (map turn_packets (takeWhile served ts))"
  have "list_all (accounted (pc_whitelist (src_client s)) ?ks)
      (src_verdicts (snd (source_loop (capture_handlers ops clock) now1 now2 ts s)))"
    unfolding source_loop_def by (rule loop_accounted) (use assms(1,2) in simp_all)
  then have "accounted (pc_whitelist (src_client s)) ?ks (packet_id, False)"
    using assms(3) by (auto simp: list_all_iff)
  then show ?thesis by (auto simp: accounted_def)
qed

lemma sample_drop: "\<not> fst (on_packet logging_consumer int (Some udp_sample) INBOUND (sample_sensor {}))"
proof -
  obtain p where p: "parse (Some udp_sample) = Inr (Some p)" "has_ports p"
    using parse_udp_sample by blast
  have "rule_hit p now (pc\<lparr>pc_clock_reads := n\<rparr>) = rule_hit p now pc" for now n and pc :: "flow_record list packet_capture"
    by (simp add: rule_hit_def cong: option.case_cong)
  then have hit: "rule_hit p now (sample_sensor {}\<lparr>pc_clock_reads := n\<rparr>) \<noteq> None" for now n
    using sample_sensor_hits [of p now "{}"] by simp
  show ?thesis
    using p hit
    by (simp add: on_packet_def read_clock_def Let_def handle_inbound_verdict is_whitelisted_def sample_sensor_def
        new_packet_capture_def)
qed

definition drop_turn :: loop_turn where
  "drop_turn = \<lparr>turn_stop = False, turn_recv = Received [\<lparr>kp_id = Some 9, kp_hook = 1, kp_payload = Some udp_sample\<rparr>],
     turn_log_now = 0, turn_now = 0\<rparr>"

theorem drops_accounted_witness:
  "(9, False) \<in> set (src_verdicts (snd (source_loop (capture_handlers logging_consumer int) 0 0 [drop_turn]
      (new_source 0 (sample_sensor {}))))) \<and>
   (\<exists>p. parse (Some udp_sample) = Inr (Some p) \<and> \<not> is_whitelisted {} (src_ip (tuple p)))"
proof -
  let ?s = "new_source 0 (sample_sensor {})"
  have start: "\<not> src_stop_requested ?s" "src_verdicts ?s = []" by (simp_all add: new_source_def)
  have dropped: "(9, False) \<in> set (src_verdicts (snd (source_loop (capture_handlers logging_consumer int) 0 0 [drop_turn] ?s)))"
    using sample_drop
    by (simp add: source_loop_def drop_turn_def new_source_def on_packet_received_def capture_handlers_def
        hook_direction_def NF_INET_LOCAL_IN_def periodic_cleanup_def CLEANUP_INTERVAL_SEC_def seconds_def split_beta)
  from drops_accounted [OF start this] obtain k where
    k: "k \<in> set (turn_packets drop_turn)" "kp_id k = Some 9"
      "\<exists>data p. kp_payload k = Some data \<and> parse (Some data) = Inr (Some p) \<and>
         \<not> is_whitelisted (pc_whitelist (src_client ?s)) (src_ip (tuple p))"
    by (auto split: if_splits)
  have "kp_payload k = Some udp_sample" using k(1) by (simp add: turn_packets_def drop_turn_def)
  with k(3) dropped show ?thesis by (auto simp: new_source_def sample_sensor_def new_packet_capture_def)
qed

section \<open>Resources\<close>

definition acquired :: "(nfq_call \<Rightarrow> bool) \<Rightarrow> (nfq_call \<times> int) list \<Rightarrow> nat" where
  "acquired is_acquire cs = length (filter (\<lambda>(c, r). is_acquire c \<and> r \<noteq> 0) cs)"

definition released :: "nfq_call \<Rightarrow> (nfq_call \<times> int) list \<Rightarrow> nat" where
  "released release cs = length (filter (\<lambda>(c, r). c = release) cs)"

text \<open>What is open is what was opened and not closed.\<close>

definition balanced :: "'c packet_source \<Rightarrow> bool" where
  "balanced s \<longleftrightarrow>
     acquired (\<lambda>c. c = Nfq_open) (src_calls s) = released Nfq_close (src_calls s) + (if src_handle s then 1 else 0) \<and>
     acquired (\<lambda>c. \<exists>q. c = Nfq_create_queue q) (src_calls s) =
       released Nfq_destroy_queue (src_calls s) + (if src_queue s then 1 else 0)"

lemmas balance_defs = balanced_def acquired_def released_def nfq_def Let_def

lemma balanced_new: "balanced (new_source q c)"
  by (simp add: balance_defs new_source_def)

lemma balanced_close:
  assumes "balanced s"
  shows "balanced (snd (source_close lib s)) \<and> \<not> src_handle (snd (source_close lib s)) \<and>
    \<not> src_queue (snd (source_close lib s)) \<and> src_fd (snd (source_close lib s)) = -1"
  using assms by (auto simp: source_close_def balance_defs)

lemma close_idempotent: "source_close lib (snd (source_close lib s)) = (True, snd (source_close lib s))"
  by (simp add: source_close_def nfq_def Let_def)

lemma close_flags [simp]:
  "src_stop_requested (snd (source_close lib s)) = src_stop_requested s"
  "src_client (snd (source_close lib s)) = src_client s" "src_verdicts (snd (source_close lib s)) = src_verdicts s"
  by (simp_all add: source_close_def nfq_def Let_def)

lemma balanced_configure:
  assumes "balanced s" "src_handle s" "src_queue s"
  shows "balanced (snd (configure_queue lib s)) \<and>
    src_handle (snd (configure_queue lib s)) = fst (configure_queue lib s) \<and>
    src_queue (snd (configure_queue lib s)) = fst (configure_queue lib s)"
proof -
  let ?m = "nfq lib (Nfq_set_mode MAX_COPY_BYTES) s"
  have "balanced (snd ?m)" using assms by (simp add: balance_defs)
  from balanced_close [OF this, of lib] assms show ?thesis
    by (auto simp: configure_queue_def split_beta) (auto simp: balance_defs)
qed

lemma balanced_open:
  assumes "balanced s" "\<not> src_handle s" "\<not> src_queue s"
  shows "balanced (snd (source_open lib s)) \<and> src_handle (snd (source_open lib s)) = fst (source_open lib s) \<and>
    src_queue (snd (source_open lib s)) = fst (source_open lib s) \<and>
    src_stop_requested (snd (source_open lib s)) = src_stop_requested s"
proof -
  obtain h s1 where 1: "nfq lib Nfq_open s = (h, s1)" by fastforce
  let ?s1 = "s1\<lparr>src_handle := (h \<noteq> 0)\<rparr>"
  obtain u s2 where 2: "nfq lib Nfq_unbind_pf ?s1 = (u, s2)" by fastforce
  obtain b s3 where 3: "nfq lib Nfq_bind_pf s2 = (b, s3)" by fastforce
  obtain q s4 where 4: "nfq lib (Nfq_create_queue (src_queue_num s3)) s3 = (q, s4)" by fastforce
  let ?s4 = "s4\<lparr>src_queue := (q \<noteq> 0)\<rparr>"
  have opened: "source_open lib s = (if h = 0 then (False, ?s1)
      else if q = 0 then (False, snd (source_close lib ?s4)) else configure_queue lib ?s4)"
    by (simp only: source_open_def Let_def 1 2 3 4 prod.case)
  have b1: "balanced ?s1" "\<not> src_queue ?s1" "src_stop_requested ?s1 = src_stop_requested s"
    using 1 assms by (auto simp: balance_defs)
  have b4: "balanced ?s4" "src_handle ?s4 = (h \<noteq> 0)" "src_stop_requested ?s4 = src_stop_requested s"
    using 1 2 3 4 assms by (auto simp: balance_defs)
  have flag: "src_stop_requested (snd (configure_queue lib x)) = src_stop_requested x" for x :: "'a packet_source"
    by (simp add: configure_queue_def nfq_def Let_def)
  show ?thesis
    using b1 b4 balanced_close [OF b4(1), of lib] balanced_configure [OF b4(1), of lib] flag [of ?s4]
    unfolding opened by (cases "h = 0"; cases "q = 0") simp_all
qed

lemma serve_fields:
  "src_running (snd (serve h t (v, s))) = src_running s" "src_handle (snd (serve h t (v, s))) = src_handle s"
  "src_stop_requested (snd (serve h t (v, s))) = src_stop_requested s"
  "src_queue (snd (serve h t (v, s))) = src_queue s" "src_calls (snd (serve h t (v, s))) = src_calls s"
  by (simp_all add: serve_def)

lemma loop_turns_resources:
  assumes "src_running s"
  shows "src_handle (snd (loop_turns h ts (v, s))) = src_handle s \<and>
    src_queue (snd (loop_turns h ts (v, s))) = src_queue s \<and>
    src_calls (snd (loop_turns h ts (v, s))) = src_calls s \<and>
    (fst (loop_turns h ts (v, s)) = Ended True \<longrightarrow> src_stop_requested s \<or> (\<exists>t \<in> set ts. turn_stop t))"
  using assms
proof (induction ts arbitrary: v s)
  case (Cons t ts)
  obtain v' s' where vs: "serve h t (v, s) = (v', s')" by fastforce
  note sv = serve_fields [of h t v s, unfolded vs]
  show ?case
  proof (cases "src_stop_requested s")
    case True
    then show ?thesis by (simp add: source_stop_def)
  next
    case False
    with Cons.prems Cons.IH [of s' v'] sv show ?thesis
      by (simp add: loop_turns_step vs source_stop_def del: loop_turns.simps)
  qed
qed simp

text \<open>A source as the thread finds it: another thread may have asked it to stop before it begins.\<close>

definition fresh_source :: "bool \<Rightarrow> u16 \<Rightarrow> 'c \<Rightarrow> 'c packet_source" where
  "fresh_source early q c = (if early then capture_stop (new_source q c) else new_source q c)"

lemma fresh_source_fields:
  "balanced (fresh_source early q c)" "\<not> src_handle (fresh_source early q c)" "\<not> src_queue (fresh_source early q c)"
  "src_stop_requested (fresh_source early q c) = early" "src_client (fresh_source early q c) = c"
  "src_verdicts (fresh_source early q c) = []"
  by (simp_all add: fresh_source_def capture_stop_def source_stop_def new_source_def balanced_def acquired_def released_def)

lemma open_keeps:
  "src_client (snd (source_open lib s)) = src_client s" "src_verdicts (snd (source_open lib s)) = src_verdicts s"
  by (simp_all add: source_open_def configure_queue_def nfq_def Let_def)

lemma early_loop:
  "src_stop_requested s \<Longrightarrow> src_client (snd (source_loop h now1 now2 ts s)) = src_client s \<and>
     src_verdicts (snd (source_loop h now1 now2 ts s)) = src_verdicts s"
  by (cases ts) (simp_all add: source_loop_def source_stop_def)

lemma start_result:
  assumes "iptables_ok ipt tb"
    and "capture_start lib ipt h now1 now2 ts (fresh_source early q c, new_guard q w) = Some (r, s, g)"
  shows "\<not> src_handle s \<and> \<not> src_queue s \<and>
    acquired (\<lambda>c. c = Nfq_open) (src_calls s) = released Nfq_close (src_calls s) \<and>
    acquired (\<lambda>c. \<exists>q. c = Nfq_create_queue q) (src_calls s) = released Nfq_destroy_queue (src_calls s) \<and>
    (early \<longrightarrow> src_client s = c \<and> src_verdicts s = []) \<and>
    (r \<longrightarrow> (early \<or> (\<exists>t \<in> set ts. turn_stop t)) \<and> \<not> fg_owns_chain g \<and> \<not> fg_installed g \<and>
       tb (fg_world g) = (tb w)
         \<lparr>ft_chain := None, ft_input := filter (\<lambda>r. r \<noteq> Jump) (ft_input (tb w)),
          ft_output := filter (\<lambda>r. r \<noteq> Jump) (ft_output (tb w))\<rparr>) \<and>
    (if \<not> fst (source_open lib (fresh_source early q c)) then \<not> r \<and> g = new_guard q w
     else \<exists>installed g1. install ipt (new_guard q w) = Some (installed, g1) \<and>
       (if \<not> installed then \<not> r \<and> g = g1
        else \<exists>removed. uninstall ipt g1 = Some (removed, g) \<and>
          (if removed
           then \<not> fg_owns_chain g \<and> \<not> fg_installed g \<and> tb (fg_world g) = (tb w)
             \<lparr>ft_chain := None, ft_input := filter (\<lambda>r. r \<noteq> Jump) (ft_input (tb w)),
              ft_output := filter (\<lambda>r. r \<noteq> Jump) (ft_output (tb w))\<rparr>
           else \<not> r \<and> fg_owns_chain g)))"
proof -
  let ?s = "fresh_source early q c" and ?g = "new_guard q w"
  obtain o1 s1 where o1: "source_open lib ?s = (o1, s1)" by fastforce
  have s1: "balanced s1" "src_handle s1 = o1" "src_queue s1 = o1" "src_stop_requested s1 = early"
    "src_client s1 = c" "src_verdicts s1 = []"
    using balanced_open [OF fresh_source_fields(1-3), of lib early q c] open_keeps [of lib ?s] fresh_source_fields [of early q c]
    by (simp_all add: o1)
  show ?thesis
  proof (cases o1)
    case False
    then have "s = s1" "\<not> r" "g = new_guard q w" using assms(2) by (auto simp: capture_start_def o1)
    with s1 False show ?thesis by (simp add: balanced_def o1)
  next
    case True
    then obtain i g1 where i: "install ipt ?g = Some (i, g1)"
      using assms(2) by (auto simp: capture_start_def o1 split: option.splits)
    show ?thesis
    proof (cases i)
      case False
      then have "s = snd (source_close lib s1)" "\<not> r" "g = g1"
        using assms(2) True i by (auto simp: capture_start_def o1)
      with balanced_close [OF s1(1), of lib] s1(5,6) True False i show ?thesis by (auto simp: balanced_def o1)
    next
      case inst: True
      obtain st s2 where loop: "source_loop h now1 now2 ts s1 = (st, s2)" by fastforce
      have s2: "src_handle s2 = src_handle s1" "src_queue s2 = src_queue s1" "src_calls s2 = src_calls s1"
        "st = Ended True \<longrightarrow> early \<or> (\<exists>t \<in> set ts. turn_stop t)" "early \<longrightarrow> src_client s2 = c \<and> src_verdicts s2 = []"
        using loop_turns_resources [of "s1\<lparr>src_running := True\<rparr>" h ts
            "\<lparr>lv_last_cleanup = now1, lv_last_enobufs_log = now2, lv_enobufs_since_log = 0\<rparr>"] s1(4) loop
          early_loop [of s1 h now1 now2 ts] s1(5,6)
        by (auto simp: source_loop_def)
      have b2: "balanced s2" using s1(1) s2 by (simp add: balanced_def)
      obtain ok u g2 cl s3 where fin: "st = Ended ok" "uninstall ipt g1 = Some (u, g2)"
        "source_close lib s2 = (cl, s3)" "r = (ok \<and> u \<and> cl)" "s = s3" "g = g2"
        using assms(2) True i inst loop
        by (auto simp: capture_start_def o1 split: option.splits loop_status.splits prod.splits)
      have b3: "balanced s \<and> \<not> src_handle s \<and> \<not> src_queue s"
        using balanced_close [OF b2, of lib] fin by simp
      have "\<not> fg_owns_chain g \<and> \<not> fg_installed g \<and> tb (fg_world g) = (tb w)
         \<lparr>ft_chain := None, ft_input := filter (\<lambda>r. r \<noteq> Jump) (ft_input (tb w)),
          ft_output := filter (\<lambda>r. r \<noteq> Jump) (ft_output (tb w))\<rparr>" if u
        using installed_uninstalled [OF assms(1) sample_guard(1,2), of q w g1 g2] i inst fin that
        by (simp add: sample_guard)
      moreover have "fg_owns_chain g" if "\<not> u"
        using uninstall_tracks [OF fin(2)] install_tracks [OF i tracks_new] that fin(6) by simp
      moreover have "early \<longrightarrow> src_client s = c \<and> src_verdicts s = []"
        using s2(5) fin close_flags(2,3) [of lib s2] by simp
      ultimately show ?thesis using b3 s2(4) fin True inst i by (auto simp: balanced_def o1)
    qed
  qed
qed

lemma loop_ends:
  assumes "src_running s" "src_stop_requested s \<and> ts \<noteq> [] \<or> \<not> list_all served ts"
  shows "\<exists>ok. fst (loop_turns h ts (v, s)) = Ended ok"
  using assms
proof (induction ts arbitrary: v s)
  case (Cons t ts)
  obtain v' s' where vs: "serve h t (v, s) = (v', s')" by fastforce
  show ?case
  proof (cases "src_stop_requested s")
    case True
    then show ?thesis by (auto simp: source_stop_def)
  next
    case False
    with Cons.prems Cons.IH [of s' v'] serve_fields [of h t v s, unfolded vs] show ?thesis
      by (simp add: loop_turns_step vs del: loop_turns.simps)
  qed
qed simp

text \<open>C33. \<open>start\<close> returns as soon as a turn of its loop finds the request to stop or a socket that fails, or
  at once when it gets no queue or no rules, and without touching a packet when the request came before
  it began; with an \<open>iptables\<close> that does what its manual says nothing on
  the way back hangs. Then the queue and the handle are closed, each of them as often as it was opened.
  Without a queue the packet filter is not touched. Rules that were installed are always taken back,
  also when the socket failed: then the guard owns nothing, and the packet filter is without chain and
  jumps and otherwise as it was before the start; only if \<open>iptables\<close> refuses does the guard still own
  them. The result is true only when another thread asked to stop and all was taken back.\<close>

theorem start_returns_clean:
  assumes "iptables_ok ipt tb" and "early \<and> ts \<noteq> [] \<or> \<not> list_all served ts"
  shows "\<exists>r s g. capture_start lib ipt h now1 now2 ts (fresh_source early q c, new_guard q w) = Some (r, s, g) \<and>
    \<not> src_handle s \<and> \<not> src_queue s \<and>
    acquired (\<lambda>c. c = Nfq_open) (src_calls s) = released Nfq_close (src_calls s) \<and>
    acquired (\<lambda>c. \<exists>q. c = Nfq_create_queue q) (src_calls s) = released Nfq_destroy_queue (src_calls s) \<and>
    (early \<longrightarrow> src_client s = c \<and> src_verdicts s = []) \<and>
    (r \<longrightarrow> (early \<or> (\<exists>t \<in> set ts. turn_stop t)) \<and> \<not> fg_owns_chain g \<and> \<not> fg_installed g \<and>
       tb (fg_world g) = (tb w)
         \<lparr>ft_chain := None, ft_input := filter (\<lambda>r. r \<noteq> Jump) (ft_input (tb w)),
          ft_output := filter (\<lambda>r. r \<noteq> Jump) (ft_output (tb w))\<rparr>) \<and>
    (if \<not> fst (source_open lib (fresh_source early q c)) then \<not> r \<and> g = new_guard q w
     else \<exists>installed g1. install ipt (new_guard q w) = Some (installed, g1) \<and>
       (if \<not> installed then \<not> r \<and> g = g1
        else \<exists>removed. uninstall ipt g1 = Some (removed, g) \<and>
          (if removed
           then \<not> fg_owns_chain g \<and> \<not> fg_installed g \<and> tb (fg_world g) = (tb w)
             \<lparr>ft_chain := None, ft_input := filter (\<lambda>r. r \<noteq> Jump) (ft_input (tb w)),
              ft_output := filter (\<lambda>r. r \<noteq> Jump) (ft_output (tb w))\<rparr>
           else \<not> r \<and> fg_owns_chain g)))"
proof -
  let ?start = "capture_start lib ipt h now1 now2 ts (fresh_source early q c, new_guard q w)"
  have pf: "packet_filter ipt tb" by (rule packet_filter.intro) (rule assms(1))
  obtain o1 s1 where o1: "source_open lib (fresh_source early q c) = (o1, s1)" by fastforce
  have "src_stop_requested s1 = early"
    using balanced_open [OF fresh_source_fields(1-3), of lib early q c] fresh_source_fields(4) [of early q c] by (simp add: o1)
  with assms(2) have "\<exists>ok. fst (source_loop h now1 now2 ts s1) = Ended ok"
    unfolding source_loop_def by (intro loop_ends) simp_all
  then obtain ok s2 where loop: "source_loop h now1 now2 ts s1 = (Ended ok, s2)" by (metis prod.collapse)
  obtain i g1 where inst: "install ipt (new_guard q w) = Some (i, g1)"
    using packet_filter.install_ends [OF pf, of "new_guard q w"] by blast
  obtain u g2 where un: "uninstall ipt g1 = Some (u, g2)"
    using packet_filter.remove_current_ends [OF pf, of g1] by (cases "fg_owns_chain g1") (auto simp: uninstall_def)
  have "?start \<noteq> None"
    by (auto simp: capture_start_def o1 loop inst un split_beta)
  then obtain r s g where run: "?start = Some (r, s, g)" by auto
  show ?thesis
    using run start_result [OF assms(1) run] by (intro exI [where x = r] exI [where x = s] exI [where x = g] conjI) simp_all
qed

text \<open>A library in which everything works, and a loop that is asked to stop at its second turn.\<close>

definition stop_turns :: "loop_turn list" where
  "stop_turns = [\<lparr>turn_stop = False, turn_recv = Interrupted, turn_log_now = 0, turn_now = 5\<rparr>,
     \<lparr>turn_stop = True, turn_recv = Interrupted, turn_log_now = 0, turn_now = 6\<rparr>]"

text \<open>A loop whose socket fails.\<close>

definition failing_turns :: "loop_turn list" where
  "failing_turns = [\<lparr>turn_stop = False, turn_recv = Recv_failed 9, turn_log_now = 0, turn_now = 5\<rparr>]"

abbreviation sample_capture :: "loop_turn list \<Rightarrow> (bool \<times> nat packet_source \<times> filter_table firewall_guard) option" where
  "sample_capture ts \<equiv> capture_start (\<lambda>cs c. 1) table_iptables \<lparr>on_data = (\<lambda>data d c. (None, c)), on_timer = Some Suc\<rparr>
     0 0 ts (fresh_source False 5 0, new_guard 5 sample_table)"

lemma sample_start:
  "\<exists>s g. sample_capture stop_turns = Some (True, s, g)" "\<exists>s g. sample_capture failing_turns = Some (False, s, g)"
  "fst (source_open (\<lambda>cs c. 1) (fresh_source False 5 (0::nat)))"
proof -
  obtain g1 g2 where g: "install table_iptables (new_guard 5 sample_table) = Some (True, g1)"
    "uninstall table_iptables g1 = Some (True, g2)" using sample_install by blast
  show "\<exists>s g. sample_capture stop_turns = Some (True, s, g)" "\<exists>s g. sample_capture failing_turns = Some (False, s, g)"
    "fst (source_open (\<lambda>cs c. 1) (fresh_source False 5 (0::nat)))"
    by (simp_all add: capture_start_def source_open_def configure_queue_def source_loop_def source_close_def
        nfq_def Let_def new_source_def g stop_turns_def failing_turns_def source_stop_def periodic_cleanup_def
        CLEANUP_INTERVAL_SEC_def seconds_def fresh_source_def)
qed

text \<open>In both cases the table is the one before the start.\<close>

theorem start_returns_clean_witness:
  "(\<exists>s g. sample_capture stop_turns = Some (True, s, g) \<and> \<not> src_handle s \<and> fg_world g = sample_table) \<and>
   (\<exists>s g. sample_capture failing_turns = Some (False, s, g) \<and> \<not> src_handle s \<and> fg_world g = sample_table)"
proof -
  let ?h = "\<lparr>on_data = (\<lambda>data d c. (None, c)), on_timer = Some Suc\<rparr>"
  obtain g1 g2 where un: "install table_iptables (new_guard 5 sample_table) = Some (True, g1)"
    "uninstall table_iptables g1 = Some (True, g2)" using sample_install by blast
  have stops: "False \<and> stop_turns \<noteq> [] \<or> \<not> list_all served stop_turns"
    "False \<and> failing_turns \<noteq> [] \<or> \<not> list_all served failing_turns"
    by (simp_all add: stop_turns_def failing_turns_def served_def)
  obtain s g where run: "sample_capture stop_turns = Some (True, s, g)" using sample_start(1) by blast
  from start_returns_clean [OF table_iptables_ok stops(1), of "\<lambda>cs c. 1" ?h 0 0 5 "0::nat" sample_table]
  have "\<not> src_handle s \<and> id (fg_world g) = sample_table\<lparr>ft_chain := None,
      ft_input := filter (\<lambda>r. r \<noteq> Jump) (ft_input sample_table),
      ft_output := filter (\<lambda>r. r \<noteq> Jump) (ft_output sample_table)\<rparr>"
    unfolding run by auto
  moreover obtain s' g' where run': "sample_capture failing_turns = Some (False, s', g')" using sample_start(2) by blast
  from start_returns_clean [OF table_iptables_ok stops(2), of "\<lambda>cs c. 1" ?h 0 0 5 "0::nat" sample_table]
  have "\<not> src_handle s' \<and> id (fg_world g') = sample_table\<lparr>ft_chain := None,
      ft_input := filter (\<lambda>r. r \<noteq> Jump) (ft_input sample_table),
      ft_output := filter (\<lambda>r. r \<noteq> Jump) (ft_output sample_table)\<rparr>"
    unfolding run' using un sample_start(3) by auto
  ultimately show ?thesis using run run' by (simp add: sample_table_def)
qed

end
