(* ===== verification/Kernel_Verdicts.thy ===== *)
theory Kernel_Verdicts
  imports Source_Properties
begin

text \<open>
  From the kernel's queue to the verdicts: the receive loop gives each packet the verdict of the
  pipeline in the state its predecessors left, in the order of the queue, and what the pipeline
  promises about a violation is what the kernel is told.
\<close>

section \<open>The work of the loop\<close>

datatype loop_item = Answer kernel_packet | Clean_up

fun loop_work :: "time_point \<Rightarrow> loop_turn list \<Rightarrow> loop_item list" where
  "loop_work since [] = []"
| "loop_work since (t # ts) =
     map Answer (turn_packets t) @
     (if seconds 1 \<le> turn_now t - since then Clean_up # loop_work (turn_now t) ts else loop_work since ts)"

fun item_events :: "loop_item \<Rightarrow> 'c capture_event list" where
  "item_events (Answer k) = packet_events k"
| "item_events Clean_up = [Tick]"

fun item_ids :: "loop_item \<Rightarrow> u32 list" where
  "item_ids (Answer k) = (case kp_id k of None \<Rightarrow> [] | Some i \<Rightarrow> [i])"
| "item_ids Clean_up = []"

definition work_run ::
    "'c flow_consumer \<Rightarrow> (nat \<Rightarrow> time_point) \<Rightarrow> loop_item list \<Rightarrow> 'c packet_capture \<Rightarrow> 'c packet_capture" where
  "work_run ops clock ws pc = pc_run ops clock (concat (map item_events ws)) pc"

text \<open>The answers to a packet, in the state it finds: none without an identifier, and a packet that
  cannot be read passes.\<close>

definition kernel_answer ::
    "'c flow_consumer \<Rightarrow> (nat \<Rightarrow> time_point) \<Rightarrow> kernel_packet \<Rightarrow> 'c packet_capture \<Rightarrow> (u32 \<times> bool) list" where
  "kernel_answer ops clock k pc =
     (case kp_id k of
        None \<Rightarrow> []
      | Some i \<Rightarrow>
          [(i, case kp_payload k of
                 None \<Rightarrow> True
               | Some data \<Rightarrow> fst (on_packet ops clock (Some data) (hook_direction (kp_hook k)) pc))])"

fun work_answers ::
    "'c flow_consumer \<Rightarrow> (nat \<Rightarrow> time_point) \<Rightarrow> loop_item list \<Rightarrow> 'c packet_capture \<Rightarrow> (u32 \<times> bool) list" where
  "work_answers ops clock [] pc = []"
| "work_answers ops clock (Answer k # ws) pc =
     kernel_answer ops clock k pc @ work_answers ops clock ws (work_run ops clock [Answer k] pc)"
| "work_answers ops clock (Clean_up # ws) pc = work_answers ops clock ws (work_run ops clock [Clean_up] pc)"

lemma work_run_simps [simp]:
  "work_run ops clock [] pc = pc"
  "work_run ops clock (ws @ vs) pc = work_run ops clock vs (work_run ops clock ws pc)"
  by (simp_all add: work_run_def pc_run_append)

lemma work_run_Cons: "work_run ops clock (w # ws) pc = work_run ops clock ws (work_run ops clock [w] pc)"
  by (simp add: work_run_def pc_run_append)

lemma work_answers_append:
  "work_answers ops clock (ws @ vs) pc =
     work_answers ops clock ws pc @ work_answers ops clock vs (work_run ops clock ws pc)"
proof (induction ws arbitrary: pc)
  case (Cons w ws)
  have "work_run ops clock (w # ws) pc = work_run ops clock ws (work_run ops clock [w] pc)" by (rule work_run_Cons)
  with Cons show ?case by (cases w) simp_all
qed simp

lemma work_answers_ids: "map fst (work_answers ops clock ws pc) = concat (map item_ids ws)"
proof (induction ws arbitrary: pc)
  case (Cons w ws)
  then show ?case by (cases w) (simp_all add: kernel_answer_def split: option.split)
qed simp

lemma received_answer:
  "src_verdicts (on_packet_received (capture_handlers ops clock) k s) =
     src_verdicts s @ kernel_answer ops clock k (src_client s)"
  by (auto simp: on_packet_received_def capture_handlers_def kernel_answer_def Let_def
      split: option.splits prod.splits)

lemma fold_received_answers:
  "src_verdicts (fold (on_packet_received (capture_handlers ops clock)) ks s) =
     src_verdicts s @ work_answers ops clock (map Answer ks) (src_client s)"
  by (induction ks arbitrary: s) (simp_all add: received_answer received_client work_run_def)

lemma serve_answers:
  "src_verdicts (snd (serve (capture_handlers ops clock) t (v, s))) =
     src_verdicts s @ work_answers ops clock (map Answer (turn_packets t)) (src_client s)"
  by (simp add: serve_def fold_received_answers)

lemma item_events_Answer: "concat (map (item_events \<circ> Answer) ks) = concat (map packet_events ks)"
  by (induction ks) simp_all

lemma loop_turns_answers:
  assumes "src_running s" "\<not> src_stop_requested s"
  shows "src_verdicts (snd (loop_turns (capture_handlers ops clock) ts (v, s))) =
      src_verdicts s @ work_answers ops clock (loop_work (lv_last_cleanup v) (takeWhile served ts)) (src_client s)"
  using assms
proof (induction ts arbitrary: v s)
  case (Cons t ts)
  let ?h = "capture_handlers ops clock"
  obtain v' s' where vs: "serve ?h t (v, s) = (v', s')" by fastforce
  note sv = serve_capture [where ops = ops and clock = clock and t = t and v = v and s = s, unfolded vs]
  show ?case
  proof (cases "served t")
    case True
    have "src_running s'" "\<not> src_stop_requested s'" using sv Cons.prems by simp_all
    note ih = Cons.IH [OF this, of v']
    let ?pc = "work_run ops clock (map Answer (turn_packets t)) (src_client s)"
    have answers: "src_verdicts s' = src_verdicts s @ work_answers ops clock (map Answer (turn_packets t)) (src_client s)"
      using serve_answers [of ops clock t v s] vs by simp
    show ?thesis
    proof (cases "seconds 1 \<le> turn_now t - lv_last_cleanup v")
      case tick: True
      then have "src_client s' = work_run ops clock [Clean_up] ?pc" "lv_last_cleanup v' = turn_now t"
        using sv(1,2) by (simp_all add: work_run_def pc_run_append item_events_Answer)
      with ih answers tick True Cons.prems show ?thesis
        by (simp add: loop_turns_step vs work_answers_append del: loop_turns.simps)
    next
      case no: False
      then have "src_client s' = ?pc" "lv_last_cleanup v' = lv_last_cleanup v"
        using sv(1,2) by (simp_all add: work_run_def item_events_Answer)
      with ih answers no True Cons.prems show ?thesis
        by (simp add: loop_turns_step vs work_answers_append del: loop_turns.simps)
    qed
  next
    case False
    then show ?thesis using Cons.prems by (simp add: loop_turns_step source_stop_def del: loop_turns.simps)
  qed
qed simp

lemma loop_answers:
  assumes "\<not> src_stop_requested s"
  shows "src_verdicts (snd (source_loop (capture_handlers ops clock) now1 now2 ts s)) =
    src_verdicts s @ work_answers ops clock (loop_work now1 (takeWhile served ts)) (src_client s)"
  using loop_turns_answers [of "s\<lparr>src_running := True\<rparr>" ops clock ts
      "\<lparr>lv_last_cleanup = now1, lv_last_enobufs_log = now2, lv_enobufs_since_log = 0\<rparr>"] assms
  by (simp add: source_loop_def)

section \<open>A violation as the kernel sees it\<close>

text \<open>A packet the loop can read: its identifier, its payload, and that it came in.\<close>

definition inbound_packet :: "u32 \<Rightarrow> u8 list \<Rightarrow> kernel_packet \<Rightarrow> bool" where
  "inbound_packet i data k \<longleftrightarrow> kp_id k = Some i \<and> kp_hook k = NF_INET_LOCAL_IN \<and> kp_payload k = Some data"

lemma inbound_answer:
  assumes "inbound_packet i data k"
  shows "kernel_answer ops clock k pc = [(i, fst (on_packet ops clock (Some data) INBOUND pc))]"
    "work_run ops clock [Answer k] pc = snd (on_packet ops clock (Some data) INBOUND pc)"
    "item_ids (Answer k) = [i]"
  using assms
  by (simp_all add: inbound_packet_def kernel_answer_def work_run_def packet_events_def hook_direction_def)

text \<open>C13. In the queue of the kernel: when a packet whose source violates a rule comes up, the answer the
  loop gives for its identifier is a drop, and so is the answer to every later packet of that source,
  whatever packets, interruptions, overflows and clean-ups lie between the two, until the lifetime of
  the block has passed. Every packet with an identifier has its answer in between.\<close>

theorem violation_dropped_in_kernel:
  assumes "\<not> src_stop_requested s" "mono clock" "pc_inv (src_client s)"
    and "loop_work now1 (takeWhile served ts) = ws1 @ [Answer k] @ ws2 @ [Answer k'] @ ws3"
    and "inbound_packet i data k" "inbound_packet i' data' k'"
    and "parse (Some data) = Inr (Some p)" "has_ports p" "parse (Some data') = Inr (Some p')"
    and "src_ip (tuple p') = src_ip (tuple p)"
    and "pc = work_run ops clock ws1 (src_client s)"
    and "\<not> is_whitelisted (pc_whitelist pc) (src_ip (tuple p))"
    and "\<not> is_blocked (pc_block_list pc) (src_ip (tuple p)) (clock (pc_clock_reads pc))"
    and "rule_hit p (clock (pc_clock_reads pc)) pc \<noteq> None"
    and "pc' = work_run ops clock ([Answer k] @ ws2) pc"
    and "clock (pc_clock_reads pc') < clock (pc_clock_reads pc) + seconds (pc_block_ttl_seconds pc)"
  shows "\<exists>v1 v2 v3. src_verdicts (snd (source_loop (capture_handlers ops clock) now1 now2 ts s)) =
      src_verdicts s @ v1 @ [(i, False)] @ v2 @ [(i', False)] @ v3 \<and>
    map fst v1 = concat (map item_ids ws1) \<and> map fst v2 = concat (map item_ids ws2) \<and>
    map fst v3 = concat (map item_ids ws3)"
proof -
  let ?mid = "snd (on_packet ops clock (Some data) INBOUND pc)"
  have inv: "pc_inv pc" unfolding assms(11) work_run_def by (rule pc_inv_run [OF assms(3)])
  have hit: "\<not> fst (on_packet ops clock (Some data) INBOUND pc)"
    "block_map (pc_block_list ?mid) (src_ip (tuple p')) = Some (clock (pc_clock_reads pc) + seconds (pc_block_ttl_seconds pc))"
    using rule_drop_verdict [where ops = ops and clock = clock, OF inv assms(7,8,12-14)] assms(10) by simp_all
  have pc': "pc' = pc_run ops clock (concat (map item_events ws2)) ?mid"
    using assms(15) inbound_answer(2) [OF assms(5), of ops clock pc] by (simp add: work_run_def pc_run_append)
  have later: "\<not> fst (on_packet ops clock (Some data') INBOUND pc')"
    using assms(16) by (intro blocked_source_dropped [OF assms(2) pc_inv_on_packet [OF inv] hit(2) pc' assms(9)])
  have "work_answers ops clock (loop_work now1 (takeWhile served ts)) (src_client s) =
      work_answers ops clock ws1 (src_client s) @ [(i, False)] @ work_answers ops clock ws2 ?mid @ [(i', False)] @
      work_answers ops clock ws3 (work_run ops clock [Answer k'] pc')"
    using hit(1) later
    by (simp add: assms(4) work_answers_append inbound_answer(1,2) [OF assms(5)] inbound_answer(1) [OF assms(6)]
        flip: assms(11)) (simp add: pc' work_run_def)
  then show ?thesis unfolding loop_answers [OF assms(1)] by (metis work_answers_ids)
qed

definition udp_packet :: "u32 \<Rightarrow> kernel_packet" where
  "udp_packet i = \<lparr>kp_id = Some i, kp_hook = NF_INET_LOCAL_IN, kp_payload = Some udp_sample\<rparr>"

definition udp_turn :: loop_turn where
  "udp_turn = \<lparr>turn_stop = False, turn_recv = Received [udp_packet 9, udp_packet 10], turn_log_now = 0, turn_now = 0\<rparr>"

theorem violation_dropped_in_kernel_witness:
  "src_verdicts (snd (source_loop (capture_handlers logging_consumer int) 0 0 [udp_turn] (new_source 0 (sample_sensor {})))) =
     [(9, False), (10, False)]"
proof -
  let ?pc = "sample_sensor {}" and ?s = "new_source 0 (sample_sensor {})"
  obtain p where p: "parse (Some udp_sample) = Inr (Some p)" "has_ports p" using parse_udp_sample by blast
  have packet: "inbound_packet i udp_sample (udp_packet i)" for i by (simp add: inbound_packet_def udp_packet_def)
  have work: "loop_work 0 (takeWhile served [udp_turn]) = [] @ [Answer (udp_packet 9)] @ [] @ [Answer (udp_packet 10)] @ []"
    by (simp add: udp_turn_def served_def turn_packets_def seconds_def)
  have fields: "pc_whitelist ?pc = {}" "pc_block_list ?pc = block_list_empty" "pc_clock_reads ?pc = 1"
    "pc_block_ttl_seconds ?pc = 600"
    by (simp_all add: sample_sensor_def new_packet_capture_def default_config_def)
  have start: "\<not> src_stop_requested ?s" "src_client ?s = ?pc" "src_verdicts ?s = []" "mono int" "pc_inv ?pc"
    by (simp_all add: new_source_def mono_def sample_sensor_inv)
  let ?pc' = "work_run logging_consumer int ([Answer (udp_packet 9)] @ []) ?pc"
  have reads: "pc_clock_reads ?pc' = 2"
    using sample_sensor_hits [of p 1 "{}"] p fields inbound_answer(2) [OF packet, of logging_consumer int 9 ?pc]
    by (auto simp: on_packet_def read_clock_def handle_inbound_def rule_hit_def Let_def split_beta
        is_whitelisted_def is_blocked_def block_list_empty_def split: option.splits)
  have first: "?pc = work_run logging_consumer int [] (src_client ?s)" using start(2) by simp
  have free: "\<not> is_whitelisted (pc_whitelist ?pc) (src_ip (tuple p))"
    "\<not> is_blocked (pc_block_list ?pc) (src_ip (tuple p)) (int (pc_clock_reads ?pc))"
    "rule_hit p (int (pc_clock_reads ?pc)) ?pc \<noteq> None"
    using sample_sensor_hits [of p 1 "{}"] p fields by (simp_all add: is_whitelisted_def is_blocked_def block_list_empty_def)
  have inv: "pc_inv (src_client ?s)" using start(2,5) by simp
  have early: "int (pc_clock_reads ?pc') < int (pc_clock_reads ?pc) + seconds (pc_block_ttl_seconds ?pc)"
    using reads fields by (simp add: seconds_def)
  from violation_dropped_in_kernel [OF start(1,4) inv work packet packet p p(1) refl first free refl early]
  have "\<exists>v1 v2 v3. src_verdicts (snd (source_loop (capture_handlers logging_consumer int) 0 0 [udp_turn] ?s)) =
      src_verdicts ?s @ v1 @ [(9, False)] @ v2 @ [(10, False)] @ v3 \<and> v1 = [] \<and> v2 = [] \<and> v3 = []"
    by simp
  then show ?thesis using start(3) by simp
qed

end
