(* ===== verification/Ai_Protocol.thy ===== *)
theory Ai_Protocol
  imports Json Flow_Features
begin

text \<open>
  ai/ai_protocol.h and ai/ai_protocol.cpp: the request about one flow and the checking of the
  server's answer. \<open>json_parse\<close> and \<open>json_dump\<close> of the JSON library and \<open>inet_ntop\<close> of the C library
  are parameters. The error texts of the code are the constructors of \<open>protocol_error\<close>.
\<close>

section \<open>Requests\<close>

definition request_json :: "(u32 \<Rightarrow> string option) \<Rightarrow> flow_record \<Rightarrow> json" where
  "request_json inet_ntop r =
     JObject
       [(''schema_version'', JInteger 1),
        (''flow_id'', JString (r_flow_id r)),
        (''src_ip'', JString (ip_to_string inet_ntop (src_ip (r_key r)))),
        (''src_port'', JUnsigned (ucast (src_port (r_key r)))),
        (''dst_ip'', JString (ip_to_string inet_ntop (dst_ip (r_key r)))),
        (''dst_port'', JUnsigned (ucast (dst_port (r_key r)))),
        (''protocol'', JUnsigned (ucast (protocol (r_key r)))),
        (''first_seen_ms'', JInteger (word_of_int (r_first_seen_ms r))),
        (''last_seen_ms'', JInteger (word_of_int (r_last_seen_ms r))),
        (''end_reason'', JString (flow_end_reason_to_string (r_end_reason r))),
        (''feature_schema_version'', JUnsigned (ucast (r_feature_schema_version r))),
        (''features'', JArray (map (\<lambda>x. JFloat (Finite x)) (r_features r)))]"

definition serialize_flow_request ::
    "(json \<Rightarrow> string) \<Rightarrow> (u32 \<Rightarrow> string option) \<Rightarrow> flow_record \<Rightarrow> string" where
  "serialize_flow_request json_dump inet_ntop r = json_dump (request_json inet_ntop r)"

section \<open>Responses\<close>

record ai_response =
  resp_ok :: bool
  resp_flow_id :: string
  resp_model_version :: string
  resp_anomaly :: bool
  resp_score :: double
  resp_threshold :: double
  resp_error_code :: string

datatype protocol_error =
    Json_exception
  | Not_an_object
  | Schema_version_error
  | Flow_id_mismatch
  | Model_version_mismatch
  | Ok_type_error
  | Error_code_error
  | Anomaly_type_error
  | Score_type_error
  | Score_range_error

definition has_string :: "json \<Rightarrow> string \<Rightarrow> bool" where
  "has_string obj key \<longleftrightarrow> (case member obj key of Some v \<Rightarrow> is_string v | None \<Rightarrow> False)"

definition string_at :: "json \<Rightarrow> string \<Rightarrow> string" where
  "string_at obj key = (case member obj key of Some (JString s) \<Rightarrow> s | _ \<Rightarrow> [])"

definition negative :: "double \<Rightarrow> bool" where
  "negative d = (case d of Finite x \<Rightarrow> x < 0 | NegInf \<Rightarrow> True | _ \<Rightarrow> False)"

definition check_verdict :: "json \<Rightarrow> string \<Rightarrow> string \<Rightarrow> protocol_error + ai_response" where
  "check_verdict response flow_id model_version =
     (case member response ''anomaly'' of
        Some (JBool anomaly) \<Rightarrow>
          (case (member response ''score'', member response ''threshold'') of
             (Some s, Some t) \<Rightarrow>
               if is_number s \<and> is_number t then
                 (case (get_double s, get_double t) of
                    (Some score, Some threshold) \<Rightarrow>
                      if \<not> isfinite score \<or> negative score \<or> \<not> isfinite threshold \<or> negative threshold
                      then Inl Score_range_error
                      else Inr \<lparr>resp_ok = True, resp_flow_id = flow_id, resp_model_version = model_version,
                                resp_anomaly = anomaly, resp_score = score, resp_threshold = threshold,
                                resp_error_code = []\<rparr>
                  | _ \<Rightarrow> Inl Json_exception)
               else Inl Score_type_error
           | _ \<Rightarrow> Inl Score_type_error)
      | _ \<Rightarrow> Inl Anomaly_type_error)"

definition check_response :: "json \<Rightarrow> string \<Rightarrow> string \<Rightarrow> protocol_error + ai_response" where
  "check_response response flow_id model_version =
     (if \<not> is_object response then Inl Not_an_object
      else if \<not> (case member response ''schema_version'' of
                   None \<Rightarrow> False | Some v \<Rightarrow> is_number_integer v \<and> get_int v = Some 1)
      then Inl Schema_version_error
      else if \<not> has_string response ''flow_id'' \<or> string_at response ''flow_id'' \<noteq> flow_id
      then Inl Flow_id_mismatch
      else if \<not> has_string response ''model_version'' \<or> string_at response ''model_version'' \<noteq> model_version
      then Inl Model_version_mismatch
      else case member response ''ok'' of
        Some (JBool False) \<Rightarrow>
          if \<not> has_string response ''error_code'' \<or> string_at response ''error_code'' = []
          then Inl Error_code_error
          else Inr \<lparr>resp_ok = False, resp_flow_id = flow_id, resp_model_version = model_version,
                    resp_anomaly = False, resp_score = Finite 0, resp_threshold = Finite 0,
                    resp_error_code = string_at response ''error_code''\<rparr>
      | Some (JBool True) \<Rightarrow> check_verdict response flow_id model_version
      | _ \<Rightarrow> Inl Ok_type_error)"

definition parse_ai_response ::
    "(string \<Rightarrow> json option) \<Rightarrow> string \<Rightarrow> string \<Rightarrow> string \<Rightarrow> protocol_error + ai_response" where
  "parse_ai_response json_parse json_text expected_flow_id expected_model_version =
     (case json_parse json_text of
        None \<Rightarrow> Inl Json_exception
      | Some response \<Rightarrow> check_response response expected_flow_id expected_model_version)"

section \<open>What is accepted\<close>

lemma has_string_at: "has_string j key \<Longrightarrow> member j key = Some (JString (string_at j key))"
  by (auto simp: has_string_def string_at_def is_string_def split: option.splits json.splits)

lemma check_verdict_Inr:
  assumes "check_verdict j fid mv = Inr r"
  shows "resp_ok r \<and> resp_flow_id r = fid \<and> resp_model_version r = mv \<and>
    member j ''anomaly'' = Some (JBool (resp_anomaly r)) \<and>
    (\<exists>x y. resp_score r = Finite x \<and> resp_threshold r = Finite y \<and> 0 \<le> x \<and> 0 \<le> y)"
  using assms
  by (auto simp: check_verdict_def isfinite_def negative_def not_less
      split: option.splits json.splits if_splits double.splits prod.splits)

text \<open>An answer that is accepted is the answer to the question asked: it is a JSON object that
  names the flow and the model version expected; a verdict carries the anomaly flag of the text and a
  score and a threshold that are finite and not negative; a refusal carries a non-empty error code
  and is never read as an anomaly.\<close>

theorem accepted_response:
  assumes "json_parse json_text = Some j"
    and "parse_ai_response json_parse json_text flow_id model_version = Inr r"
  shows "resp_flow_id r = flow_id \<and> resp_model_version r = model_version \<and>
    member j ''flow_id'' = Some (JString flow_id) \<and>
    member j ''model_version'' = Some (JString model_version) \<and>
    member j ''ok'' = Some (JBool (resp_ok r)) \<and>
    (if resp_ok r then
       member j ''anomaly'' = Some (JBool (resp_anomaly r)) \<and>
       (\<exists>x y. resp_score r = Finite x \<and> resp_threshold r = Finite y \<and> 0 \<le> x \<and> 0 \<le> y)
     else \<not> resp_anomaly r \<and> resp_error_code r \<noteq> [] \<and>
       member j ''error_code'' = Some (JString (resp_error_code r)))"
proof -
  have check: "check_response j flow_id model_version = Inr r"
    using assms by (simp add: parse_ai_response_def)
  then have ids: "has_string j ''flow_id''" "string_at j ''flow_id'' = flow_id"
    "has_string j ''model_version''" "string_at j ''model_version'' = model_version"
    by (auto simp: check_response_def split: if_splits)
  then have named: "member j ''flow_id'' = Some (JString flow_id)"
    "member j ''model_version'' = Some (JString model_version)"
    using has_string_at [OF ids(1)] has_string_at [OF ids(3)] by simp_all
  from check consider
      (no) "member j ''ok'' = Some (JBool False)" "has_string j ''error_code''"
        "string_at j ''error_code'' \<noteq> []"
        "r = \<lparr>resp_ok = False, resp_flow_id = flow_id, resp_model_version = model_version,
              resp_anomaly = False, resp_score = Finite 0, resp_threshold = Finite 0,
              resp_error_code = string_at j ''error_code''\<rparr>"
    | (yes) "member j ''ok'' = Some (JBool True)" "check_verdict j flow_id model_version = Inr r"
    by (auto simp: check_response_def split: if_splits option.splits json.splits bool.splits)
  then show ?thesis
  proof cases
    case no
    with named has_string_at [OF no(2)] show ?thesis by simp
  next
    case yes
    with named check_verdict_Inr [OF yes(2)] show ?thesis by simp
  qed
qed

definition sample_response :: json where
  "sample_response =
     JObject [(''schema_version'', JUnsigned 1), (''flow_id'', JString ''7-1''),
       (''model_version'', JString ''v1''), (''ok'', JBool True), (''anomaly'', JBool True),
       (''score'', JFloat (Finite 3)), (''threshold'', JUnsigned 2)]"

theorem accepted_response_witness:
  "member sample_response ''ok'' = Some (JBool True) \<and>
   parse_ai_response (\<lambda>_. Some sample_response) ''{...}'' ''7-1'' ''v1'' \<noteq> Inl Flow_id_mismatch"
proof -
  have "\<exists>r. parse_ai_response (\<lambda>_. Some sample_response) ''{...}'' ''7-1'' ''v1'' = Inr r \<and> resp_ok r"
    by (simp add: parse_ai_response_def check_response_def check_verdict_def sample_response_def member_def
        is_object_def is_number_integer_def is_number_def get_int_def get_double_def has_string_def is_string_def
        string_at_def isfinite_def negative_def)
  then show ?thesis
    using accepted_response [of "\<lambda>_. Some sample_response" "''{...}''" sample_response "''7-1''" "''v1''"]
    by auto
qed

text \<open>An answer with a given schema version, at any place among its other members.\<close>

definition with_version :: "json \<Rightarrow> (string \<times> json) list \<Rightarrow> (string \<times> json) list \<Rightarrow> json" where
  "with_version version before after = JObject (before @ (''schema_version'', version) # after)"

lemma version_members:
  assumes "''schema_version'' \<notin> fst ` set before"
  shows "member (with_version version before after) ''schema_version'' = Some version"
    "key \<noteq> ''schema_version'' \<Longrightarrow>
       member (with_version version before after) key = member (with_version version' before after) key"
  using assms map_of_eq_None_iff [of before "''schema_version''"]
  by (simp_all add: with_version_def member_def map_add_def split: option.split)

lemma ucast_one_iff: "sint (ucast (v :: u64) :: 32 word) = 1 \<longleftrightarrow> unat v mod 2 ^ 32 = 1"
proof -
  have "sint (ucast v :: 32 word) = 1 \<longleftrightarrow> (ucast v :: 32 word) = 1"
    using signed_word_eqI [of "ucast v :: 32 word" 1] by auto
  also have "\<dots> \<longleftrightarrow> unat (ucast v :: 32 word) = 1" by (simp add: word_unat_eq_iff)
  also have "unat (ucast v :: 32 word) = unat v mod 2 ^ 32" by (simp add: unsigned_ucast_eq take_bit_eq_mod)
  finally show ?thesis .
qed

text \<open>C37. The schema version of an answer is compared after truncation to 32 bits: whatever else the answer
  holds, an integer version is treated as version 1 exactly when its low 32 bits, as they stand in the
  64 bits of the library's number, are those of 1, and is refused otherwise. So an answer of version
  \<open>2 ^ 32 + 1\<close>, or of a negative version, can pass the check that is meant to admit version 1 only.\<close>

theorem schema_version_truncated:
  assumes "version = JUnsigned v \<or> version = JInteger v" "''schema_version'' \<notin> fst ` set before"
  shows "parse_ai_response (\<lambda>_. Some (with_version version before after)) json_text flow_id model_version =
    (if unat v mod 2 ^ 32 = 1
     then parse_ai_response (\<lambda>_. Some (with_version (JUnsigned 1) before after)) json_text flow_id model_version
     else Inl Schema_version_error)"
proof -
  let ?j = "with_version version before after" and ?one = "with_version (JUnsigned 1) before after"
  have same: "member ?j key = member ?one key" if "key \<noteq> ''schema_version''" for key
    by (rule version_members(2) [OF assms(2) that])
  have "is_object ?j" "is_object ?one" by (simp_all add: with_version_def is_object_def)
  moreover have "is_number_integer version \<and> (get_int version = Some 1 \<longleftrightarrow> unat v mod 2 ^ 32 = 1)"
    using assms(1) ucast_one_iff [of v] by (auto simp: is_number_integer_def get_int_def)
  moreover have "is_number_integer (JUnsigned 1)" "get_int (JUnsigned 1) = Some 1"
    by (simp_all add: is_number_integer_def get_int_def)
  moreover have strings: "has_string ?j key = has_string ?one key" "string_at ?j key = string_at ?one key"
    if "key \<noteq> ''schema_version''" for key
    using same [OF that] by (simp_all add: has_string_def string_at_def)
  moreover have verdict: "check_verdict ?j flow_id model_version = check_verdict ?one flow_id model_version"
    unfolding check_verdict_def same [of "''anomaly''", simplified] same [of "''score''", simplified]
      same [of "''threshold''", simplified] ..
  ultimately show ?thesis
    unfolding parse_ai_response_def check_response_def option.case version_members(1) [OF assms(2)]
      same [of "''ok''", simplified] strings [of "''flow_id''", simplified] strings [of "''model_version''", simplified]
      strings [of "''error_code''", simplified] verdict
    by simp
qed

text \<open>An answer of version \<open>2 ^ 32 + 1\<close> that is taken for one of version 1.\<close>

theorem schema_version_truncated_witness:
  "\<exists>r. parse_ai_response (\<lambda>_. Some (with_version (JUnsigned 4294967297) []
       [(''flow_id'', JString ''7-1''), (''model_version'', JString ''v1''), (''ok'', JBool False),
        (''error_code'', JString ''e'')])) ''{...}'' ''7-1'' ''v1'' = Inr r \<and> resp_error_code r = ''e''"
  using schema_version_truncated [of "JUnsigned 4294967297" 4294967297 "[]"
      "[(''flow_id'', JString ''7-1''), (''model_version'', JString ''v1''), (''ok'', JBool False),
        (''error_code'', JString ''e'')]" "''{...}''" "''7-1''" "''v1''"]
  by (simp add: parse_ai_response_def check_response_def with_version_def member_def
      is_object_def is_number_integer_def get_int_def has_string_def is_string_def string_at_def)

section \<open>What is sent\<close>

lemma ip_text_inject:
  assumes "inj inet_ntop" "None \<notin> range inet_ntop" "ip_to_string inet_ntop a = ip_to_string inet_ntop b"
  shows "a = b"
proof -
  obtain s t where "inet_ntop a = Some s" "inet_ntop b = Some t" using assms(2) by (metis option.exhaust rangeI)
  with assms(1,3) show ?thesis by (auto simp: ip_to_string_def intro: injD)
qed

lemma sint_of_wi_64: "- (2 ^ 63) \<le> a \<Longrightarrow> a < 2 ^ 63 \<Longrightarrow> sint (word_of_int a :: 64 word) = a"
  unfolding sint_sbintrunc' by (rule signed_take_bit_int_eq_self) simp_all

lemma word_of_int_inject_64:
  "- (2 ^ 63) \<le> a \<Longrightarrow> a < 2 ^ 63 \<Longrightarrow> - (2 ^ 63) \<le> b \<Longrightarrow> b < 2 ^ 63 \<Longrightarrow>
   (word_of_int a :: 64 word) = word_of_int b \<Longrightarrow> a = b"
  by (metis sint_of_wi_64)

lemma ucast_inject:
  "(ucast (a :: u16) :: u64) = ucast b \<longleftrightarrow> a = b"
  "(ucast (c :: u8) :: u64) = ucast d \<longleftrightarrow> c = d"
  "(ucast (x :: u32) :: u64) = ucast y \<longleftrightarrow> x = y"
  by (transfer, simp)+

lemma end_reason_inject: "flow_end_reason_to_string a = flow_end_reason_to_string b \<longleftrightarrow> a = b"
  by (cases a; cases b) simp_all

definition times_in_range :: "flow_record \<Rightarrow> bool" where
  "times_in_range r \<longleftrightarrow>
     - (2 ^ 63) \<le> r_first_seen_ms r \<and> r_first_seen_ms r < 2 ^ 63 \<and>
     - (2 ^ 63) \<le> r_last_seen_ms r \<and> r_last_seen_ms r < 2 ^ 63"

text \<open>A request says everything about its flow: two records with the same request are the same
  record, as far as the address texts of the C library tell addresses apart and the times fit 64
  bits. So nothing is lost, swapped or merged on the way to the server.\<close>

theorem request_determines_record:
  assumes "inj inet_ntop" "None \<notin> range inet_ntop" "times_in_range r" "times_in_range r'"
    and "request_json inet_ntop r = request_json inet_ntop r'"
  shows "r = r'"
proof -
  note eq = assms(5) [unfolded request_json_def, simplified]
  have ips: "src_ip (r_key r) = src_ip (r_key r')" "dst_ip (r_key r) = dst_ip (r_key r')"
    using eq by (auto intro: ip_text_inject [OF assms(1,2)])
  have times: "r_first_seen_ms r = r_first_seen_ms r'" "r_last_seen_ms r = r_last_seen_ms r'"
    using eq assms(3,4) by (auto simp: times_in_range_def intro: word_of_int_inject_64)
  have "inj (\<lambda>x. JFloat (Finite x))" by (simp add: inj_on_def)
  then have features: "r_features r = r_features r'" using eq by (auto dest: inj_mapD)
  have "r_key r = r_key r'" using eq ips by (cases "r_key r"; cases "r_key r'") (simp add: ucast_inject)
  with eq times features show ?thesis by (cases r; cases r') (simp add: ucast_inject end_reason_inject)
qed

definition plain_text :: "u32 \<Rightarrow> string option" where
  "plain_text ip = Some (string_of_nat (unat ip))"

definition sample_record :: "string \<Rightarrow> flow_record" where
  "sample_record flow_id =
     \<lparr>r_flow_id = flow_id, r_key = mk_tuple 7 1 40000 80 6, r_first_seen_ms = 0, r_last_seen_ms = 5,
      r_end_reason = TIMEOUT, r_feature_schema_version = 1, r_features = replicate 27 0\<rparr>"

theorem request_determines_record_witness:
  "request_json plain_text (sample_record ''7-1'') \<noteq> request_json plain_text (sample_record ''7-2'')"
proof
  assume eq: "request_json plain_text (sample_record ''7-1'') = request_json plain_text (sample_record ''7-2'')"
  have "inj plain_text" by (simp add: inj_on_def plain_text_def word_unat_eq_iff)
  moreover have "None \<notin> range plain_text" by (auto simp: plain_text_def)
  moreover have "times_in_range (sample_record i)" for i by (simp add: times_in_range_def sample_record_def)
  ultimately have "sample_record ''7-1'' = sample_record ''7-2''"
    using eq request_determines_record [of plain_text "sample_record ''7-1''" "sample_record ''7-2''"] by blast
  then show False by (simp add: sample_record_def)
qed

end
