(* ===== verification/Async_Client.thy ===== *)
theory Async_Client
  imports Ai_Protocol Packet_Capture
begin

text \<open>
  ai/async_ai_client.h and ai/async_ai_client.cpp: the client that asks the model about ended flows.
  The capture thread calls \<open>consume\<close> and \<open>drain_decisions\<close>, the supervisor calls \<open>set_online\<close>,
  \<open>set_offline\<close> and \<open>stop\<close>, and a worker thread exchanges one request at a time with the server.

  Each section under the mutex is one atomic step; the worker's position between two of them, with
  its local variables, is its state. The conditions the worker waits for are the guards of its steps.
  What ZeroMQ does with a request is the outcome of the exchange step, any of the outcomes the code
  distinguishes. The calls of the failure handler and the requests sent are recorded; what \<open>fail_transport\<close>
  does after its section, the count of a timeout and that call, belongs to the step of the section. The texts of
  the failure reasons are constructors.
\<close>

section \<open>The state\<close>

datatype failure =
    Send_timeout
  | Total_timeout
  | Receive_timeout
  | Zmq_error string
  | Client_error string

datatype worker =
    W_none
  | W_waiting
  | W_exchanging flow_record u64 string string
  | W_replied flow_record u64 string string
  | W_error u64
  | W_normal u64
  | W_deciding ai_decision u64
  | W_failing failure bool u64
  | W_exited

record client_stats =
  st_submitted :: u64
  st_unavailable_dropped :: u64
  st_queue_full_dropped :: u64
  st_normal_responses :: u64
  st_anomaly_responses :: u64
  st_protocol_errors :: u64
  st_timeouts :: u64

record ai_client =
  c_queue_capacity :: nat
  c_response_timeout_ms :: int
  c_pending_flows :: "flow_record list"
  c_pending_decisions :: "ai_decision list"
  c_started :: bool
  c_stop_requested :: bool
  c_online :: bool
  c_generation :: u64
  c_endpoint :: string
  c_model_version :: string
  c_unavailable_logged :: bool
  c_queue_full_logged :: bool
  c_last_unavailable_log :: time_point
  c_last_queue_full_log :: time_point
  c_stats :: client_stats
  c_worker :: worker
  c_socket :: "(u64 \<times> string) option"
  c_failures :: "failure list"
  c_sent :: "(string \<times> string) list"

definition zero_stats :: client_stats where
  "zero_stats =
     \<lparr>st_submitted = 0, st_unavailable_dropped = 0, st_queue_full_dropped = 0, st_normal_responses = 0,
      st_anomaly_responses = 0, st_protocol_errors = 0, st_timeouts = 0\<rparr>"

definition new_client :: "ai_config \<Rightarrow> ai_client" where
  "new_client cfg =
     \<lparr>c_queue_capacity = ai_queue_capacity cfg, c_response_timeout_ms = ai_response_timeout_ms cfg,
      c_pending_flows = [], c_pending_decisions = [], c_started = False, c_stop_requested = False,
      c_online = False, c_generation = 0, c_endpoint = [], c_model_version = [],
      c_unavailable_logged = False, c_queue_full_logged = False, c_last_unavailable_log = 0,
      c_last_queue_full_log = 0, c_stats = zero_stats, c_worker = W_none, c_socket = None,
      c_failures = [], c_sent = []\<rparr>"

section \<open>Calls\<close>

definition client_start :: "ai_client \<Rightarrow> ai_client" where
  "client_start c =
     (if c_started c \<or> c_stop_requested c then c else c\<lparr>c_started := True, c_worker := W_waiting\<rparr>)"

definition set_online :: "string \<Rightarrow> string \<Rightarrow> ai_client \<Rightarrow> ai_client" where
  "set_online endpoint model_version c =
     (if c_stop_requested c then c
      else c\<lparr>c_endpoint := endpoint, c_model_version := model_version,
             c_generation := c_generation c + 1, c_pending_flows := [], c_pending_decisions := [],
             c_online := True\<rparr>)"

definition set_offline :: "ai_client \<Rightarrow> ai_client" where
  "set_offline c =
     c\<lparr>c_online := False, c_generation := c_generation c + 1, c_pending_flows := [],
       c_pending_decisions := []\<rparr>"

text \<open>The part of \<open>stop\<close> before it joins the worker.\<close>

definition client_stop :: "ai_client \<Rightarrow> ai_client" where
  "client_stop c =
     c\<lparr>c_stop_requested := True, c_online := False, c_generation := c_generation c + 1,
       c_pending_flows := [], c_pending_decisions := [], c_started := False\<rparr>"

definition LOG_INTERVAL :: int where "LOG_INTERVAL = 60"

definition client_consume :: "time_point \<Rightarrow> flow_record \<Rightarrow> ai_client \<Rightarrow> bool \<times> ai_client" where
  "client_consume now r c =
     (let st = c_stats c in
      if \<not> c_online c \<or> c_stop_requested c then
        let unavailable = (\<not> c_unavailable_logged c \<or> now - c_last_unavailable_log c \<ge> seconds LOG_INTERVAL);
            c = c\<lparr>c_stats := st\<lparr>st_unavailable_dropped := st_unavailable_dropped st + 1\<rparr>\<rparr>
        in (False, if unavailable then c\<lparr>c_unavailable_logged := True, c_last_unavailable_log := now\<rparr> else c)
      else if length (c_pending_flows c) \<ge> c_queue_capacity c then
        let queue_full = (\<not> c_queue_full_logged c \<or> now - c_last_queue_full_log c \<ge> seconds LOG_INTERVAL);
            c = c\<lparr>c_stats := st\<lparr>st_queue_full_dropped := st_queue_full_dropped st + 1\<rparr>\<rparr>
        in (False, if queue_full then c\<lparr>c_queue_full_logged := True, c_last_queue_full_log := now\<rparr> else c)
      else
        (True, c\<lparr>c_pending_flows := c_pending_flows c @ [r],
                 c_stats := st\<lparr>st_submitted := st_submitted st + 1\<rparr>\<rparr>))"

definition client_drain :: "ai_client \<Rightarrow> ai_decision list \<times> ai_client" where
  "client_drain c = (c_pending_decisions c, c\<lparr>c_pending_decisions := []\<rparr>)"

definition client_stats_of :: "ai_client \<Rightarrow> client_stats" where
  "client_stats_of c = c_stats c"

definition fail_transport :: "failure \<Rightarrow> bool \<Rightarrow> u64 \<Rightarrow> ai_client \<Rightarrow> ai_client" where
  "fail_transport reason timed_out failed_generation c =
     (if \<not> c_online c \<or> c_generation c \<noteq> failed_generation then c
      else
        let st = c_stats c in
        c\<lparr>c_online := False, c_generation := c_generation c + 1, c_pending_flows := [],
          c_pending_decisions := [],
          c_stats := (if timed_out then st\<lparr>st_timeouts := st_timeouts st + 1\<rparr> else st),
          c_failures := c_failures c @ [reason]\<rparr>)"

section \<open>The worker\<close>

text \<open>What can come of one exchange: whether the send succeeded, the milliseconds it took, the answer
  if one came in the time left; or an exception, before or after the request was handed to the socket.\<close>

datatype exchange =
    Exchanged bool int "string option"
  | Exchange_raised bool failure

definition stale :: "u64 \<Rightarrow> ai_client \<Rightarrow> bool" where
  "stale generation c \<longleftrightarrow> \<not> c_online c \<or> c_generation c \<noteq> generation"

definition worker_pick :: "ai_client \<Rightarrow> ai_client option" where
  "worker_pick c =
     (if c_stop_requested c then Some (c\<lparr>c_worker := W_exited, c_socket := None\<rparr>)
      else if \<not> c_online c then None
      else case c_pending_flows c of
        [] \<Rightarrow> None
      | r # rs \<Rightarrow> Some (c\<lparr>c_pending_flows := rs,
                          c_worker := W_exchanging r (c_generation c) (c_endpoint c) (c_model_version c)\<rparr>))"

definition worker_connect :: "u64 \<Rightarrow> string \<Rightarrow> ai_client \<Rightarrow> ai_client" where
  "worker_connect generation endpoint c =
     (case c_socket c of
        Some (g, e) \<Rightarrow> if g = generation then c else c\<lparr>c_socket := Some (generation, endpoint)\<rparr>
      | None \<Rightarrow> c\<lparr>c_socket := Some (generation, endpoint)\<rparr>)"

definition worker_send :: "(flow_record \<Rightarrow> string) \<Rightarrow> u64 \<Rightarrow> string \<Rightarrow> flow_record \<Rightarrow> ai_client \<Rightarrow> ai_client" where
  "worker_send request generation endpoint r c =
     (let c = worker_connect generation endpoint c
      in c\<lparr>c_sent := c_sent c @ [(snd (the (c_socket c)), request r)]\<rparr>)"

definition worker_exchange ::
    "(flow_record \<Rightarrow> string) \<Rightarrow> exchange \<Rightarrow> flow_record \<Rightarrow> u64 \<Rightarrow> string \<Rightarrow> string \<Rightarrow> ai_client \<Rightarrow> ai_client" where
  "worker_exchange request ex r generation endpoint model_version c =
     (case ex of
        Exchange_raised after_send e \<Rightarrow>
          let c = (if after_send then worker_send request generation endpoint r c else c)
          in c\<lparr>c_socket := None, c_worker := W_failing e False generation\<rparr>
      | Exchanged sent elapsed_ms reply \<Rightarrow>
          let c = worker_send request generation endpoint r c
          in if \<not> sent then c\<lparr>c_socket := None, c_worker := W_failing Send_timeout True generation\<rparr>
             else if c_response_timeout_ms c - elapsed_ms \<le> 0
             then c\<lparr>c_socket := None, c_worker := W_failing Total_timeout True generation\<rparr>
             else case reply of
               None \<Rightarrow> c\<lparr>c_socket := None, c_worker := W_failing Receive_timeout True generation\<rparr>
             | Some text \<Rightarrow> c\<lparr>c_worker := W_replied r generation model_version text\<rparr>)"

definition worker_reply ::
    "(string \<Rightarrow> json option) \<Rightarrow> flow_record \<Rightarrow> u64 \<Rightarrow> string \<Rightarrow> string \<Rightarrow> ai_client \<Rightarrow> ai_client" where
  "worker_reply json_parse r generation model_version response c =
     (if stale generation c then c\<lparr>c_socket := None, c_worker := W_waiting\<rparr>
      else case parse_ai_response json_parse response (r_flow_id r) model_version of
        Inl e \<Rightarrow> c\<lparr>c_worker := W_error generation\<rparr>
      | Inr parsed \<Rightarrow>
          if \<not> resp_ok parsed then c\<lparr>c_worker := W_error generation\<rparr>
          else if \<not> resp_anomaly parsed then c\<lparr>c_worker := W_normal generation\<rparr>
          else c\<lparr>c_worker := W_deciding
                   \<lparr>ad_record = r, ad_anomaly = True, ad_score = resp_score parsed,
                    ad_threshold = resp_threshold parsed, ad_model_version = resp_model_version parsed\<rparr>
                   generation\<rparr>)"

definition worker_error :: "u64 \<Rightarrow> ai_client \<Rightarrow> ai_client" where
  "worker_error generation c =
     (if stale generation c then c\<lparr>c_socket := None, c_worker := W_waiting\<rparr>
      else let st = c_stats c in
        c\<lparr>c_stats := st\<lparr>st_protocol_errors := st_protocol_errors st + 1\<rparr>, c_worker := W_waiting\<rparr>)"

definition worker_normal :: "u64 \<Rightarrow> ai_client \<Rightarrow> ai_client" where
  "worker_normal generation c =
     (if stale generation c then c\<lparr>c_worker := W_waiting\<rparr>
      else let st = c_stats c in
        c\<lparr>c_stats := st\<lparr>st_normal_responses := st_normal_responses st + 1\<rparr>, c_worker := W_waiting\<rparr>)"

definition worker_decide :: "ai_decision \<Rightarrow> u64 \<Rightarrow> ai_client \<Rightarrow> ai_client option" where
  "worker_decide d generation c =
     (if c_stop_requested c \<or> stale generation c
      then Some (c\<lparr>c_socket := None, c_worker := W_waiting\<rparr>)
      else if length (c_pending_decisions c) < c_queue_capacity c then
        let st = c_stats c in
        Some (c\<lparr>c_pending_decisions := c_pending_decisions c @ [d],
                c_stats := st\<lparr>st_anomaly_responses := st_anomaly_responses st + 1\<rparr>,
                c_worker := W_waiting\<rparr>)
      else None)"

definition worker_fail :: "failure \<Rightarrow> bool \<Rightarrow> u64 \<Rightarrow> ai_client \<Rightarrow> ai_client" where
  "worker_fail reason timed_out generation c =
     (fail_transport reason timed_out generation c)\<lparr>c_worker := W_waiting\<rparr>"

text \<open>The step the worker takes from where it is, if it is not waiting for something.\<close>

definition worker_turn ::
    "(flow_record \<Rightarrow> string) \<Rightarrow> (string \<Rightarrow> json option) \<Rightarrow> exchange \<Rightarrow> ai_client \<Rightarrow> ai_client option" where
  "worker_turn request json_parse ex c =
     (case c_worker c of
        W_none \<Rightarrow> None
      | W_waiting \<Rightarrow> worker_pick c
      | W_exchanging r g e m \<Rightarrow> Some (worker_exchange request ex r g e m c)
      | W_replied r g m answer \<Rightarrow> Some (worker_reply json_parse r g m answer c)
      | W_error g \<Rightarrow> Some (worker_error g c)
      | W_normal g \<Rightarrow> Some (worker_normal g c)
      | W_deciding d g \<Rightarrow> worker_decide d g c
      | W_failing reason timed_out g \<Rightarrow> Some (worker_fail reason timed_out g c)
      | W_exited \<Rightarrow> None)"

text \<open>
  The rest of \<open>stop\<close>, which joins the worker: it lets the worker run until it has left its loop. Once
  \<open>stop\<close> is requested that takes at most three turns (\<open>join_ends\<close>), and at most one of them is an
  exchange, whose outcome is the argument.
\<close>

definition join_worker ::
    "(flow_record \<Rightarrow> string) \<Rightarrow> (string \<Rightarrow> json option) \<Rightarrow> exchange \<Rightarrow> ai_client \<Rightarrow> ai_client" where
  "join_worker request json_parse ex =
     ((\<lambda>c. case worker_turn request json_parse ex c of None \<Rightarrow> c | Some c' \<Rightarrow> c') ^^ 3)"

section \<open>The interleaving\<close>

text \<open>
  One step of one of the threads. The number on a step is one when it may start a new connection
  generation, so that a run of fewer than \<open>2 ^ 64\<close> of them does not wrap the counter.
\<close>

inductive client_step ::
    "(flow_record \<Rightarrow> string) \<Rightarrow> (string \<Rightarrow> json option) \<Rightarrow> ai_client \<Rightarrow> nat \<Rightarrow> ai_client \<Rightarrow> bool"
  for request :: "flow_record \<Rightarrow> string" and json_parse :: "string \<Rightarrow> json option" where
  Start: "client_step request json_parse c 0 (client_start c)"
| Online: "client_step request json_parse c 1 (set_online endpoint model_version c)"
| Offline: "client_step request json_parse c 1 (set_offline c)"
| Stop: "client_step request json_parse c 1 (client_stop c)"
| Consume: "client_step request json_parse c 0 (snd (client_consume now r c))"
| Drain: "client_step request json_parse c 0 (snd (client_drain c))"
| Pick: "c_worker c = W_waiting \<Longrightarrow> worker_pick c = Some c' \<Longrightarrow> client_step request json_parse c 0 c'"
| Exchange: "c_worker c = W_exchanging r g e m \<Longrightarrow>
    client_step request json_parse c 0 (worker_exchange request ex r g e m c)"
| Reply: "c_worker c = W_replied r g m text \<Longrightarrow>
    client_step request json_parse c 0 (worker_reply json_parse r g m text c)"
| Protocol_error: "c_worker c = W_error g \<Longrightarrow> client_step request json_parse c 0 (worker_error g c)"
| Normal: "c_worker c = W_normal g \<Longrightarrow> client_step request json_parse c 0 (worker_normal g c)"
| Decide: "c_worker c = W_deciding d g \<Longrightarrow> worker_decide d g c = Some c' \<Longrightarrow>
    client_step request json_parse c 0 c'"
| Fail: "c_worker c = W_failing reason timed_out g \<Longrightarrow>
    client_step request json_parse c 1 (worker_fail reason timed_out g c)"

inductive client_reach ::
    "(flow_record \<Rightarrow> string) \<Rightarrow> (string \<Rightarrow> json option) \<Rightarrow> ai_config \<Rightarrow> nat \<Rightarrow> ai_client \<Rightarrow> bool"
  for request :: "flow_record \<Rightarrow> string" and json_parse :: "string \<Rightarrow> json option" and cfg :: ai_config where
  Init: "client_reach request json_parse cfg 0 (new_client cfg)"
| Step: "client_reach request json_parse cfg n c \<Longrightarrow> client_step request json_parse c k c' \<Longrightarrow>
    client_reach request json_parse cfg (n + k) c'"

end
