(* ===== verification/Client_Properties.thy ===== *)
theory Client_Properties
  imports Async_Client Capture_Properties
begin

text \<open>
  The properties of the asynchronous client over every interleaving of its threads: bounded queues,
  no result of an earlier connection, exact accounting of the records offered, the end of the worker
  after a stop, and that it is a decision source in the sense of the pipeline.
\<close>

section \<open>The invariant\<close>

text \<open>The generation a worker holds, and the model version its result will carry.\<close>

fun held :: "worker \<Rightarrow> u64 option" where
  "held (W_exchanging r g e m) = Some g"
| "held (W_replied r g m text) = Some g"
| "held (W_error g) = Some g"
| "held (W_normal g) = Some g"
| "held (W_deciding d g) = Some g"
| "held (W_failing reason timed_out g) = Some g"
| "held _ = None"

fun version_ok :: "string \<Rightarrow> worker \<Rightarrow> bool" where
  "version_ok v (W_exchanging r g e m) \<longleftrightarrow> m = v"
| "version_ok v (W_replied r g m text) \<longleftrightarrow> m = v"
| "version_ok v (W_deciding d g) \<longleftrightarrow> ad_model_version d = v"
| "version_ok v _ \<longleftrightarrow> True"

fun decides :: "worker \<Rightarrow> bool" where
  "decides (W_deciding d g) \<longleftrightarrow> ad_anomaly d"
| "decides _ \<longleftrightarrow> True"

fun endpoint_ok :: "string \<Rightarrow> worker \<Rightarrow> bool" where
  "endpoint_ok ep (W_exchanging r g e m) \<longleftrightarrow> e = ep"
| "endpoint_ok ep _ \<longleftrightarrow> True"

definition queues_ok :: "ai_client \<Rightarrow> bool" where
  "queues_ok c \<longleftrightarrow>
     length (c_pending_flows c) \<le> c_queue_capacity c \<and>
     length (c_pending_decisions c) \<le> c_queue_capacity c \<and>
     (c_online c \<or> c_pending_flows c = [] \<and> c_pending_decisions c = []) \<and>
     \<not> (c_stop_requested c \<and> c_online c) \<and>
     (\<forall>d \<in> set (c_pending_decisions c). ad_anomaly d) \<and> decides (c_worker c)"

lemmas api_defs = client_start_def set_online_def set_offline_def client_stop_def client_consume_def
  client_drain_def Let_def

lemmas worker_defs = worker_exchange_def worker_send_def worker_connect_def worker_reply_def worker_error_def worker_normal_def
  worker_fail_def fail_transport_def Let_def

lemma queues_ok_step:
  assumes "client_step request json_parse c k c'" "queues_ok c"
  shows "queues_ok c'"
  using assms
proof (cases rule: client_step.cases)
  case Pick
  with assms(2) show ?thesis
    by (auto simp: worker_pick_def queues_ok_def split: if_splits list.splits)
next
  case Decide
  with assms(2) show ?thesis
    by (auto simp: worker_decide_def queues_ok_def stale_def Let_def split: if_splits)
next
  case Exchange
  with assms(2) show ?thesis
    by (auto simp: worker_defs queues_ok_def split: exchange.split option.split)
next
  case Reply
  with assms(2) show ?thesis
    by (auto simp: worker_defs queues_ok_def split: option.split sum.split)
qed (auto simp: api_defs worker_defs queues_ok_def)

text \<open>Generations: the worker's is never ahead, and while it is the current one of an online client, the
  version and the endpoint it holds are the current ones. The connected socket likewise.\<close>

definition current :: "u64 \<Rightarrow> ai_client \<Rightarrow> bool" where
  "current g c \<longleftrightarrow> c_online c \<and> c_generation c = g"

definition versions_ok :: "nat \<Rightarrow> ai_client \<Rightarrow> bool" where
  "versions_ok n c \<longleftrightarrow>
     unat (c_generation c) \<le> n \<and>
     (case held (c_worker c) of None \<Rightarrow> True
      | Some g \<Rightarrow> unat g \<le> unat (c_generation c) \<and>
          (current g c \<longrightarrow> version_ok (c_model_version c) (c_worker c) \<and> endpoint_ok (c_endpoint c) (c_worker c))) \<and>
     (case c_socket c of None \<Rightarrow> True
      | Some (g, e) \<Rightarrow> unat g \<le> unat (c_generation c) \<and> (current g c \<longrightarrow> e = c_endpoint c) \<and>
          (held (c_worker c) = Some g \<longrightarrow> endpoint_ok e (c_worker c))) \<and>
     (\<forall>d \<in> set (c_pending_decisions c). ad_model_version d = c_model_version c)"

lemma next_generation:
  assumes "unat (c_generation c) \<le> n" "n + 1 < 2 ^ 64"
  shows "unat (c_generation c + 1) = Suc (unat (c_generation c))"
  using assms by (simp add: unat_plus_one)

lemma versions_ok_bump:
  assumes "versions_ok n c" "n + 1 < 2 ^ 64" "c_generation c' = c_generation c + 1"
    "c_worker c' = c_worker c \<or> c_worker c' = W_waiting" "c_socket c' = c_socket c" "c_pending_decisions c' = []"
  shows "versions_ok (n + 1) c'"
proof -
  have le: "unat (c_generation c) \<le> n" using assms(1) by (simp add: versions_ok_def)
  have gen: "unat (c_generation c') = Suc (unat (c_generation c))"
    using next_generation [OF le assms(2)] assms(3) by simp
  then have "\<not> current g c'" if "unat g \<le> unat (c_generation c)" for g
    using that by (auto simp: current_def)
  with assms gen le show ?thesis
    by (auto simp: versions_ok_def split: option.splits)
qed

lemma versions_ok_same:
  "versions_ok n c \<Longrightarrow> n \<le> m \<Longrightarrow> c_generation c' = c_generation c \<Longrightarrow> c_online c' = c_online c \<Longrightarrow>
   c_worker c' = c_worker c \<Longrightarrow> c_socket c' = c_socket c \<Longrightarrow> c_endpoint c' = c_endpoint c \<Longrightarrow>
   c_model_version c' = c_model_version c \<Longrightarrow> set (c_pending_decisions c') \<subseteq> set (c_pending_decisions c) \<Longrightarrow>
   versions_ok m c'"
  by (auto simp: versions_ok_def current_def split: option.splits)

lemma versions_ok_exchange:
  assumes "versions_ok n c" "c_worker c = W_exchanging r g e m"
  shows "versions_ok n (worker_exchange request ex r g e m c)"
  using assms
  by (auto simp: worker_exchange_def worker_send_def worker_connect_def versions_ok_def current_def Let_def
      split: exchange.splits option.splits if_splits)

lemma versions_ok_reply:
  assumes "versions_ok n c" "c_worker c = W_replied r g m text"
  shows "versions_ok n (worker_reply json_parse r g m text c)"
proof -
  have "resp_model_version p = m" if "parse_ai_response json_parse text (r_flow_id r) m = Inr p" for p
    using that
    by (auto simp: parse_ai_response_def check_response_def dest: check_verdict_Inr
        split: option.splits if_splits json.splits bool.splits)
  with assms show ?thesis
    by (auto simp: worker_reply_def versions_ok_def current_def split: option.splits sum.split)
qed

lemma versions_ok_decide:
  assumes "versions_ok n c" "c_worker c = W_deciding d g" "worker_decide d g c = Some c'"
  shows "versions_ok n c'"
proof (cases "c_stop_requested c \<or> stale g c")
  case True
  with assms show ?thesis by (auto simp: worker_decide_def versions_ok_def current_def)
next
  case False
  then have "current g c" by (simp add: stale_def current_def)
  with assms(1,2) have d: "ad_model_version d = c_model_version c" by (simp add: versions_ok_def)
  have c': "c_worker c' = W_waiting" "c_generation c' = c_generation c" "c_online c' = c_online c"
    "c_socket c' = c_socket c" "c_endpoint c' = c_endpoint c" "c_model_version c' = c_model_version c"
    "c_pending_decisions c' = c_pending_decisions c @ [d]"
    using False assms(3) by (auto simp: worker_decide_def Let_def split: if_splits)
  from assms(1) d c' show ?thesis by (auto simp: versions_ok_def current_def split: option.splits)
qed

lemma versions_ok_step:
  assumes "client_step request json_parse c k c'" "versions_ok n c" "n + k < 2 ^ 64"
  shows "versions_ok (n + k) c'"
  using assms
proof (cases rule: client_step.cases)
  case (Online endpoint model_version)
  with assms versions_ok_bump [of n c c'] versions_ok_same [of n c "n + 1" c'] show ?thesis
    by (cases "c_stop_requested c") (simp_all add: set_online_def)
next
  case Offline
  with assms versions_ok_bump [of n c c'] show ?thesis by (simp add: set_offline_def)
next
  case Stop
  with assms versions_ok_bump [of n c c'] show ?thesis by (simp add: client_stop_def)
next
  case (Fail reason timed_out g)
  show ?thesis
  proof (cases "\<not> c_online c \<or> c_generation c \<noteq> g")
    case True
    with Fail assms(2) show ?thesis
      by (auto simp: worker_fail_def fail_transport_def versions_ok_def current_def split: option.splits)
  next
    case False
    with Fail assms versions_ok_bump [of n c c'] show ?thesis
      by (simp add: worker_fail_def fail_transport_def Let_def)
  qed
next
  case Start
  with assms(2) show ?thesis
    by (auto simp: client_start_def versions_ok_def current_def split: option.splits)
next
  case (Exchange r g e m ex)
  with assms(2) versions_ok_exchange show ?thesis by simp
next
  case (Reply r g m answer)
  with assms(2) versions_ok_reply show ?thesis by simp
next
  case Pick
  with assms(2) show ?thesis
    by (auto simp: worker_pick_def versions_ok_def current_def split: if_splits list.splits option.splits)
next
  case (Decide d g)
  with assms(2) versions_ok_decide show ?thesis by simp
next
  case (Consume now r)
  with assms(2) versions_ok_same [of n c n c'] show ?thesis by (simp add: client_consume_def Let_def)
next
  case Drain
  with assms(2) versions_ok_same [of n c n c'] show ?thesis by (simp add: client_drain_def)
next
  case Protocol_error
  with assms(2) show ?thesis
    by (auto simp: worker_error_def versions_ok_def current_def Let_def split: option.splits)
next
  case Normal
  with assms(2) show ?thesis
    by (auto simp: worker_normal_def versions_ok_def current_def Let_def split: option.splits)
qed

lemma client_reach_ok:
  assumes "client_reach request json_parse cfg n c" "n < 2 ^ 64"
  shows "queues_ok c \<and> versions_ok n c \<and> c_queue_capacity c = ai_queue_capacity cfg"
  using assms
proof (induction rule: client_reach.induct)
  case Init
  then show ?case by (simp add: queues_ok_def versions_ok_def new_client_def)
next
  case (Step n c k c')
  then have ih: "queues_ok c" "versions_ok n c" "c_queue_capacity c = ai_queue_capacity cfg" by simp_all
  have "c_queue_capacity c' = c_queue_capacity c"
    using Step.hyps(2)
    by (cases rule: client_step.cases)
       (auto simp: api_defs worker_defs worker_pick_def worker_decide_def
         split: if_splits list.splits exchange.split option.split sum.split)
  with ih show ?case
    using queues_ok_step [OF Step.hyps(2) ih(1)] versions_ok_step [OF Step.hyps(2) ih(2)] Step.prems by simp
qed

text \<open>A request goes to the endpoint of its own generation.\<close>

lemma exchange_sent:
  assumes "versions_ok n c" "c_worker c = W_exchanging r g e m"
  shows "c_sent (worker_exchange request (Exchanged sent ms reply) r g e m c) = c_sent c @ [(e, request r)]"
  using assms
  by (auto simp: worker_exchange_def worker_send_def worker_connect_def versions_ok_def Let_def split: option.splits)

definition sample_online :: ai_client where
  "sample_online = set_online ''ipc:///run/ips.sock'' ''v1'' (client_start (new_client default_ai_config))"

lemma sample_online_reach: "client_reach request json_parse default_ai_config 1 sample_online"
proof -
  have "client_reach request json_parse default_ai_config (0 + 0) (client_start (new_client default_ai_config))"
    by (rule client_reach.Step [OF client_reach.Init client_step.Start])
  from client_reach.Step [OF this client_step.Online] show ?thesis by (simp add: sample_online_def)
qed

section \<open>Accounting\<close>

definition offered :: "client_stats \<Rightarrow> u64" where
  "offered st = st_submitted st + st_unavailable_dropped st + st_queue_full_dropped st"

text \<open>Every record offered is answered at once and counted once: it is queued exactly when the client
  is online, not stopping and has room, and otherwise dropped without a change to the queues; the
  answer says which; exactly one of the three counters grows.\<close>

theorem consume_accounted:
  "let (accepted, c') = client_consume now r c in
     (accepted \<longleftrightarrow> c_online c \<and> \<not> c_stop_requested c \<and> length (c_pending_flows c) < c_queue_capacity c) \<and>
     c_pending_flows c' = (if accepted then c_pending_flows c @ [r] else c_pending_flows c) \<and>
     c_pending_decisions c' = c_pending_decisions c \<and>
     offered (c_stats c') = offered (c_stats c) + 1 \<and>
     st_submitted (c_stats c') = st_submitted (c_stats c) + (if accepted then 1 else 0)"
  by (auto simp: client_consume_def offered_def Let_def)

section \<open>The end of the worker\<close>

lemma worker_turn_step: "worker_turn request json_parse ex c = Some c' \<Longrightarrow> \<exists>k. client_step request json_parse c k c'"
  by (cases "c_worker c") (auto simp: worker_turn_def intro: client_step.intros)

text \<open>How many turns a worker may still take once the client stops.\<close>

fun turns_left :: "worker \<Rightarrow> nat" where
  "turns_left W_none = 0"
| "turns_left W_waiting = 1"
| "turns_left (W_exchanging r g e m) = 3"
| "turns_left W_exited = 0"
| "turns_left _ = 2"

definition stopped :: "ai_client \<Rightarrow> bool" where
  "stopped c \<longleftrightarrow> c_stop_requested c \<and> \<not> c_online c"

lemma stopped_step:
  assumes "client_step request json_parse c k c'" "stopped c"
  shows "stopped c'"
  using assms
  by (cases rule: client_step.cases)
     (auto simp: api_defs worker_defs worker_pick_def worker_decide_def stopped_def
       split: if_splits list.splits exchange.split option.split sum.split)

text \<open>A worker that was asked to stop has left its loop after three turns, and nothing else has changed for
  the client: it is stopped.\<close>

lemma stopped_turn:
  fixes request json_parse ex c
  defines "c' \<equiv> (case worker_turn request json_parse ex c of None \<Rightarrow> c | Some c' \<Rightarrow> c')"
  assumes "stopped c"
  shows "stopped c' \<and> turns_left (c_worker c') \<le> turns_left (c_worker c) - 1"
proof (cases "worker_turn request json_parse ex c")
  case None
  then have "turns_left (c_worker c) = 0"
    using assms(2)
    by (cases "c_worker c")
       (auto simp: worker_turn_def worker_pick_def worker_decide_def stale_def stopped_def)
  with None assms(2) show ?thesis by (simp add: c'_def)
next
  case (Some d)
  then obtain k where "client_step request json_parse c k d" using worker_turn_step by blast
  from stopped_step [OF this assms(2)] have "stopped d" .
  moreover have "turns_left (c_worker d) \<le> turns_left (c_worker c) - 1"
    using Some assms(2)
    by (cases "c_worker c")
       (auto simp: worker_turn_def worker_pick_def worker_decide_def worker_defs stale_def stopped_def
         split: exchange.split option.split)
  ultimately show ?thesis using Some by (simp add: c'_def)
qed

lemma join_ends:
  assumes "stopped c"
  shows "stopped (join_worker request json_parse ex c)"
    and "c_worker (join_worker request json_parse ex c) \<in> {W_none, W_exited}"
proof -
  define f where "f = (\<lambda>c. case worker_turn request json_parse ex c of None \<Rightarrow> c | Some c' \<Rightarrow> c')"
  have f: "stopped c \<Longrightarrow> stopped (f c) \<and> turns_left (c_worker (f c)) \<le> turns_left (c_worker c) - 1" for c
    unfolding f_def by (rule stopped_turn)
  have "turns_left (c_worker c) \<le> 3" by (cases "c_worker c") simp_all
  then have "stopped (f (f (f c))) \<and> turns_left (c_worker (f (f (f c)))) = 0"
    using assms f [of c] f [of "f c"] f [of "f (f c)"] by auto
  moreover have "join_worker request json_parse ex c = f (f (f c))"
    unfolding join_worker_def f_def [symmetric] by (simp add: numeral_3_eq_3)
  moreover have "turns_left w = 0 \<Longrightarrow> w \<in> {W_none, W_exited}" for w by (cases w) simp_all
  ultimately show "stopped (join_worker request json_parse ex c)"
    "c_worker (join_worker request json_parse ex c) \<in> {W_none, W_exited}" by simp_all
qed

text \<open>\<open>stop\<close> ends: after it the client stays offline for good, whatever is called, so nothing is
  queued any more; and the worker is never stuck, but leaves its loop after at most three of its own
  steps, wherever it was and whatever the server does, so that joining it returns.\<close>

theorem stop_ends_worker:
  assumes "stopped c"
  shows "(\<forall>k c'. client_step request json_parse c k c' \<longrightarrow> stopped c') \<and>
    \<not> fst (client_consume now r c) \<and> turns_left (c_worker c) \<le> 3 \<and>
    (turns_left (c_worker c) = 0 \<or>
      (\<exists>c'. worker_turn request json_parse ex c = Some c' \<and>
         (turns_left (c_worker c') < turns_left (c_worker c)) \<and> c_worker c' \<noteq> W_none))"
proof -
  have "\<exists>c'. worker_turn request json_parse ex c = Some c' \<and>
      turns_left (c_worker c') < turns_left (c_worker c) \<and> c_worker c' \<noteq> W_none"
    if "turns_left (c_worker c) \<noteq> 0"
    using that assms
    by (cases "c_worker c")
       (auto simp: worker_turn_def worker_pick_def worker_decide_def worker_defs stale_def stopped_def
         split: exchange.split option.split)
  moreover have "turns_left (c_worker c) \<le> 3" by (cases "c_worker c") simp_all
  moreover have "\<not> fst (client_consume now r c)" using assms by (simp add: client_consume_def stopped_def Let_def)
  ultimately show ?thesis using stopped_step [OF _ assms] by auto
qed

lemma stopped_after_stop: "stopped (client_stop c)"
  by (simp add: stopped_def client_stop_def)

theorem stop_ends_worker_witness:
  "\<exists>c'. worker_turn (\<lambda>_. ''{}'') (\<lambda>_. None) (Exchanged True 0 None) (client_stop sample_online) = Some c' \<and>
     turns_left (c_worker c') = 0"
proof -
  have "turns_left (c_worker (client_stop sample_online)) = 1"
    by (simp add: sample_online_def client_stop_def set_online_def client_start_def new_client_def)
  then have left: "turns_left (c_worker (client_stop sample_online)) \<noteq> 0"
    "turns_left w < turns_left (c_worker (client_stop sample_online)) \<longleftrightarrow> turns_left w = 0" for w
    by simp_all
  show ?thesis
    using stop_ends_worker [OF stopped_after_stop [of sample_online], where request = "\<lambda>_. ''{}''"
        and json_parse = "\<lambda>_. None" and ex = "Exchanged True 0 None"] left by blast
qed

section \<open>The client as the consumer of the pipeline\<close>

definition async_consumer :: "time_point \<Rightarrow> ai_client flow_consumer" where
  "async_consumer now = \<lparr>fc_consume = client_consume now, fc_drain = client_drain\<rparr>"

fun in_flight :: "worker \<Rightarrow> flow_record set" where
  "in_flight (W_exchanging r g e m) = {r}"
| "in_flight (W_replied r g m answer) = {r}"
| "in_flight (W_deciding d g) = {ad_record d}"
| "in_flight _ = {}"

definition undecided :: "ai_client \<Rightarrow> flow_record set" where
  "undecided c = set (c_pending_flows c) \<union> ad_record ` set (c_pending_decisions c) \<union> in_flight (c_worker c)"

interpretation async: decision_source "async_consumer now" undecided for now
  by unfold_locales
     (auto simp: async_consumer_def client_consume_def client_drain_def undecided_def Let_def)

text \<open>Steps of the other threads are the consumer's own runs of the pipeline's model: none of them adds
  to the records that may still be decided.\<close>

lemma other_threads_quiet:
  assumes "client_step request json_parse c k c'"
  shows "undecided c' \<subseteq> undecided c \<or> (\<exists>now r. c' = snd (client_consume now r c))"
  using assms
  by (cases rule: client_step.cases)
     (auto simp: client_start_def set_online_def set_offline_def client_stop_def client_drain_def worker_defs
       worker_pick_def worker_decide_def undecided_def
       split: if_splits list.splits exchange.split option.split sum.split)

end
