(* ===== verification/Client_Session.thy ===== *)
theory Client_Session
  imports Client_Properties "HOL-Library.Sublist"
begin

text \<open>
  What the asynchronous client promises to its callers, without threads, generations and sockets: a
  session with the server is one connection, with a queue of the records taken, at most one record the
  server is asked about, and the decisions found; it is lost as a whole. Every interleaving of the
  client's threads is a run of this specification with the same observations, and what the
  specification guarantees about the order of the decisions holds of the client.
\<close>

section \<open>The interleavings as lists\<close>

text \<open>What a thread may do next. A worker that waits for something has its turn in vain.\<close>

datatype client_action =
    Started
  | Connected string string
  | Disconnected
  | Stopped
  | Offered time_point flow_record
  | Drained
  | Turn exchange

fun client_act ::
    "(flow_record \<Rightarrow> string) \<Rightarrow> (string \<Rightarrow> json option) \<Rightarrow> client_action \<Rightarrow> ai_client \<Rightarrow> ai_client" where
  "client_act request json_parse Started c = client_start c"
| "client_act request json_parse (Connected endpoint version) c = set_online endpoint version c"
| "client_act request json_parse Disconnected c = set_offline c"
| "client_act request json_parse Stopped c = client_stop c"
| "client_act request json_parse (Offered now r) c = snd (client_consume now r c)"
| "client_act request json_parse Drained c = snd (client_drain c)"
| "client_act request json_parse (Turn ex) c =
     (case worker_turn request json_parse ex c of None \<Rightarrow> c | Some c' \<Rightarrow> c')"

definition client_acts ::
    "(flow_record \<Rightarrow> string) \<Rightarrow> (string \<Rightarrow> json option) \<Rightarrow> client_action list \<Rightarrow> ai_client \<Rightarrow> ai_client" where
  "client_acts request json_parse as c = fold (client_act request json_parse) as c"

lemma client_acts_simps [simp]:
  "client_acts request json_parse [] c = c"
  "client_acts request json_parse (a # as) c = client_acts request json_parse as (client_act request json_parse a c)"
  "client_acts request json_parse (as @ bs) c = client_acts request json_parse bs (client_acts request json_parse as c)"
  by (simp_all add: client_acts_def)

text \<open>An action is a step or changes nothing, and every step is an action.\<close>

lemma client_step_cost: "client_step request json_parse c k c' \<Longrightarrow> k \<le> 1"
  by (induction rule: client_step.induct) simp_all

lemma client_act_step:
  "client_act request json_parse a c = c \<or>
   (\<exists>k. client_step request json_parse c k (client_act request json_parse a c))"
proof (cases a)
  case (Turn ex)
  then show ?thesis using worker_turn_step [of request json_parse ex c] by (auto split: option.split)
qed (auto intro: client_step.intros)

lemma client_step_act:
  assumes "client_step request json_parse c k c'"
  shows "\<exists>a. client_act request json_parse a c = c'"
  using assms
proof (cases rule: client_step.cases)
  case Pick
  then have "client_act request json_parse (Turn ex) c = c'" for ex by (simp add: worker_turn_def)
  then show ?thesis by blast
next
  case (Exchange r g e m ex)
  then have "client_act request json_parse (Turn ex) c = c'" by (simp add: worker_turn_def)
  then show ?thesis by blast
next
  case Reply
  then have "client_act request json_parse (Turn ex) c = c'" for ex by (simp add: worker_turn_def)
  then show ?thesis by blast
next
  case Protocol_error
  then have "client_act request json_parse (Turn ex) c = c'" for ex by (simp add: worker_turn_def)
  then show ?thesis by blast
next
  case Normal
  then have "client_act request json_parse (Turn ex) c = c'" for ex by (simp add: worker_turn_def)
  then show ?thesis by blast
next
  case Decide
  then have "client_act request json_parse (Turn ex) c = c'" for ex by (simp add: worker_turn_def)
  then show ?thesis by blast
next
  case Fail
  then have "client_act request json_parse (Turn ex) c = c'" for ex by (simp add: worker_turn_def)
  then show ?thesis by blast
qed (metis client_act.simps)+

lemma client_acts_reach:
  "\<exists>n \<le> length as. client_reach request json_parse cfg n (client_acts request json_parse as (new_client cfg))"
proof (induction as rule: rev_induct)
  case Nil
  show ?case by (auto intro: client_reach.Init)
next
  case (snoc a as)
  let ?c = "client_acts request json_parse as (new_client cfg)"
  from snoc obtain n where n: "n \<le> length as" "client_reach request json_parse cfg n ?c" by blast
  show ?case using client_act_step [of request json_parse a ?c]
  proof (elim disjE exE conjE)
    assume "client_act request json_parse a ?c = ?c"
    with n show ?thesis by (auto intro!: exI [where x = n])
  next
    fix k assume "client_step request json_parse ?c k (client_act request json_parse a ?c)"
    with n client_reach.Step [OF n(2) this] client_step_cost [OF this] show ?thesis
      by (intro exI [where x = "n + k"]) simp
  qed
qed

lemma client_reach_acts:
  "client_reach request json_parse cfg n c \<Longrightarrow> \<exists>as. c = client_acts request json_parse as (new_client cfg)"
proof (induction rule: client_reach.induct)
  case Init
  show ?case by (rule exI [where x = "[]"]) simp
next
  case (Step n c k c')
  then obtain as a where "c = client_acts request json_parse as (new_client cfg)"
    "client_act request json_parse a c = c'" using client_step_act by blast
  then show ?case by (intro exI [where x = "as @ [a]"]) simp
qed

section \<open>The specification\<close>

record session =
  se_endpoint :: string
  se_version :: string
  se_queue :: "flow_record list"
  se_asked :: "flow_record option"
  se_found :: "ai_decision list"

datatype session_state = Idle | In_session session | Over

text \<open>What the callers see: a connection made or lost, a record taken or refused, decisions handed out.\<close>

datatype session_event =
    Internal
  | Connection string string
  | Lost
  | Taken flow_record
  | Refused flow_record
  | Handed "ai_decision list"

inductive session_step :: "nat \<Rightarrow> session_state \<Rightarrow> session_event \<Rightarrow> session_state \<Rightarrow> bool"
  for capacity :: nat where
  Pass: "session_step capacity s Internal s"
| Connects: "s \<noteq> Over \<Longrightarrow> session_step capacity s (Connection endpoint version)
    (In_session \<lparr>se_endpoint = endpoint, se_version = version, se_queue = [], se_asked = None, se_found = []\<rparr>)"
| Loses: "s \<noteq> Over \<Longrightarrow> session_step capacity s Lost Idle"
| Closes: "session_step capacity s Lost Over"
| Takes: "length (se_queue x) < capacity \<Longrightarrow>
    session_step capacity (In_session x) (Taken r) (In_session (x\<lparr>se_queue := se_queue x @ [r]\<rparr>))"
| Is_full: "capacity \<le> length (se_queue x) \<Longrightarrow> session_step capacity (In_session x) (Refused r) (In_session x)"
| Has_none: "s = Idle \<or> s = Over \<Longrightarrow> session_step capacity s (Refused r) s"
| Asks: "se_queue x = r # rs \<Longrightarrow> se_asked x = None \<Longrightarrow>
    session_step capacity (In_session x) Internal (In_session (x\<lparr>se_queue := rs, se_asked := Some r\<rparr>))"
| Settles: "session_step capacity (In_session x) Internal (In_session (x\<lparr>se_asked := None\<rparr>))"
| Finds: "se_asked x = Some (ad_record d) \<Longrightarrow> ad_anomaly d \<Longrightarrow> ad_model_version d = se_version x \<Longrightarrow>
    length (se_found x) < capacity \<Longrightarrow>
    session_step capacity (In_session x) Internal (In_session (x\<lparr>se_asked := None, se_found := se_found x @ [d]\<rparr>))"
| Hands: "session_step capacity (In_session x) (Handed (se_found x)) (In_session (x\<lparr>se_found := []\<rparr>))"
| Hands_none: "s = Idle \<or> s = Over \<Longrightarrow> session_step capacity s (Handed []) s"

inductive session_run :: "nat \<Rightarrow> session_state \<Rightarrow> session_event list \<Rightarrow> session_state \<Rightarrow> bool"
  for capacity :: nat and s :: session_state where
  Rests: "session_run capacity s [] s"
| Goes: "session_run capacity s evs t \<Longrightarrow> session_step capacity t e u \<Longrightarrow> session_run capacity s (evs @ [e]) u"

section \<open>The client implements it\<close>

text \<open>The record the worker asks about, with the generation it holds.\<close>

fun asked_by :: "worker \<Rightarrow> (flow_record \<times> u64) option" where
  "asked_by (W_exchanging r g e m) = Some (r, g)"
| "asked_by (W_replied r g m answer) = Some (r, g)"
| "asked_by (W_deciding d g) = Some (ad_record d, g)"
| "asked_by _ = None"

definition asked :: "ai_client \<Rightarrow> flow_record option" where
  "asked c = (case asked_by (c_worker c) of None \<Rightarrow> None | Some (r, g) \<Rightarrow> if g = c_generation c then Some r else None)"

definition session_of :: "ai_client \<Rightarrow> session_state" where
  "session_of c =
     (if c_stop_requested c then Over
      else if \<not> c_online c then Idle
      else In_session \<lparr>se_endpoint = c_endpoint c, se_version = c_model_version c, se_queue = c_pending_flows c,
        se_asked = asked c, se_found = c_pending_decisions c\<rparr>)"

fun client_event :: "client_action \<Rightarrow> ai_client \<Rightarrow> session_event" where
  "client_event Started c = Internal"
| "client_event (Connected endpoint version) c = (if c_stop_requested c then Internal else Connection endpoint version)"
| "client_event Disconnected c = Lost"
| "client_event Stopped c = Lost"
| "client_event (Offered now r) c = (if fst (client_consume now r c) then Taken r else Refused r)"
| "client_event Drained c = Handed (fst (client_drain c))"
| "client_event (Turn ex) c =
     (case c_worker c of
        W_failing reason timed_out g \<Rightarrow> if current g c then Lost else Internal
      | _ \<Rightarrow> Internal)"

fun client_events ::
    "(flow_record \<Rightarrow> string) \<Rightarrow> (string \<Rightarrow> json option) \<Rightarrow> client_action list \<Rightarrow> ai_client \<Rightarrow> session_event list" where
  "client_events request json_parse [] c = []"
| "client_events request json_parse (a # as) c =
     client_event a c # client_events request json_parse as (client_act request json_parse a c)"

lemma client_events_snoc:
  "client_events request json_parse (as @ [a]) c =
     client_events request json_parse as c @ [client_event a (client_acts request json_parse as c)]"
  by (induction as arbitrary: c) simp_all

text \<open>A connection that ends leaves nothing asked, since what the worker holds is of the past.\<close>

lemma held_asked: "asked_by w = Some (r, g) \<Longrightarrow> held w = Some g"
  by (cases w) simp_all

lemma asked_bumped:
  assumes "versions_ok n c" "n + 1 < 2 ^ 64" "c_generation c' = c_generation c + 1" "c_worker c' = c_worker c"
  shows "asked c' = None"
proof -
  have gen: "unat (c_generation c') = Suc (unat (c_generation c))"
    using next_generation [of c n] assms(1-3) by (simp add: versions_ok_def)
  have "g \<noteq> c_generation c'" if "asked_by (c_worker c) = Some (r, g)" for r g
    using assms(1) held_asked [OF that] gen by (auto simp: versions_ok_def)
  with assms(4) show ?thesis by (auto simp: asked_def split: option.split)
qed

lemma asked_same:
  "asked (c\<lparr>c_pending_flows := rs\<rparr>) = asked c" "asked (c\<lparr>c_pending_decisions := ds\<rparr>) = asked c"
  "asked (c\<lparr>c_stats := st\<rparr>) = asked c" "asked (c\<lparr>c_unavailable_logged := b\<rparr>) = asked c"
  "asked (c\<lparr>c_queue_full_logged := b\<rparr>) = asked c" "asked (c\<lparr>c_last_unavailable_log := t\<rparr>) = asked c"
  "asked (c\<lparr>c_last_queue_full_log := t\<rparr>) = asked c"
  by (simp_all add: asked_def cong: option.case_cong)

lemma not_in_session: "\<not> c_online c \<or> c_stop_requested c \<Longrightarrow> session_of c = Idle \<or> session_of c = Over"
  by (auto simp: session_of_def)

text \<open>A turn that keeps the connection and the queues passes, or settles what was asked.\<close>

lemma turn_settles:
  assumes "c_stop_requested c' = c_stop_requested c" "c_online c' = c_online c" "c_endpoint c' = c_endpoint c"
    "c_model_version c' = c_model_version c" "c_pending_flows c' = c_pending_flows c"
    "c_pending_decisions c' = c_pending_decisions c" "asked c' = asked c \<or> asked c' = None"
  shows "session_step capacity (session_of c) Internal (session_of c')"
proof -
  have "session_of c' = session_of c \<or> (\<exists>x. session_of c = In_session x \<and> session_of c' = In_session (x\<lparr>se_asked := None\<rparr>))"
    using assms by (auto simp: session_of_def)
  then show ?thesis by (auto intro: session_step.Pass session_step.Settles)
qed

lemma pick_step:
  assumes "c_worker c = W_waiting" "worker_pick c = Some c'"
  shows "session_step capacity (session_of c) Internal (session_of c')"
proof (cases "c_stop_requested c")
  case True
  with assms show ?thesis by (intro turn_settles) (auto simp: worker_pick_def asked_def)
next
  case False
  with assms(2) obtain r rs where q: "c_online c" "c_pending_flows c = r # rs"
    "c' = c\<lparr>c_pending_flows := rs,
        c_worker := W_exchanging r (c_generation c) (c_endpoint c) (c_model_version c)\<rparr>"
    by (auto simp: worker_pick_def split: if_splits list.splits)
  then show ?thesis
    using session_step.Asks [of "\<lparr>se_endpoint = c_endpoint c, se_version = c_model_version c,
        se_queue = c_pending_flows c, se_asked = None, se_found = c_pending_decisions c\<rparr>" r rs capacity] False assms(1)
    by (simp add: session_of_def asked_def)
qed

lemma decide_step:
  assumes "queues_ok c" "versions_ok n c" "c_worker c = W_deciding d g" "worker_decide d g c = Some c'"
  shows "session_step (c_queue_capacity c) (session_of c) Internal (session_of c')"
proof (cases "c_stop_requested c \<or> stale g c")
  case True
  with assms(4) show ?thesis by (intro turn_settles) (auto simp: worker_decide_def asked_def)
next
  case False
  then have now: "c_online c" "c_generation c = g" "\<not> c_stop_requested c" by (simp_all add: stale_def)
  then have d: "ad_anomaly d" "ad_model_version d = c_model_version c"
    using assms(1-3) by (simp_all add: queues_ok_def versions_ok_def current_def)
  from False assms(4) have room: "length (c_pending_decisions c) < c_queue_capacity c"
    "c_pending_decisions c' = c_pending_decisions c @ [d]" "c_worker c' = W_waiting" "c_online c' = c_online c"
    "c_stop_requested c' = c_stop_requested c" "c_endpoint c' = c_endpoint c" "c_model_version c' = c_model_version c"
    "c_pending_flows c' = c_pending_flows c"
    by (auto simp: worker_decide_def Let_def split: if_splits)
  then show ?thesis
    using session_step.Finds [of "\<lparr>se_endpoint = c_endpoint c, se_version = c_model_version c,
        se_queue = c_pending_flows c, se_asked = Some (ad_record d), se_found = c_pending_decisions c\<rparr>" d
        "c_queue_capacity c"] now d assms(3)
    by (simp add: session_of_def asked_def)
qed

lemma turn_step:
  assumes "queues_ok c" "versions_ok n c" "worker_turn request json_parse ex c = Some c'"
  shows "session_step (c_queue_capacity c) (session_of c) (client_event (Turn ex) c) (session_of c')"
proof (cases "c_worker c")
  case W_waiting
  with assms(3) pick_step [of c c'] show ?thesis by (simp add: worker_turn_def)
next
  case (W_exchanging r g e m)
  with assms(3) have "session_step (c_queue_capacity c) (session_of c) Internal (session_of c')"
    by (intro turn_settles)
       (auto simp: worker_turn_def worker_exchange_def worker_send_def worker_connect_def asked_def Let_def
         split: exchange.splits option.splits if_splits)
  with W_exchanging show ?thesis by simp
next
  case (W_replied r g m answer)
  with assms(3) have "session_step (c_queue_capacity c) (session_of c) Internal (session_of c')"
    by (intro turn_settles) (auto simp: worker_turn_def worker_reply_def asked_def split: sum.splits if_splits)
  with W_replied show ?thesis by simp
next
  case (W_error g)
  with assms(3) have "session_step (c_queue_capacity c) (session_of c) Internal (session_of c')"
    by (intro turn_settles) (auto simp: worker_turn_def worker_error_def asked_def Let_def split: if_splits)
  with W_error show ?thesis by simp
next
  case (W_normal g)
  with assms(3) have "session_step (c_queue_capacity c) (session_of c) Internal (session_of c')"
    by (intro turn_settles) (auto simp: worker_turn_def worker_normal_def asked_def Let_def split: if_splits)
  with W_normal show ?thesis by simp
next
  case (W_deciding d g)
  with assms decide_step [OF assms(1,2), of d g c'] show ?thesis by (simp add: worker_turn_def)
next
  case (W_failing reason timed_out g)
  show ?thesis
  proof (cases "current g c")
    case True
    then have "session_of c' = Idle" "session_of c \<noteq> Over"
      using W_failing assms(1,3)
      by (auto simp: worker_turn_def worker_fail_def fail_transport_def current_def session_of_def queues_ok_def Let_def)
    with True W_failing show ?thesis by (simp add: session_step.Loses)
  next
    case False
    then have "session_of c' = session_of c"
      using W_failing assms(3)
      by (auto simp: worker_turn_def worker_fail_def fail_transport_def current_def session_of_def asked_def)
    with False W_failing show ?thesis by (simp add: session_step.Pass)
  qed
qed (use assms(3) in \<open>simp_all add: worker_turn_def\<close>)

lemma consume_step:
  "session_step (c_queue_capacity c) (session_of c) (client_event (Offered now r) c)
     (session_of (snd (client_consume now r c)))"
proof (cases "c_online c \<and> \<not> c_stop_requested c")
  case False
  then have "session_of (snd (client_consume now r c)) = session_of c" "\<not> fst (client_consume now r c)"
    by (auto simp: client_consume_def session_of_def Let_def asked_same)
  with session_step.Has_none [OF not_in_session] False show ?thesis by auto
next
  case True
  let ?x = "\<lparr>se_endpoint = c_endpoint c, se_version = c_model_version c, se_queue = c_pending_flows c,
    se_asked = asked c, se_found = c_pending_decisions c\<rparr>"
  have x: "session_of c = In_session ?x" using True by (simp add: session_of_def)
  show ?thesis
  proof (cases "length (c_pending_flows c) < c_queue_capacity c")
    case room: True
    with True have "session_of (snd (client_consume now r c)) = In_session (?x\<lparr>se_queue := se_queue ?x @ [r]\<rparr>)"
      "fst (client_consume now r c)"
      by (simp_all add: client_consume_def session_of_def Let_def asked_same)
    with session_step.Takes [of ?x "c_queue_capacity c" r] room x show ?thesis by simp
  next
    case full: False
    with True have "session_of (snd (client_consume now r c)) = In_session ?x" "\<not> fst (client_consume now r c)"
      by (simp_all add: client_consume_def session_of_def Let_def asked_same)
    with session_step.Is_full [of "c_queue_capacity c" ?x r] full x show ?thesis by simp
  qed
qed

lemma drain_step:
  assumes "queues_ok c"
  shows "session_step capacity (session_of c) (client_event Drained c) (session_of (snd (client_drain c)))"
proof (cases "c_online c \<and> \<not> c_stop_requested c")
  case False
  then have "session_of (snd (client_drain c)) = session_of c" "fst (client_drain c) = []"
    using assms by (auto simp: client_drain_def session_of_def asked_same queues_ok_def)
  with session_step.Hands_none [OF not_in_session] False show ?thesis by auto
next
  case True
  then show ?thesis
    using session_step.Hands [of capacity "\<lparr>se_endpoint = c_endpoint c, se_version = c_model_version c,
        se_queue = c_pending_flows c, se_asked = asked c, se_found = c_pending_decisions c\<rparr>"]
    by (simp add: client_drain_def session_of_def asked_same)
qed

lemma client_act_refines:
  assumes "queues_ok c" "versions_ok n c" "n + 1 < 2 ^ 64"
  shows "session_step (c_queue_capacity c) (session_of c) (client_event a c)
    (session_of (client_act request json_parse a c))"
proof (cases a)
  case Started
  then have "session_of (client_act request json_parse a c) = session_of c \<or>
      (\<exists>x. session_of c = In_session x \<and> session_of (client_act request json_parse a c) = In_session (x\<lparr>se_asked := None\<rparr>))"
    by (auto simp: client_start_def session_of_def asked_def)
  with Started show ?thesis by (auto intro: session_step.Pass session_step.Settles)
next
  case (Connected endpoint version)
  show ?thesis
  proof (cases "c_stop_requested c")
    case True
    with Connected show ?thesis by (simp add: set_online_def session_step.Pass)
  next
    case False
    then have "asked (set_online endpoint version c) = None" using assms(2,3) by (intro asked_bumped) (simp_all add: set_online_def)
    with False Connected session_step.Connects [of "session_of c" "c_queue_capacity c" endpoint version]
    show ?thesis by (simp add: session_of_def set_online_def)
  qed
next
  case Disconnected
  then show ?thesis by (auto simp: session_of_def set_offline_def intro: session_step.Loses session_step.Closes)
next
  case Stopped
  then show ?thesis by (simp add: session_of_def client_stop_def session_step.Closes)
next
  case (Offered now r)
  then show ?thesis using consume_step [of c now r] by simp
next
  case Drained
  then show ?thesis using drain_step [OF assms(1)] by simp
next
  case (Turn ex)
  show ?thesis
  proof (cases "worker_turn request json_parse ex c")
    case None
    then have "client_event (Turn ex) c = Internal" by (cases "c_worker c") (simp_all add: worker_turn_def)
    with None Turn show ?thesis by (simp add: session_step.Pass del: client_event.simps)
  next
    case (Some c')
    then show ?thesis using turn_step [OF assms(1,2) Some] Turn by simp
  qed
qed

lemma client_acts_ok:
  assumes "length as < 2 ^ 64"
  shows "\<exists>n \<le> length as. queues_ok (client_acts request json_parse as (new_client cfg)) \<and>
    versions_ok n (client_acts request json_parse as (new_client cfg)) \<and>
    c_queue_capacity (client_acts request json_parse as (new_client cfg)) = ai_queue_capacity cfg"
proof -
  obtain n where n: "n \<le> length as" "client_reach request json_parse cfg n (client_acts request json_parse as (new_client cfg))"
    using client_acts_reach by blast
  with assms have "n < 2 ^ 64" by simp
  with n client_reach_ok [OF n(2)] show ?thesis by blast
qed

lemma session_refinement:
  assumes "length as < 2 ^ 64"
  shows "session_run (ai_queue_capacity cfg) Idle (client_events request json_parse as (new_client cfg))
    (session_of (client_acts request json_parse as (new_client cfg)))"
  using assms
proof (induction as rule: rev_induct)
  case Nil
  show ?case by (simp add: session_of_def new_client_def session_run.Rests)
next
  case (snoc a as)
  let ?c = "client_acts request json_parse as (new_client cfg)"
  obtain n where "n \<le> length as" "queues_ok ?c" "versions_ok n ?c" "c_queue_capacity ?c = ai_queue_capacity cfg"
    using client_acts_ok [of as request json_parse cfg] snoc.prems by (metis Suc_lessD length_append_singleton)
  with snoc.prems client_act_refines [of ?c n a request json_parse]
  have "session_step (ai_queue_capacity cfg) (session_of ?c) (client_event a ?c) (session_of (client_act request json_parse a ?c))"
    by simp
  with session_run.Goes [OF snoc.IH] snoc.prems show ?case by (simp add: client_events_snoc)
qed

text \<open>C11. In every interleaving of the threads, with whatever the server does, the client is a session with
  the server: what the callers see is a run of the specification, in which a connection has a queue of
  at most the configured length, asks about one record at a time in the order of the queue, answers an
  anomaly with a decision of the version that is connected, and disappears as a whole. The counter of
  connections, checked at every return from the server, is no more than the way to tell sessions apart.\<close>

theorem client_refines_session:
  assumes "length as < 2 ^ 64"
  shows "session_run (ai_queue_capacity cfg) Idle (client_events request json_parse as (new_client cfg))
    (session_of (client_acts request json_parse as (new_client cfg)))"
  by (rule session_refinement [OF assms])

definition served_actions :: "exchange \<Rightarrow> client_action list" where
  "served_actions ex =
     [Started, Connected ''ipc:///run/ips.sock'' ''v1'', Offered 0 (sample_record ''7-1''), Turn ex, Turn ex, Turn ex,
      Turn ex, Drained]"

text \<open>A record the server finds suspicious, from the offer to the decision.\<close>

lemma sample_found:
  "parse_ai_response (\<lambda>s. Some sample_response) answer ''7-1'' ''v1'' =
     Inr \<lparr>resp_ok = True, resp_flow_id = ''7-1'', resp_model_version = ''v1'', resp_anomaly = True,
       resp_score = Finite 3, resp_threshold = Finite 2, resp_error_code = []\<rparr>"
  by (simp add: parse_ai_response_def check_response_def check_verdict_def sample_response_def member_def
      is_object_def is_number_integer_def is_number_def get_int_def get_double_def has_string_def is_string_def
      string_at_def isfinite_def negative_def)

lemma served_events:
  "client_events (\<lambda>r. ''request'') (\<lambda>s. Some sample_response) (served_actions (Exchanged True 5 (Some ''answer'')))
     (new_client default_ai_config) =
   [Internal, Connection ''ipc:///run/ips.sock'' ''v1'', Taken (sample_record ''7-1''), Internal, Internal, Internal, Internal,
    Handed [\<lparr>ad_record = sample_record ''7-1'', ad_anomaly = True, ad_score = Finite 3, ad_threshold = Finite 2,
      ad_model_version = ''v1''\<rparr>]]"
proof -
  have id: "r_flow_id (sample_record ''7-1'') = ''7-1''" by (simp add: sample_record_def)
  show ?thesis
    by (simp add: served_actions_def new_client_def default_ai_config_def client_start_def set_online_def
        client_consume_def worker_turn_def worker_pick_def worker_exchange_def worker_send_def worker_connect_def worker_reply_def
        worker_decide_def client_drain_def stale_def id sample_found Let_def)
qed

theorem client_refines_session_witness:
  "\<exists>s. session_run 1024 Idle
     [Internal, Connection ''ipc:///run/ips.sock'' ''v1'', Taken (sample_record ''7-1''), Internal, Internal, Internal, Internal,
      Handed [\<lparr>ad_record = sample_record ''7-1'', ad_anomaly = True, ad_score = Finite 3, ad_threshold = Finite 2,
        ad_model_version = ''v1''\<rparr>]] s"
  using client_refines_session [of "served_actions (Exchanged True 5 (Some ''answer''))" default_ai_config
      "\<lambda>r. ''request''" "\<lambda>s. Some sample_response"]
  unfolding served_events by (auto simp: served_actions_def default_ai_config_def)

section \<open>The order of the decisions\<close>

text \<open>What was taken and what was handed out since the connection changed last.\<close>

fun session_note ::
    "session_event \<Rightarrow> flow_record list \<times> ai_decision list \<Rightarrow> flow_record list \<times> ai_decision list" where
  "session_note (Connection endpoint version) l = ([], [])"
| "session_note Lost l = ([], [])"
| "session_note (Taken r) (rs, ds) = (rs @ [r], ds)"
| "session_note (Handed xs) (rs, ds) = (rs, ds @ xs)"
| "session_note e l = l"

definition session_log :: "session_event list \<Rightarrow> flow_record list \<times> ai_decision list" where
  "session_log evs = fold session_note evs ([], [])"

lemma session_log_snoc: "session_log (evs @ [e]) = session_note e (session_log evs)"
  by (simp add: session_log_def)

definition in_order :: "flow_record list \<times> ai_decision list \<Rightarrow> session_state \<Rightarrow> bool" where
  "in_order l s \<longleftrightarrow>
     (case s of
        In_session x \<Rightarrow>
          (\<exists>past. fst l = past @ (case se_asked x of None \<Rightarrow> [] | Some r \<Rightarrow> [r]) @ se_queue x \<and>
             subseq (map ad_record (snd l @ se_found x)) past) \<and>
          (\<forall>d \<in> set (snd l @ se_found x). ad_anomaly d \<and> ad_model_version d = se_version x)
      | _ \<Rightarrow> l = ([], []))"

lemma in_order_step:
  assumes "session_step capacity s e t" "in_order l s"
  shows "in_order (session_note e l) t"
proof -
  obtain rs ds where l: "l = (rs, ds)" by fastforce
  show ?thesis
    using assms(1)
  proof (cases rule: session_step.cases)
    case (Asks x r rs')
    with assms(2) show ?thesis by (simp add: in_order_def)
  next
    case (Settles x)
    show ?thesis
    proof (cases "se_asked x")
      case None
      with Settles assms(2) show ?thesis by (simp add: in_order_def)
    next
      case (Some r)
      with Settles assms(2) obtain past where past: "fst l = past @ [r] @ se_queue x"
        "subseq (map ad_record (snd l @ se_found x)) past"
        "\<forall>d \<in> set (snd l @ se_found x). ad_anomaly d \<and> ad_model_version d = se_version x"
        by (auto simp: in_order_def)
      have "subseq (map ad_record (snd l @ se_found x)) (past @ [r])" using past(2) by (rule subseq_rev_drop_many)
      with past Settles show ?thesis by (auto simp: in_order_def intro!: exI [where x = "past @ [r]"])
    qed
  next
    case (Finds x d)
    with assms(2) obtain past where past: "fst l = past @ [ad_record d] @ se_queue x"
      "subseq (map ad_record (snd l @ se_found x)) past"
      "\<forall>d \<in> set (snd l @ se_found x). ad_anomaly d \<and> ad_model_version d = se_version x"
      by (auto simp: in_order_def)
    have "subseq (map ad_record (snd l @ se_found x) @ [ad_record d]) (past @ [ad_record d])"
      by (rule list_emb_append_mono [OF past(2)]) simp
    with past Finds show ?thesis by (auto simp: in_order_def intro!: exI [where x = "past @ [ad_record d]"])
  next
    case (Takes x r)
    with assms(2) l show ?thesis by (auto simp: in_order_def)
  next
    case (Hands x)
    with assms(2) l show ?thesis by (auto simp: in_order_def)
  next
    case Hands_none
    with assms(2) l show ?thesis by (auto simp: in_order_def)
  qed (use assms(2) l in \<open>auto simp: in_order_def\<close>)
qed

lemma distinct_subseq: "subseq xs ys \<Longrightarrow> distinct ys \<Longrightarrow> distinct xs"
  by (induction rule: list_emb.induct) (auto dest: list_emb_set)

lemma subseq_prefix: "subseq (xs @ ys) past \<Longrightarrow> subseq xs (past @ zs)"
  by (metis list_emb_append_mono list_emb_Nil subseq_order.order_refl subseq_order.trans append_Nil2)

lemma in_order_run: "session_run capacity Idle evs s \<Longrightarrow> in_order (session_log evs) s"
proof (induction rule: session_run.induct)
  case Rests
  show ?case by (simp add: in_order_def session_log_def)
next
  case (Goes evs t e u)
  then show ?case by (simp add: session_log_snoc in_order_step)
qed

text \<open>C18. At any time the decisions handed out in the current connection are about records taken in it, in
  the order in which they were taken and no record twice; they are anomalies found by the connected
  version. As long as there is no connection there are none.\<close>

theorem decisions_in_order:
  assumes "length as < 2 ^ 64"
  shows "let (taken, handed) = session_log (client_events request json_parse as (new_client cfg));
      c = client_acts request json_parse as (new_client cfg) in
    subseq (map ad_record handed) taken \<and> (distinct taken \<longrightarrow> distinct (map ad_record handed)) \<and>
    (if c_online c then \<forall>d \<in> set handed. ad_anomaly d \<and> ad_model_version d = c_model_version c
     else taken = [] \<and> handed = [])"
proof -
  let ?c = "client_acts request json_parse as (new_client cfg)"
  obtain taken handed where l: "session_log (client_events request json_parse as (new_client cfg)) = (taken, handed)"
    by fastforce
  have o: "in_order (taken, handed) (session_of ?c)" using in_order_run [OF session_refinement [OF assms]] l by metis
  have "queues_ok ?c" using client_acts_ok [OF assms] by blast
  then have online: "c_online ?c \<longleftrightarrow> (\<exists>x. session_of ?c = In_session x \<and> se_version x = c_model_version ?c)"
    "\<not> c_online ?c \<longleftrightarrow> session_of ?c = Idle \<or> session_of ?c = Over"
    by (auto simp: session_of_def queues_ok_def)
  have sub: "subseq (map ad_record handed) taken"
  proof (cases "session_of ?c")
    case (In_session x)
    with o obtain past more where "taken = past @ more" "subseq (map ad_record handed @ map ad_record (se_found x)) past"
      by (auto simp: in_order_def)
    then show ?thesis by (simp add: subseq_prefix)
  qed (use o in \<open>simp_all add: in_order_def\<close>)
  with o online distinct_subseq show ?thesis
    unfolding l Let_def by (auto simp: in_order_def)
qed

theorem decisions_in_order_witness:
  "session_log (client_events (\<lambda>r. ''request'') (\<lambda>s. Some sample_response)
     (served_actions (Exchanged True 5 (Some ''answer''))) (new_client default_ai_config)) =
   ([sample_record ''7-1''], [\<lparr>ad_record = sample_record ''7-1'', ad_anomaly = True, ad_score = Finite 3,
     ad_threshold = Finite 2, ad_model_version = ''v1''\<rparr>]) \<and>
   subseq [sample_record ''7-1''] [sample_record ''7-1'']"
  using decisions_in_order [of "served_actions (Exchanged True 5 (Some ''answer''))" "\<lambda>r. ''request''"
      "\<lambda>s. Some sample_response" default_ai_config]
  unfolding served_events by (simp add: served_actions_def session_log_def)

section \<open>Results of the current connection\<close>

text \<open>C19. In every interleaving of the threads both queues stay within the configured capacity, and the
  records taken in the current connection are exactly those answered, then the one the server is being
  asked about, then those in the queue, in this order: nothing of an earlier connection is queued or
  asked. What the capture thread can drain, after what it has drained, answers records of the answered
  ones in their order, and is an anomaly found by the connected version. A client that is offline holds
  nothing. A request goes to the endpoint its worker read with the record, and for a record of the
  current connection that is the endpoint that is connected.\<close>

theorem async_results_current:
  assumes "length as < 2 ^ 64"
  shows "let (taken, handed) = session_log (client_events request json_parse as (new_client cfg));
      c = client_acts request json_parse as (new_client cfg); drained = fst (client_drain c) in
    length (c_pending_flows c) \<le> ai_queue_capacity cfg \<and> length drained \<le> ai_queue_capacity cfg \<and>
    (if c_online c
     then \<exists>answered. taken = answered @ (case asked c of None \<Rightarrow> [] | Some r \<Rightarrow> [r]) @ c_pending_flows c \<and>
       subseq (map ad_record (handed @ drained)) answered
     else taken = [] \<and> c_pending_flows c = [] \<and> drained = []) \<and>
    list_all (\<lambda>d. ad_anomaly d \<and> ad_model_version d = c_model_version c) drained \<and>
    (\<forall>r g e m sent ms reply. c_worker c = W_exchanging r g e m \<longrightarrow>
       c_sent (worker_exchange request (Exchanged sent ms reply) r g e m c) = c_sent c @ [(e, request r)] \<and>
       (c_online c \<and> g = c_generation c \<longrightarrow> r \<in> set taken \<and> e = c_endpoint c \<and> m = c_model_version c))"
proof -
  let ?c = "client_acts request json_parse as (new_client cfg)"
  obtain taken handed where l: "session_log (client_events request json_parse as (new_client cfg)) = (taken, handed)"
    by fastforce
  have o: "in_order (taken, handed) (session_of ?c)" using in_order_run [OF session_refinement [OF assms]] l by metis
  obtain n where ok: "queues_ok ?c" "versions_ok n ?c" "c_queue_capacity ?c = ai_queue_capacity cfg"
    using client_acts_ok [OF assms] by blast
  have offline: "\<not> c_online ?c \<Longrightarrow> taken = [] \<and> c_pending_flows ?c = [] \<and> c_pending_decisions ?c = []"
    using o ok(1) by (auto simp: in_order_def session_of_def queues_ok_def split: if_splits)
  have online: "\<exists>answered. taken = answered @ (case asked ?c of None \<Rightarrow> [] | Some r \<Rightarrow> [r]) @ c_pending_flows ?c \<and>
      subseq (map ad_record (handed @ c_pending_decisions ?c)) answered" if "c_online ?c"
  proof -
    have "\<not> c_stop_requested ?c" using that ok(1) by (auto simp: queues_ok_def)
    with that o show ?thesis by (simp add: in_order_def session_of_def)
  qed
  have current: "e = c_endpoint ?c \<and> m = c_model_version ?c \<and> r \<in> set taken"
    if "c_worker ?c = W_exchanging r g e m" "c_online ?c" "g = c_generation ?c" for r g e m
  proof -
    have "asked ?c = Some r" using that by (simp add: asked_def)
    with online [OF that(2)] have "r \<in> set taken" by auto
    with ok(2) that show ?thesis by (simp add: versions_ok_def current_def)
  qed
  have bounds: "length (c_pending_flows ?c) \<le> ai_queue_capacity cfg" "length (c_pending_decisions ?c) \<le> ai_queue_capacity cfg"
    "list_all (\<lambda>d. ad_anomaly d \<and> ad_model_version d = c_model_version ?c) (c_pending_decisions ?c)"
    using ok by (simp_all add: queues_ok_def versions_ok_def list_all_iff)
  show ?thesis
    unfolding l Let_def prod.case client_drain_def fst_conv
    using bounds offline online current exchange_sent [OF ok(2)] by auto
qed

text \<open>A record that was taken, answered and is ready to be drained, while the next one is asked about and a
  third is queued.\<close>

definition asking_actions :: "exchange \<Rightarrow> client_action list" where
  "asking_actions ex =
     [Started, Connected ''ipc:///run/ips.sock'' ''v1'', Offered 0 (sample_record ''7-1''), Turn ex, Turn ex, Turn ex, Turn ex,
      Offered 1 (sample_record ''7-2''), Turn ex, Offered 2 (sample_record ''7-3'')]"

lemma asking_result:
  fixes ex request
  defines "ex \<equiv> Exchanged True 5 (Some ''answer'')" and "request \<equiv> \<lambda>r. ''request''"
  shows "session_log (client_events request (\<lambda>s. Some sample_response) (asking_actions ex) (new_client default_ai_config)) =
      ([sample_record ''7-1'', sample_record ''7-2'', sample_record ''7-3''], [])"
    and "map ad_record (fst (client_drain (client_acts request (\<lambda>s. Some sample_response) (asking_actions ex)
      (new_client default_ai_config)))) = [sample_record ''7-1'']"
    and "c_pending_flows (client_acts request (\<lambda>s. Some sample_response) (asking_actions ex)
      (new_client default_ai_config)) = [sample_record ''7-3'']"
    and "c_online (client_acts request (\<lambda>s. Some sample_response) (asking_actions ex) (new_client default_ai_config))"
    and "asked (client_acts request (\<lambda>s. Some sample_response) (asking_actions ex) (new_client default_ai_config)) \<noteq> None"
proof -
  have id: "r_flow_id (sample_record ''7-1'') = ''7-1''" by (simp add: sample_record_def)
  note defs = asking_actions_def new_client_def default_ai_config_def client_start_def set_online_def
    client_consume_def worker_turn_def worker_pick_def worker_exchange_def worker_send_def worker_connect_def
    worker_reply_def worker_decide_def client_drain_def stale_def id sample_found Let_def session_log_def ex_def request_def
  show "session_log (client_events request (\<lambda>s. Some sample_response) (asking_actions ex) (new_client default_ai_config)) =
      ([sample_record ''7-1'', sample_record ''7-2'', sample_record ''7-3''], [])" by (simp add: defs)
  show "map ad_record (fst (client_drain (client_acts request (\<lambda>s. Some sample_response) (asking_actions ex)
      (new_client default_ai_config)))) = [sample_record ''7-1'']" by (simp add: defs)
  show "c_pending_flows (client_acts request (\<lambda>s. Some sample_response) (asking_actions ex)
      (new_client default_ai_config)) = [sample_record ''7-3'']" by (simp add: defs)
  show "c_online (client_acts request (\<lambda>s. Some sample_response) (asking_actions ex) (new_client default_ai_config))"
    by (simp add: defs)
  show "asked (client_acts request (\<lambda>s. Some sample_response) (asking_actions ex) (new_client default_ai_config)) \<noteq> None"
    by (simp add: defs asked_def)
qed

theorem async_results_current_witness:
  "let c = client_acts (\<lambda>r. ''request'') (\<lambda>s. Some sample_response) (asking_actions (Exchanged True 5 (Some ''answer'')))
      (new_client default_ai_config) in
   asked c = Some (sample_record ''7-2'') \<and> c_pending_flows c = [sample_record ''7-3''] \<and>
   map ad_record (fst (client_drain c)) = [sample_record ''7-1'']"
proof -
  have "length (asking_actions (Exchanged True 5 (Some ''answer''))) < 2 ^ 64" by (simp add: asking_actions_def)
  from async_results_current [OF this, of "\<lambda>r. ''request''" "\<lambda>s. Some sample_response" default_ai_config] show ?thesis
    unfolding asking_result(1) Let_def prod.case
    using asking_result(2-5) by (auto split: option.splits)
qed

section \<open>The end\<close>

fun is_turn :: "client_action \<Rightarrow> bool" where
  "is_turn (Turn ex) \<longleftrightarrow> True"
| "is_turn _ \<longleftrightarrow> False"

fun asking :: "worker \<Rightarrow> bool" where
  "asking (W_exchanging r g e m) \<longleftrightarrow> True"
| "asking _ \<longleftrightarrow> False"

text \<open>The requests sent, with the one that is about to be.\<close>

definition requests :: "ai_client \<Rightarrow> nat" where
  "requests c = length (c_sent c) + (if asking (c_worker c) then 1 else 0)"

definition ending :: "ai_client \<Rightarrow> bool" where
  "ending c \<longleftrightarrow> stopped c \<and> c_pending_flows c = [] \<and> c_pending_decisions c = [] \<and> c_worker c \<noteq> W_none \<and>
     (c_worker c = W_exited \<longrightarrow> c_socket c = None)"

lemma ending_turn:
  assumes "ending c"
  shows "ending (client_act request json_parse (Turn ex) c) \<and>
    turns_left (c_worker (client_act request json_parse (Turn ex) c)) \<le> turns_left (c_worker c) - 1 \<and>
    c_failures (client_act request json_parse (Turn ex) c) = c_failures c \<and>
    requests (client_act request json_parse (Turn ex) c) \<le> requests c"
  using assms
  by (cases "c_worker c")
     (auto simp: ending_def stopped_def worker_turn_def worker_pick_def worker_decide_def worker_defs stale_def
       requests_def split: exchange.split option.split)

lemma ending_act:
  assumes "ending c"
  shows "ending (client_act request json_parse a c) \<and>
    turns_left (c_worker (client_act request json_parse a c)) \<le> turns_left (c_worker c) - (if is_turn a then 1 else 0) \<and>
    c_failures (client_act request json_parse a c) = c_failures c \<and>
    requests (client_act request json_parse a c) \<le> requests c"
proof (cases a)
  case (Turn ex)
  then show ?thesis using ending_turn [OF assms, of request json_parse ex] by simp
qed (use assms in \<open>auto simp: api_defs ending_def stopped_def requests_def\<close>)

lemma ending_acts:
  assumes "ending c"
  shows "ending (client_acts request json_parse as c) \<and>
    turns_left (c_worker (client_acts request json_parse as c)) \<le> turns_left (c_worker c) - length (filter is_turn as) \<and>
    c_failures (client_acts request json_parse as c) = c_failures c \<and>
    requests (client_acts request json_parse as c) \<le> requests c"
  using assms
proof (induction as arbitrary: c)
  case (Cons a as)
  from ending_act [OF Cons.prems, of request json_parse a] Cons.IH [of "client_act request json_parse a c"]
  show ?case by (auto split: if_splits)
qed simp

lemma exited_closed:
  "c_worker (client_acts request json_parse as (new_client cfg)) = W_exited \<longrightarrow>
   c_socket (client_acts request json_parse as (new_client cfg)) = None"
proof (induction as rule: rev_induct)
  case Nil
  show ?case by (simp add: new_client_def)
next
  case (snoc a as)
  show ?case
  proof (cases a)
    case (Turn ex)
    with snoc show ?thesis
      by (cases "c_worker (client_acts request json_parse as (new_client cfg))")
         (auto simp: worker_turn_def worker_pick_def worker_decide_def worker_defs
           split: exchange.split option.split sum.split list.split)
  qed (use snoc in \<open>auto simp: api_defs\<close>)
qed

text \<open>C17. \<open>stop\<close> returns: whatever happened before and whatever the other threads and the server do
  meanwhile, the worker it joins has left its loop and closed its socket after at most three of its own
  turns, none of which waits. It sends at most the one request it was about to send, nobody hears of a
  failure any more, and the queues are and stay empty.\<close>

theorem stop_joins_worker:
  assumes "c = client_acts request json_parse before (new_client cfg)" "c_worker c \<noteq> W_none"
    and "3 \<le> length (filter is_turn after)"
  shows "let c' = client_acts request json_parse after (client_stop c) in
    c_worker c' = W_exited \<and> c_socket c' = None \<and> c_pending_flows c' = [] \<and> c_pending_decisions c' = [] \<and>
    c_failures c' = c_failures c \<and> length (c_sent c') \<le> Suc (length (c_sent c))"
proof -
  let ?c' = "client_acts request json_parse after (client_stop c)"
  have start: "ending (client_stop c)" "requests (client_stop c) \<le> Suc (length (c_sent c))"
    "c_failures (client_stop c) = c_failures c"
    using exited_closed [of request json_parse before cfg] assms(1,2)
    by (simp_all add: ending_def stopped_def client_stop_def requests_def)
  have end': "ending ?c'" "turns_left (c_worker ?c') \<le> turns_left (c_worker (client_stop c)) - length (filter is_turn after)"
    "c_failures ?c' = c_failures c" "requests ?c' \<le> Suc (length (c_sent c))"
    using ending_acts [OF start(1), of request json_parse after] start(2,3) by simp_all
  have "turns_left (c_worker (client_stop c)) \<le> 3" by (cases "c_worker (client_stop c)") simp_all
  with end'(2) assms(3) have "turns_left (c_worker ?c') = 0" by simp
  with end'(1) have "c_worker ?c' = W_exited" by (cases "c_worker ?c'") (simp_all add: ending_def)
  with end' show ?thesis by (auto simp: ending_def requests_def Let_def)
qed

text \<open>A worker that is stopped while the server is silent.\<close>

theorem stop_joins_worker_witness:
  "c_worker (client_acts (\<lambda>r. ''request'') (\<lambda>s. None) (replicate 3 (Turn (Exchanged True 9 None)))
     (client_stop (client_acts (\<lambda>r. ''request'') (\<lambda>s. None)
       [Started, Connected ''e'' ''v1'', Offered 0 (sample_record ''7-1''), Turn (Exchanged True 9 None)]
       (new_client default_ai_config)))) = W_exited"
proof -
  let ?before = "[Started, Connected ''e'' ''v1'', Offered 0 (sample_record ''7-1''), Turn (Exchanged True 9 None)]"
  have "c_worker (client_acts (\<lambda>r. ''request'') (\<lambda>s. None) ?before (new_client default_ai_config)) \<noteq> W_none"
    by (simp add: new_client_def default_ai_config_def client_start_def set_online_def client_consume_def
        worker_turn_def worker_pick_def Let_def)
  from stop_joins_worker [OF refl this, of "replicate 3 (Turn (Exchanged True 9 None))"] show ?thesis
    by (simp add: Let_def)
qed

end
