(* ===== verification/Sensor_Spec.thy ===== *)
theory Sensor_Spec
  imports Capture_Properties
begin

text \<open>
  What the capture pipeline promises, without its data structures: conversations, sources and blocks are
  finite maps, the directions of a packet are handled by one rule, and a tick may forget whatever has
  expired. The pipeline implements this specification: every run is one of its runs, with the same
  verdicts, the same records given to the consumer and the same notices.
\<close>

section \<open>The specification\<close>

text \<open>What a sensor is set up with, and what it remembers.\<close>

record policy =
  po_whitelist :: whitelist
  po_ttl_seconds :: int
  po_window_seconds :: int
  po_rules :: rule_engine
  po_max_flows :: nat
  po_max_sources :: nat
  po_steady_anchor :: time_point
  po_wall_anchor :: time_point
  po_instance :: string
  po_has_handler :: bool

record 'c sensor =
  se_flows :: flow_map
  se_sources :: source_map
  se_blocked :: "u32 \<Rightarrow> time_point option"
  se_consumer :: 'c
  se_stats :: capture_stats
  se_notices :: "ai_block_event list"
  se_sequence :: u64
  se_reads :: nat

definition blocked_at :: "(u32 \<Rightarrow> time_point option) \<Rightarrow> u32 \<Rightarrow> time_point \<Rightarrow> bool" where
  "blocked_at b ip now \<longleftrightarrow> (case b ip of None \<Rightarrow> False | Some expiry \<Rightarrow> now < expiry)"

definition record_of :: "policy \<Rightarrow> u64 \<Rightarrow> ended_flow \<Rightarrow> flow_record" where
  "record_of po n e =
     (let epoch_ms = (\<lambda>t. to_milliseconds (po_wall_anchor po + (t - po_steady_anchor po))) in
      \<lparr>r_flow_id = id_of (po_instance po) (unat n), r_key = f_key (e_flow e),
       r_first_seen_ms = epoch_ms (f_first_seen (e_flow e)), r_last_seen_ms = epoch_ms (f_last_seen (e_flow e)),
       r_end_reason = e_reason e, r_feature_schema_version = 1, r_features = flow_to_features (e_flow e)\<rparr>)"

text \<open>A conversation that has ended is submitted when it was opened from outside, has two packets or more,
  and its source is neither whitelisted nor blocked.\<close>

definition spec_submit :: "policy \<Rightarrow> 'c flow_consumer \<Rightarrow> (nat \<Rightarrow> time_point) \<Rightarrow> ended_flow \<Rightarrow> 'c sensor \<Rightarrow> 'c sensor" where
  "spec_submit po ops clock e s =
     (let f = e_flow e; src = src_ip (f_key f) in
      if f_origin f \<noteq> REMOTE_INITIATED \<or>
         rs_count (d_payload_len (f_forward f)) + rs_count (d_payload_len (f_backward f)) \<le> 1 then s
      else if is_whitelisted (po_whitelist po) src \<or> blocked_at (se_blocked s) src (clock (se_reads s))
      then s\<lparr>se_reads := Suc (se_reads s)\<rparr>
      else s\<lparr>se_reads := Suc (se_reads s), se_sequence := se_sequence s + 1,
             se_consumer := snd (fc_consume ops (record_of po (se_sequence s) e) (se_consumer s))\<rparr>)"

definition spec_finish :: "policy \<Rightarrow> 'c flow_consumer \<Rightarrow> (nat \<Rightarrow> time_point) \<Rightarrow> five_tuple \<Rightarrow> 'c sensor \<Rightarrow> 'c sensor" where
  "spec_finish po ops clock key s =
     (case spec_extract key (se_flows s) of
        (None, M) \<Rightarrow> s\<lparr>se_flows := M\<rparr>
      | (Some e, M) \<Rightarrow> spec_submit po ops clock e (s\<lparr>se_flows := M\<rparr>))"

definition spec_block :: "policy \<Rightarrow> u32 \<Rightarrow> time_point \<Rightarrow> 'c sensor \<Rightarrow> 'c sensor" where
  "spec_block po ip now s =
     s\<lparr>se_flows := spec_discard ip (se_flows s),
       se_blocked := (se_blocked s)(ip \<mapsto> now + seconds (po_ttl_seconds po))\<rparr>"

text \<open>One rule for both directions: the far end of the packet decides. Nothing that is sent is dropped.\<close>

definition spec_packet ::
    "policy \<Rightarrow> 'c flow_consumer \<Rightarrow> (nat \<Rightarrow> time_point) \<Rightarrow> u8 list option \<Rightarrow> packet_direction \<Rightarrow> 'c sensor \<Rightarrow>
     bool \<times> 'c sensor" where
  "spec_packet po ops clock data d s =
     (if d = UNKNOWN then (True, s)
      else let now = clock (se_reads s); s = s\<lparr>se_reads := Suc (se_reads s)\<rparr> in
        case parse data of
          Inr (Some p) \<Rightarrow>
            let far = (if d = INBOUND then src_ip (tuple p) else dst_ip (tuple p)) in
            if is_whitelisted (po_whitelist po) far then (True, s)
            else if blocked_at (se_blocked s) far now then (d = OUTBOUND, s)
            else if \<not> has_ports p then (True, s)
            else
              let (stats, M, S) = spec_observe (po_max_flows po) (po_max_sources po) (po_window_seconds po) p d now
                                    (se_flows s, se_sources s);
                  s = s\<lparr>se_flows := M, se_sources := S\<rparr>;
                  violation = (case stats of None \<Rightarrow> False | Some st \<Rightarrow> \<not> list_all (\<lambda>r. \<not> is_match r st) (po_rules po))
              in if d = INBOUND \<and> violation
                 then (False, (spec_block po far now s)
                         \<lparr>se_stats := (se_stats s)\<lparr>cs_rule_blocks := cs_rule_blocks (se_stats s) + 1\<rparr>\<rparr>)
                 else (True, spec_finish po ops clock (tuple p) s)
        | _ \<Rightarrow> (True, s))"

definition spec_decision :: "policy \<Rightarrow> time_point \<Rightarrow> ai_decision \<Rightarrow> 'c sensor \<Rightarrow> 'c sensor" where
  "spec_decision po now d s =
     (let src = src_ip (r_key (ad_record d)); st = se_stats s in
      if \<not> ad_anomaly d then s
      else if is_whitelisted (po_whitelist po) src then s\<lparr>se_stats := st\<lparr>cs_ai_whitelisted := cs_ai_whitelisted st + 1\<rparr>\<rparr>
      else if blocked_at (se_blocked s) src now then s\<lparr>se_stats := st\<lparr>cs_ai_duplicates := cs_ai_duplicates st + 1\<rparr>\<rparr>
      else (spec_block po src now s)
        \<lparr>se_stats := st\<lparr>cs_ai_new_blocks := cs_ai_new_blocks st + 1\<rparr>,
         se_notices := se_notices s @
           (if po_has_handler po
            then [\<lparr>ev_flow_id = r_flow_id (ad_record d), ev_source_ip = src, ev_score = ad_score d,
                   ev_threshold = ad_threshold d, ev_ttl_seconds = po_ttl_seconds po,
                   ev_model_version = ad_model_version d\<rparr>]
            else [])\<rparr>)"

text \<open>What a tick may forget: conversations silent for a minute, which end by it, windows that are over,
  and blocks that are over. How much of it is left to the implementation.\<close>

definition idle_flows :: "time_point \<Rightarrow> flow_map \<Rightarrow> ended_flow list \<Rightarrow> bool" where
  "idle_flows now M ended \<longleftrightarrow>
     distinct (map (\<lambda>e. f_key (e_flow e)) ended) \<and>
     (\<forall>e \<in> set ended. e_reason e = TIMEOUT \<and> M (f_key (e_flow e)) = Some (e_flow e) \<and>
        now - f_last_seen (e_flow e) \<ge> seconds 60)"

definition forget :: "'k set \<Rightarrow> ('k \<Rightarrow> 'v option) \<Rightarrow> 'k \<Rightarrow> 'v option" where
  "forget D m = (\<lambda>k. if k \<in> D then None else m k)"

inductive spec_step ::
    "policy \<Rightarrow> 'c flow_consumer \<Rightarrow> (nat \<Rightarrow> time_point) \<Rightarrow> 'c capture_event \<Rightarrow> 'c sensor \<Rightarrow> bool option \<Rightarrow> 'c sensor \<Rightarrow> bool"
  for po :: policy and ops :: "'c flow_consumer" and clock :: "nat \<Rightarrow> time_point" where
  Packet_comes: "spec_packet po ops clock data d s = (v, s') \<Longrightarrow>
    spec_step po ops clock (Packet data d) s (Some v) s'"
| Tick_comes: "now = clock (se_reads s) \<Longrightarrow> fc_drain ops (se_consumer s) = (ds, c) \<Longrightarrow>
    s1 = fold (spec_decision po now) ds (s\<lparr>se_reads := Suc (se_reads s), se_consumer := c\<rparr>) \<Longrightarrow>
    idle_flows now (se_flows s1) ended \<Longrightarrow>
    \<forall>ip \<in> over. \<exists>st. se_sources s1 ip = Some st \<and> now - window_start st \<ge> seconds (po_window_seconds po) \<Longrightarrow>
    s2 = fold (spec_submit po ops clock) ended
      (s1\<lparr>se_flows := forget ((\<lambda>e. f_key (e_flow e)) ` set ended) (se_flows s1), se_sources := forget over (se_sources s1)\<rparr>) \<Longrightarrow>
    \<forall>ip \<in> released. \<exists>t. se_blocked s2 ip = Some t \<and> t \<le> now \<Longrightarrow>
    spec_step po ops clock Tick s None (s2\<lparr>se_blocked := forget released (se_blocked s2)\<rparr>)"
| Others_run: "spec_step po ops clock (Consumer_runs f) s None (s\<lparr>se_consumer := f (se_consumer s)\<rparr>)"

inductive spec_run ::
    "policy \<Rightarrow> 'c flow_consumer \<Rightarrow> (nat \<Rightarrow> time_point) \<Rightarrow> 'c capture_event list \<Rightarrow> 'c sensor \<Rightarrow> bool option list \<Rightarrow>
     'c sensor \<Rightarrow> bool"
  for po :: policy and ops :: "'c flow_consumer" and clock :: "nat \<Rightarrow> time_point" where
  Spec_ends: "spec_run po ops clock [] s [] s"
| Spec_goes_on: "spec_step po ops clock ev s v s' \<Longrightarrow> spec_run po ops clock evs s' vs s'' \<Longrightarrow>
    spec_run po ops clock (ev # evs) s (v # vs) s''"

section \<open>The abstraction\<close>

definition policy_of :: "'c packet_capture \<Rightarrow> policy" where
  "policy_of pc =
     \<lparr>po_whitelist = pc_whitelist pc, po_ttl_seconds = pc_block_ttl_seconds pc,
      po_window_seconds = fm_window_seconds (pc_flow_manager pc), po_rules = pc_rule_engine pc,
      po_max_flows = fm_max_flows (pc_flow_manager pc), po_max_sources = fm_max_sources (pc_flow_manager pc),
      po_steady_anchor = pc_steady_anchor pc, po_wall_anchor = pc_wall_anchor pc,
      po_instance = pc_sensor_instance_id pc, po_has_handler = pc_has_handler pc\<rparr>"

definition abs_sensor :: "'c packet_capture \<Rightarrow> 'c sensor" where
  "abs_sensor pc =
     \<lparr>se_flows = find_flow (pc_flow_manager pc), se_sources = find_source (pc_flow_manager pc),
      se_blocked = block_map (pc_block_list pc), se_consumer = pc_consumer pc, se_stats = pc_stats pc,
      se_notices = pc_handler_calls pc, se_sequence = pc_next_flow_sequence pc, se_reads = pc_clock_reads pc\<rparr>"

lemmas abstraction = policy_of_def abs_sensor_def

text \<open>The verdicts of a run.\<close>

fun pc_verdicts ::
    "'c flow_consumer \<Rightarrow> (nat \<Rightarrow> time_point) \<Rightarrow> 'c capture_event list \<Rightarrow> 'c packet_capture \<Rightarrow> bool option list" where
  "pc_verdicts ops clock [] pc = []"
| "pc_verdicts ops clock (ev # evs) pc =
     (case ev of Packet data d \<Rightarrow> Some (fst (on_packet ops clock data d pc)) | _ \<Rightarrow> None) #
     pc_verdicts ops clock evs (pc_step ops clock ev pc)"

lemma blocked_at_map: "blocked_at (block_map bl) ip now = is_blocked bl ip now"
  by (simp add: blocked_at_def is_blocked_def)

lemma submit_refines:
  "abs_sensor (consume_flow ops clock e pc) = spec_submit (policy_of pc) ops clock e (abs_sensor pc)"
  "policy_of (consume_flow ops clock e pc) = policy_of pc"
  by (simp_all add: consume_flow_def read_clock_def next_flow_id_def Let_def abstraction spec_submit_def
      blocked_at_map record_of_def id_of_def to_epoch_ms_def FLOW_FEATURE_SCHEMA_VERSION_def)

lemma submit_all_refines:
  "abs_sensor (fold (consume_flow ops clock) es pc) = fold (spec_submit (policy_of pc) ops clock) es (abs_sensor pc) \<and>
   policy_of (fold (consume_flow ops clock) es pc) = policy_of pc"
  by (induction es arbitrary: pc) (simp_all add: submit_refines)

lemma policy_manager:
  "same_shape (pc_flow_manager pc) fm \<Longrightarrow> policy_of (pc\<lparr>pc_flow_manager := fm\<rparr>) = policy_of pc"
  by (simp add: policy_of_def same_shape_def)

lemma abs_manager:
  "abs_sensor (pc\<lparr>pc_flow_manager := fm\<rparr>) = (abs_sensor pc)\<lparr>se_flows := find_flow fm, se_sources := find_source fm\<rparr>"
  by (simp add: abs_sensor_def)

lemma finish_refines:
  assumes "fm_inv (pc_flow_manager pc)"
  shows "abs_sensor (finish_flow ops clock p pc) = spec_finish (policy_of pc) ops clock (tuple p) (abs_sensor pc)"
    "policy_of (finish_flow ops clock p pc) = policy_of pc"
proof -
  let ?fm = "snd (extract_completed (tuple p) (pc_flow_manager pc))"
  have map: "fst (extract_completed (tuple p) (pc_flow_manager pc)) = fst (spec_extract (tuple p) (find_flow (pc_flow_manager pc)))"
    "find_flow ?fm = snd (spec_extract (tuple p) (find_flow (pc_flow_manager pc)))"
    "find_source ?fm = find_source (pc_flow_manager pc)"
    using extract_completed_refines [OF assms, of "tuple p"] by (simp_all add: fm_abs_def)
  have shape: "same_shape (pc_flow_manager pc) ?fm"
    using fm_step_shape [of "pc_flow_manager pc" "Extract (tuple p)"] by simp
  note policy = policy_manager [OF shape]
  have "abs_sensor (pc\<lparr>pc_flow_manager := ?fm\<rparr>) =
      (abs_sensor pc)\<lparr>se_flows := snd (spec_extract (tuple p) (se_flows (abs_sensor pc)))\<rparr>"
    by (simp add: abs_sensor_def map)
  then show "abs_sensor (finish_flow ops clock p pc) = spec_finish (policy_of pc) ops clock (tuple p) (abs_sensor pc)"
    "policy_of (finish_flow ops clock p pc) = policy_of pc"
    using map(1) policy
    by (auto simp: finish_flow_def spec_finish_def split_beta submit_refines abs_sensor_def [of pc] split: option.split)
qed

lemma observe_abs:
  assumes "fm_inv (pc_flow_manager pc)" "fm' = snd (observe_packet p d now (pc_flow_manager pc))"
  shows "spec_observe (po_max_flows (policy_of pc)) (po_max_sources (policy_of pc)) (po_window_seconds (policy_of pc)) p d now
      (find_flow (pc_flow_manager pc), find_source (pc_flow_manager pc)) =
    (fst (observe_packet p d now (pc_flow_manager pc)), find_flow fm', find_source fm')"
    "same_shape (pc_flow_manager pc) fm'" "fm_inv fm'"
  using observe_packet_refines [OF assms(1), of p d now] fm_step_shape [of "pc_flow_manager pc" "Observe p d now"]
    observe_packet_inv [OF assms(1), of p d now] assms(2)
  by (simp_all add: fm_abs_def policy_of_def)

lemma check_violation: "(check rules st = None) = list_all (\<lambda>r. \<not> is_match r st) rules"
  by (simp add: check_None list_all_iff)

lemma discard_shape: "same_shape fm (discard_source_flows src fm)"
  using fm_step_shape [of fm "Discard src"] by simp

lemma shape_trans: "same_shape a b \<Longrightarrow> same_shape b c \<Longrightarrow> same_shape a c"
  by (simp add: same_shape_def)

lemma policy_frame [simp]:
  "policy_of (pc\<lparr>pc_clock_reads := n\<rparr>) = policy_of pc"
  "policy_of (pc\<lparr>pc_stats := st\<rparr>) = policy_of pc"
  "policy_of (pc\<lparr>pc_block_list := bl\<rparr>) = policy_of pc"
  "policy_of (pc\<lparr>pc_handler_calls := hs\<rparr>) = policy_of pc"
  "policy_of (pc\<lparr>pc_consumer := c\<rparr>) = policy_of pc"
  by (simp_all add: policy_of_def)

text \<open>Blocking a source: its conversations are dropped and it is put on the block list.\<close>

lemma block_refines:
  assumes "fm_inv (pc_flow_manager pc)"
  shows "abs_sensor (pc\<lparr>pc_flow_manager := discard_source_flows ip (pc_flow_manager pc),
      pc_block_list := block ip (pc_block_ttl_seconds pc) now (pc_block_list pc)\<rparr>) =
    spec_block (policy_of pc) ip now (abs_sensor pc)"
  by (simp add: spec_block_def abstraction discard_source_flows_refines [OF assms] block_map_block)

lemma inbound_refines:
  assumes "fm_inv (pc_flow_manager pc)" "has_ports p" "\<not> is_whitelisted (pc_whitelist pc) (src_ip (tuple p))"
    "\<not> is_blocked (pc_block_list pc) (src_ip (tuple p)) now"
    and "fm' = snd (observe_packet p INBOUND now (pc_flow_manager pc))"
    and "stats = fst (observe_packet p INBOUND now (pc_flow_manager pc))"
  shows "handle_inbound ops clock p now pc =
    (let pc' = pc\<lparr>pc_flow_manager := fm'\<rparr>; src = src_ip (tuple p) in
     if case stats of None \<Rightarrow> False | Some st \<Rightarrow> check (pc_rule_engine pc) st \<noteq> None
     then (False, pc'\<lparr>pc_flow_manager := discard_source_flows src fm',
            pc_block_list := block src (pc_block_ttl_seconds pc) now (pc_block_list pc),
            pc_stats := (pc_stats pc)\<lparr>cs_rule_blocks := cs_rule_blocks (pc_stats pc) + 1\<rparr>\<rparr>)
     else (True, finish_flow ops clock p pc'))"
  using assms by (auto simp: handle_inbound_def Let_def split_beta split: option.split)

lemma abs_reads: "abs_sensor (pc\<lparr>pc_clock_reads := n\<rparr>) = (abs_sensor pc)\<lparr>se_reads := n\<rparr>"
  by (simp add: abs_sensor_def)

lemma abs_stats: "abs_sensor (pc\<lparr>pc_stats := st\<rparr>) = (abs_sensor pc)\<lparr>se_stats := st\<rparr>"
  by (simp add: abs_sensor_def)

lemma abs_fields [simp]:
  "se_reads (abs_sensor pc) = pc_clock_reads pc" "se_blocked (abs_sensor pc) = block_map (pc_block_list pc)"
  "se_flows (abs_sensor pc) = find_flow (pc_flow_manager pc)"
  "se_sources (abs_sensor pc) = find_source (pc_flow_manager pc)"
  "se_stats (abs_sensor pc) = pc_stats pc" "se_consumer (abs_sensor pc) = pc_consumer pc"
  "po_whitelist (policy_of pc) = pc_whitelist pc" "po_rules (policy_of pc) = pc_rule_engine pc"
  "po_ttl_seconds (policy_of pc) = pc_block_ttl_seconds pc"
  by (simp_all add: abstraction)

lemma packet_refines:
  assumes "fm_inv (pc_flow_manager pc)"
  shows "spec_packet (policy_of pc) ops clock data d (abs_sensor pc) =
      (fst (on_packet ops clock data d pc), abs_sensor (snd (on_packet ops clock data d pc))) \<and>
    policy_of (snd (on_packet ops clock data d pc)) = policy_of pc"
proof (cases "d = UNKNOWN \<or> (\<nexists>p. parse data = Inr (Some p))")
  case True
  then show ?thesis
    by (auto simp: spec_packet_def on_packet_def read_clock_def abs_reads Let_def split: sum.split option.split)
next
  case False
  then obtain p where p: "parse data = Inr (Some p)" and d: "d \<noteq> UNKNOWN" by blast
  let ?now = "clock (pc_clock_reads pc)" and ?pc = "pc\<lparr>pc_clock_reads := Suc (pc_clock_reads pc)\<rparr>"
  let ?far = "if d = INBOUND then src_ip (tuple p) else dst_ip (tuple p)"
  let ?fm = "snd (observe_packet p d ?now (pc_flow_manager pc))"
  let ?obs = "?pc\<lparr>pc_flow_manager := ?fm\<rparr>"
  have inv: "fm_inv (pc_flow_manager ?pc)" using assms by simp
  note obs = observe_abs [OF inv, of ?fm p d ?now]
  have policy: "policy_of ?obs = policy_of pc" using policy_manager [of ?pc ?fm] obs(2) by simp
  have abs: "abs_sensor ?obs = (abs_sensor pc)\<lparr>se_reads := Suc (pc_clock_reads pc), se_flows := find_flow ?fm,
      se_sources := find_source ?fm\<rparr>"
    by (simp add: abs_sensor_def)
  have fin: "abs_sensor (finish_flow ops clock p ?obs) = spec_finish (policy_of pc) ops clock (tuple p) (abs_sensor ?obs)"
    "policy_of (finish_flow ops clock p ?obs) = policy_of pc"
    using finish_refines [of ?obs ops clock p] obs(3) policy by simp_all
  show ?thesis
  proof (cases "is_whitelisted (pc_whitelist pc) ?far \<or> is_blocked (pc_block_list pc) ?far ?now \<or> \<not> has_ports p")
    case True
    with p d show ?thesis
      by (cases d) (auto simp: spec_packet_def on_packet_def read_clock_def abs_reads Let_def handle_inbound_def
        handle_outbound_def blocked_at_map)
  next
    case False
    show ?thesis
    proof (cases "d = INBOUND")
      case True
      let ?st = "fst (observe_packet p INBOUND ?now (pc_flow_manager pc))"
      let ?hit = "case ?st of None \<Rightarrow> False | Some st \<Rightarrow> check (pc_rule_engine pc) st \<noteq> None"
      let ?ds = "discard_source_flows (src_ip (tuple p)) ?fm"
      have step: "handle_inbound ops clock p ?now ?pc = (if ?hit
          then (False, ?obs\<lparr>pc_flow_manager := ?ds, pc_block_list := block (src_ip (tuple p)) (pc_block_ttl_seconds pc) ?now (pc_block_list pc),
                 pc_stats := (pc_stats pc)\<lparr>cs_rule_blocks := cs_rule_blocks (pc_stats pc) + 1\<rparr>\<rparr>)
          else (True, finish_flow ops clock p ?obs))"
        using inbound_refines [OF inv, of p ?now ?fm ?st ops clock] False True
        by (simp add: Let_def cong: option.case_cong)
      have blk: "abs_sensor (?obs\<lparr>pc_flow_manager := ?ds, pc_block_list := block (src_ip (tuple p)) (pc_block_ttl_seconds pc) ?now (pc_block_list pc)\<rparr>) =
          spec_block (policy_of pc) (src_ip (tuple p)) ?now (abs_sensor ?obs)"
        using block_refines [of ?obs "src_ip (tuple p)" ?now] obs(3) policy by simp
      have pol: "policy_of (?obs\<lparr>pc_flow_manager := ?ds\<rparr>) = policy_of pc"
        using policy_manager [of ?obs ?ds] discard_shape policy by simp
      have hit: "(case ?st of None \<Rightarrow> False | Some st \<Rightarrow> \<not> list_all (\<lambda>r. \<not> is_match r st) (po_rules (policy_of pc))) = ?hit"
        by (simp add: check_violation split: option.split)
      have obs_in: "spec_observe (po_max_flows (policy_of pc)) (po_max_sources (policy_of pc)) (po_window_seconds (policy_of pc))
          p INBOUND ?now (find_flow (pc_flow_manager pc), find_source (pc_flow_manager pc)) = (?st, find_flow ?fm, find_source ?fm)"
        using obs(1) True by simp
      show ?thesis
      proof (cases ?hit)
        case h: True
        have "on_packet ops clock data d pc = (False, ?obs\<lparr>pc_flow_manager := ?ds,
            pc_block_list := block (src_ip (tuple p)) (pc_block_ttl_seconds pc) ?now (pc_block_list pc),
            pc_stats := (pc_stats pc)\<lparr>cs_rule_blocks := cs_rule_blocks (pc_stats pc) + 1\<rparr>\<rparr>)"
          unfolding on_packet_def read_clock_def Let_def using p True step h by simp
        moreover have "spec_packet (policy_of pc) ops clock data d (abs_sensor pc) =
            (False, (spec_block (policy_of pc) (src_ip (tuple p)) ?now (abs_sensor ?obs))
              \<lparr>se_stats := (pc_stats pc)\<lparr>cs_rule_blocks := cs_rule_blocks (pc_stats pc) + 1\<rparr>\<rparr>)"
          using False True p h hit obs_in abs by (simp add: spec_packet_def Let_def blocked_at_map)
        ultimately show ?thesis using blk pol by (simp add: abs_stats)
      next
        case h: False
        have "on_packet ops clock data d pc = (True, finish_flow ops clock p ?obs)"
          unfolding on_packet_def read_clock_def Let_def using p True step h by simp
        moreover have "spec_packet (policy_of pc) ops clock data d (abs_sensor pc) =
            (True, spec_finish (policy_of pc) ops clock (tuple p) (abs_sensor ?obs))"
          using False True p h hit obs_in abs by (simp add: spec_packet_def Let_def blocked_at_map)
        ultimately show ?thesis using fin by simp
      qed
    next
      case out: False
      then show ?thesis
        using False d p obs(1) fin abs
        by (cases d) (simp_all add: spec_packet_def on_packet_def read_clock_def Let_def blocked_at_map handle_outbound_def)
    qed
  qed
qed

lemma decision_refines:
  assumes "fm_inv (pc_flow_manager pc)"
  shows "abs_sensor (apply_decision now d pc) = spec_decision (policy_of pc) now d (abs_sensor pc) \<and>
    policy_of (apply_decision now d pc) = policy_of pc \<and> fm_inv (pc_flow_manager (apply_decision now d pc))"
proof -
  let ?src = "src_ip (r_key (ad_record d))"
  have pol: "policy_of (pc\<lparr>pc_flow_manager := discard_source_flows ?src (pc_flow_manager pc)\<rparr>) = policy_of pc"
    by (rule policy_manager [OF discard_shape])
  have blk: "spec_block (policy_of pc) ?src now (abs_sensor pc) =
      abs_sensor (pc\<lparr>pc_flow_manager := discard_source_flows ?src (pc_flow_manager pc),
        pc_block_list := block ?src (pc_block_ttl_seconds pc) now (pc_block_list pc)\<rparr>)"
    by (rule block_refines [OF assms, symmetric])
  show ?thesis
    using assms pol discard_source_flows_refines(3) [OF assms]
    by (simp add: apply_decision_def spec_decision_def Let_def blocked_at_map abs_stats blk)
      (auto simp: abstraction)
qed

lemma decisions_refine:
  assumes "fm_inv (pc_flow_manager pc)"
  shows "abs_sensor (fold (apply_decision now) ds pc) = fold (spec_decision (policy_of pc) now) ds (abs_sensor pc) \<and>
    policy_of (fold (apply_decision now) ds pc) = policy_of pc \<and>
    fm_inv (pc_flow_manager (fold (apply_decision now) ds pc))"
  using assms
proof (induction ds arbitrary: pc)
  case (Cons d ds)
  then show ?case using decision_refines [OF Cons.prems, of now d] by simp
qed simp

text \<open>The sweep is one of the choices a tick leaves open.\<close>

lemma sweep_choices:
  assumes "fm_inv fm"
  shows "idle_flows now (find_flow fm) (fst (cleanup_expired now fm))"
    "find_flow (snd (cleanup_expired now fm)) =
      forget ((\<lambda>e. f_key (e_flow e)) ` set (fst (cleanup_expired now fm))) (find_flow fm)"
    "find_source (snd (cleanup_expired now fm)) = forget (doomed_sources now fm) (find_source fm)"
    "\<forall>ip \<in> doomed_sources now fm. \<exists>st. find_source fm ip = Some st \<and> now - window_start st \<ge> seconds (fm_window_seconds fm)"
proof -
  note rep = cleanup_expired_reports [OF assms, where now = now] and key = flows_okD [OF fm_invD(3) [OF assms]]
  have "(\<lambda>e. f_key (e_flow e)) ` set (fst (cleanup_expired now fm)) = doomed_flows now fm"
  proof (intro set_eqI iffI)
    fix k assume "k \<in> doomed_flows now fm"
    moreover then obtain f where f: "find_flow fm k = Some f" using doomed_flow_expired [OF assms] by blast
    ultimately have "\<lparr>e_flow = f, e_reason = TIMEOUT\<rparr> \<in> set (fst (cleanup_expired now fm))" using rep(2) by auto
    then show "k \<in> (\<lambda>e. f_key (e_flow e)) ` set (fst (cleanup_expired now fm))" using key [OF f] by force
  qed (auto simp: rep(2) dest: key)
  then show "find_flow (snd (cleanup_expired now fm)) =
      forget ((\<lambda>e. f_key (e_flow e)) ` set (fst (cleanup_expired now fm))) (find_flow fm)"
    by (simp add: cleanup_expired_find(1) [OF assms] forget_def)
  show "find_source (snd (cleanup_expired now fm)) = forget (doomed_sources now fm) (find_source fm)"
    by (simp add: cleanup_expired_find(2) [OF assms] forget_def)
  show "idle_flows now (find_flow fm) (fst (cleanup_expired now fm))"
    using rep key doomed_flow_expired [OF assms]
    by (fastforce simp: idle_flows_def flow_expired_def FLOW_TIMEOUT_SEC_def)
  show "\<forall>ip \<in> doomed_sources now fm. \<exists>st. find_source fm ip = Some st \<and> now - window_start st \<ge> seconds (fm_window_seconds fm)"
    using doomed_source_expired [OF assms] by (auto simp: source_expired_def)
qed

lemma release_choices:
  assumes "bl_inv bl"
  shows "block_map (block_cleanup now bl) =
      forget {ip. block_map bl ip \<noteq> None \<and> block_map (block_cleanup now bl) ip = None} (block_map bl)"
    "block_map bl ip \<noteq> None \<Longrightarrow> block_map (block_cleanup now bl) ip = None \<Longrightarrow> \<exists>t. block_map bl ip = Some t \<and> t \<le> now"
proof -
  note map = cleanup_map [OF assms, of now]
  show "block_map (block_cleanup now bl) =
      forget {ip. block_map bl ip \<noteq> None \<and> block_map (block_cleanup now bl) ip = None} (block_map bl)"
  proof
    fix ip
    show "block_map (block_cleanup now bl) ip =
        forget {ip. block_map bl ip \<noteq> None \<and> block_map (block_cleanup now bl) ip = None} (block_map bl) ip"
      using map [of ip] by (auto simp: forget_def)
  qed
  show "\<exists>t. block_map bl ip = Some t \<and> t \<le> now" if "block_map bl ip \<noteq> None" "block_map (block_cleanup now bl) ip = None"
    using map [of ip] that by auto
qed

lemma tick_refines:
  assumes "pc_inv pc"
  shows "spec_step (policy_of pc) ops clock Tick (abs_sensor pc) None (abs_sensor (on_tick ops clock pc)) \<and>
    policy_of (on_tick ops clock pc) = policy_of pc"
proof -
  let ?now = "clock (pc_clock_reads pc)"
  obtain ds c where drain: "fc_drain ops (pc_consumer pc) = (ds, c)" by fastforce
  let ?pc0 = "pc\<lparr>pc_clock_reads := Suc (pc_clock_reads pc), pc_consumer := c\<rparr>"
  let ?pc1 = "apply_ai_decisions ops ?now (snd (read_clock clock pc))"
  let ?ended = "fst (cleanup_expired ?now (pc_flow_manager ?pc1))"
  let ?fm = "snd (cleanup_expired ?now (pc_flow_manager ?pc1))"
  let ?pc2 = "tick_flows ops clock ?now ?pc1"
  have pc1: "?pc1 = fold (apply_decision ?now) ds ?pc0"
    by (simp add: apply_ai_decisions_def read_clock_def drain)
  have "fm_inv (pc_flow_manager ?pc0)" using pc_invD(1) [OF assms] by simp
  note dec = decisions_refine [OF this, of ?now ds, folded pc1]
  then have fm: "fm_inv (pc_flow_manager ?pc1)" by simp
  have shape: "same_shape (pc_flow_manager ?pc1) ?fm"
    using fm_step_shape [of "pc_flow_manager ?pc1" "Cleanup ?now"] by simp
  note sub = submit_all_refines [of ops clock ?ended "?pc1\<lparr>pc_flow_manager := ?fm\<rparr>", unfolded policy_manager [OF shape] abs_manager]
  have pc2: "?pc2 = fold (consume_flow ops clock) ?ended (?pc1\<lparr>pc_flow_manager := ?fm\<rparr>)"
    by (simp add: tick_flows_def split_beta Let_def)
  have policy: "policy_of ?pc1 = policy_of pc" using dec by simp
  have inv: "bl_inv (pc_block_list ?pc2)"
    using pc_invD(2) [OF pc_inv_apply_ai_decisions [OF pc_inv_read_clock [OF assms]]] flow_side_tick_flows [of ?pc1]
    by (simp add: flow_side_def)
  let ?released = "{ip. block_map (pc_block_list ?pc2) ip \<noteq> None \<and>
      block_map (block_cleanup ?now (pc_block_list ?pc2)) ip = None}"
  have tick: "on_tick ops clock pc = ?pc2\<lparr>pc_block_list := block_cleanup ?now (pc_block_list ?pc2)\<rparr>"
    by (simp add: on_tick_parts Let_def)
  have "abs_sensor (on_tick ops clock pc) = (abs_sensor ?pc2)\<lparr>se_blocked := forget ?released (se_blocked (abs_sensor ?pc2))\<rparr>"
    unfolding tick using release_choices(1) [OF inv, of ?now] by (simp add: abs_sensor_def)
  moreover have "spec_step (policy_of pc) ops clock Tick (abs_sensor pc) None
      ((abs_sensor ?pc2)\<lparr>se_blocked := forget ?released (se_blocked (abs_sensor ?pc2))\<rparr>)"
  proof (rule Tick_comes)
    show "clock (pc_clock_reads pc) = clock (se_reads (abs_sensor pc))" by simp
    show "fc_drain ops (se_consumer (abs_sensor pc)) = (ds, c)" by (simp add: drain)
    show "abs_sensor ?pc1 = fold (spec_decision (policy_of pc) ?now) ds
        ((abs_sensor pc)\<lparr>se_reads := Suc (se_reads (abs_sensor pc)), se_consumer := c\<rparr>)"
      using dec by (simp add: abs_sensor_def [of ?pc0] abs_sensor_def [of pc])
    show "idle_flows ?now (se_flows (abs_sensor ?pc1)) ?ended" by (simp add: sweep_choices(1) [OF fm])
    show "\<forall>ip \<in> doomed_sources ?now (pc_flow_manager ?pc1). \<exists>st. se_sources (abs_sensor ?pc1) ip = Some st \<and>
        ?now - window_start st \<ge> seconds (po_window_seconds (policy_of pc))"
      using sweep_choices(4) [OF fm, of ?now] policy by (auto simp: policy_of_def)
    show "abs_sensor ?pc2 = fold (spec_submit (policy_of pc) ops clock) ?ended
        ((abs_sensor ?pc1)\<lparr>se_flows := forget ((\<lambda>e. f_key (e_flow e)) ` set ?ended) (se_flows (abs_sensor ?pc1)),
           se_sources := forget (doomed_sources ?now (pc_flow_manager ?pc1)) (se_sources (abs_sensor ?pc1))\<rparr>)"
      using sub policy unfolding pc2 by (simp add: sweep_choices(2,3) [OF fm])
    show "\<forall>ip \<in> ?released. \<exists>t. se_blocked (abs_sensor ?pc2) ip = Some t \<and> t \<le> ?now"
      using release_choices(2) [OF inv] by simp
  qed
  moreover have "policy_of (on_tick ops clock pc) = policy_of pc"
    unfolding tick using sub policy by (simp add: pc2)
  ultimately show ?thesis by simp
qed

lemma step_refines:
  assumes "pc_inv pc"
  shows "spec_step (policy_of pc) ops clock ev (abs_sensor pc)
      (case ev of Packet data d \<Rightarrow> Some (fst (on_packet ops clock data d pc)) | _ \<Rightarrow> None)
      (abs_sensor (pc_step ops clock ev pc)) \<and>
    policy_of (pc_step ops clock ev pc) = policy_of pc"
proof (cases ev)
  case (Packet data d)
  then show ?thesis using packet_refines [OF pc_invD(1) [OF assms], of ops clock data d] by (auto intro: Packet_comes)
next
  case Tick
  then show ?thesis using tick_refines [OF assms] by simp
next
  case (Consumer_runs f)
  have "abs_sensor (pc\<lparr>pc_consumer := f (pc_consumer pc)\<rparr>) =
      (abs_sensor pc)\<lparr>se_consumer := f (se_consumer (abs_sensor pc))\<rparr>"
    by (simp add: abs_sensor_def)
  with Consumer_runs show ?thesis using Others_run [of "policy_of pc" ops clock f "abs_sensor pc"] by simp
qed

text \<open>C4. The sensor implements its specification: a run of the pipeline, with its hash tables, its index,
  its incremental sweep and its heap of expiries, is a run of the sensor on finite maps, step by step
  with the same verdicts, the same calls of the consumer, the same counters and the same notices. What
  the tables leave for a later tick is the only freedom of the specification.\<close>

theorem sensor_refines_spec:
  assumes "pc_inv pc"
  shows "spec_run (policy_of pc) ops clock evs (abs_sensor pc) (pc_verdicts ops clock evs pc)
    (abs_sensor (pc_run ops clock evs pc))"
  using assms
proof (induction evs arbitrary: pc)
  case (Cons ev evs)
  from Spec_goes_on [OF conjunct1 [OF step_refines [OF Cons.prems]] Cons.IH [OF pc_inv_step [OF Cons.prems], where ev1 = ev,
      unfolded conjunct2 [OF step_refines [OF Cons.prems]]]]
  show ?case by simp
qed (simp add: Spec_ends)

text \<open>A new sensor remembers nothing; this one drops its first packet, and then a tick comes.\<close>

theorem sensor_refines_spec_witness:
  "spec_run (policy_of (sample_sensor {})) logging_consumer int [Packet (Some udp_sample) INBOUND, Tick]
     (abs_sensor (sample_sensor {})) [Some False, None]
     (abs_sensor (pc_run logging_consumer int [Packet (Some udp_sample) INBOUND, Tick] (sample_sensor {})))"
proof -
  obtain p where p: "parse (Some udp_sample) = Inr (Some p)" "has_ports p" using parse_udp_sample by blast
  have "pc_whitelist (sample_sensor {}) = {}" "pc_block_list (sample_sensor {}) = block_list_empty"
    "pc_clock_reads (sample_sensor {}) = 1"
    by (simp_all add: sample_sensor_def new_packet_capture_def)
  then have "\<not> fst (on_packet logging_consumer int (Some udp_sample) INBOUND (sample_sensor {}))"
    using sample_sensor_hits [of p 1 "{}"] p
    by (auto simp: on_packet_def read_clock_def handle_inbound_def rule_hit_def Let_def split_beta
        is_whitelisted_def is_blocked_def block_list_empty_def split: option.splits)
  then have "pc_verdicts logging_consumer int [Packet (Some udp_sample) INBOUND, Tick] (sample_sensor {}) = [Some False, None]"
    by simp
  then show ?thesis
    using sensor_refines_spec [OF sample_sensor_inv, of "{}" logging_consumer int
        "[Packet (Some udp_sample) INBOUND, Tick]"] by simp
qed

section \<open>A silent model\<close>

text \<open>Two pipelines that differ in the consumer only, whatever its type.\<close>

definition alike :: "'c packet_capture \<Rightarrow> 'd packet_capture \<Rightarrow> bool" where
  "alike pc pd \<longleftrightarrow>
     policy_of pc = policy_of pd \<and> pc_flow_manager pc = pc_flow_manager pd \<and>
     pc_block_list pc = pc_block_list pd \<and> pc_stats pc = pc_stats pd \<and>
     pc_handler_calls pc = pc_handler_calls pd \<and> pc_next_flow_sequence pc = pc_next_flow_sequence pd \<and>
     pc_clock_reads pc = pc_clock_reads pd"

lemma alikeD:
  assumes "alike pc pd"
  shows "pc_flow_manager pc = pc_flow_manager pd" "pc_block_list pc = pc_block_list pd"
    "pc_whitelist pc = pc_whitelist pd" "pc_rule_engine pc = pc_rule_engine pd"
    "pc_block_ttl_seconds pc = pc_block_ttl_seconds pd" "pc_stats pc = pc_stats pd"
    "pc_clock_reads pc = pc_clock_reads pd"
  using assms by (simp_all add: alike_def policy_of_def)

lemma alike_same_update:
  assumes "alike pc pd"
  shows "alike (pc\<lparr>pc_flow_manager := fm\<rparr>) (pd\<lparr>pc_flow_manager := fm\<rparr>)"
    "alike (pc\<lparr>pc_clock_reads := n\<rparr>) (pd\<lparr>pc_clock_reads := n\<rparr>)"
    "alike (pc\<lparr>pc_block_list := bl\<rparr>) (pd\<lparr>pc_block_list := bl\<rparr>)"
    "alike (pc\<lparr>pc_stats := st\<rparr>) (pd\<lparr>pc_stats := st\<rparr>)"
    "alike (pc\<lparr>pc_consumer := c\<rparr>) pd" "alike pc (pd\<lparr>pc_consumer := e\<rparr>)"
  using assms by (simp_all add: alike_def policy_of_def)

lemma alike_submit: "alike pc pd \<Longrightarrow> alike (consume_flow opc clock e pc) (consume_flow opd clock e pd)"
  by (simp add: consume_flow_def alike_def policy_of_def read_clock_def next_flow_id_def Let_def)

lemma alike_submit_all:
  "alike pc pd \<Longrightarrow> alike (fold (consume_flow opc clock) es pc) (fold (consume_flow opd clock) es pd)"
  by (induction es arbitrary: pc pd) (simp_all add: alike_submit)

lemma alike_finish: "alike pc pd \<Longrightarrow> alike (finish_flow opc clock p pc) (finish_flow opd clock p pd)"
  using alikeD(1) [of pc pd]
  by (auto simp: finish_flow_def alike_same_update alike_submit split: prod.split option.split)

lemma alike_packet:
  assumes "alike pc pd"
  shows "fst (on_packet opc clock data d pc) = fst (on_packet opd clock data d pd) \<and>
    alike (snd (on_packet opc clock data d pc)) (snd (on_packet opd clock data d pd))"
  using assms alikeD [OF assms]
  by (auto simp: on_packet_def handle_inbound_def handle_outbound_def read_clock_def Let_def split_beta
      intro!: alike_same_update alike_finish split: sum.split option.split)

definition no_anomaly :: "'c flow_consumer \<Rightarrow> 'c \<Rightarrow> bool" where
  "no_anomaly ops c \<longleftrightarrow> list_all (\<lambda>d. \<not> ad_anomaly d) (fst (fc_drain ops c))"

lemma no_anomaly_decisions:
  assumes "no_anomaly ops (pc_consumer pc)"
  shows "apply_ai_decisions ops now pc = pc\<lparr>pc_consumer := snd (fc_drain ops (pc_consumer pc))\<rparr>"
proof -
  have "fold (apply_decision now) ds pc = pc" if "list_all (\<lambda>d. \<not> ad_anomaly d) ds" for ds and pc :: "'a packet_capture"
    using that by (induction ds) (simp_all add: apply_decision_def Let_def)
  with assms show ?thesis by (simp add: apply_ai_decisions_def no_anomaly_def split_beta Let_def)
qed

lemma alike_tick:
  assumes "alike pc pd" "no_anomaly opc (pc_consumer pc)" "no_anomaly opd (pc_consumer pd)"
  shows "alike (on_tick opc clock pc) (on_tick opd clock pd)"
proof -
  have "apply_ai_decisions opc now (pc\<lparr>pc_clock_reads := n\<rparr>) =
      pc\<lparr>pc_clock_reads := n, pc_consumer := snd (fc_drain opc (pc_consumer pc))\<rparr>"
    "apply_ai_decisions opd now (pd\<lparr>pc_clock_reads := n\<rparr>) =
      pd\<lparr>pc_clock_reads := n, pc_consumer := snd (fc_drain opd (pc_consumer pd))\<rparr>" for now n
    using assms(2,3) by (simp_all add: no_anomaly_decisions)
  note dec = this
  let ?now = "clock (pc_clock_reads pc)"
  let ?c = "apply_ai_decisions opc ?now (pc\<lparr>pc_clock_reads := Suc (pc_clock_reads pc)\<rparr>)"
  let ?d = "apply_ai_decisions opd ?now (pd\<lparr>pc_clock_reads := Suc (pc_clock_reads pd)\<rparr>)"
  have "alike ?c ?d"
    using assms(1) alikeD(7) [OF assms(1)] by (simp add: dec alike_same_update)
  then have "alike (tick_flows opc clock ?now ?c) (tick_flows opd clock ?now ?d)"
    using alikeD(1) [of ?c ?d] by (simp add: tick_flows_def split_beta Let_def alike_same_update alike_submit_all)
  then show ?thesis
    using alikeD(2) [of "tick_flows opc clock ?now ?c" "tick_flows opd clock ?now ?d"] alikeD(7) [OF assms(1)]
    by (simp add: on_tick_parts read_clock_def Let_def alike_same_update)
qed

text \<open>A run in which no tick gets an anomaly from the consumer, and the same packets and ticks for a
  pipeline that has nobody to ask.\<close>

fun silent :: "'c flow_consumer \<Rightarrow> (nat \<Rightarrow> time_point) \<Rightarrow> 'c capture_event list \<Rightarrow> 'c packet_capture \<Rightarrow> bool" where
  "silent ops clock [] pc \<longleftrightarrow> True"
| "silent ops clock (ev # evs) pc \<longleftrightarrow>
     (case ev of Tick \<Rightarrow> no_anomaly ops (pc_consumer pc) | _ \<Rightarrow> True) \<and> silent ops clock evs (pc_step ops clock ev pc)"

fun alone :: "'c capture_event \<Rightarrow> 'd capture_event" where
  "alone (Packet data d) = Packet data d"
| "alone Tick = Tick"
| "alone (Consumer_runs f) = Consumer_runs (\<lambda>c. c)"

lemma no_anomaly_logged: "no_anomaly logging_consumer c"
  by (simp add: no_anomaly_def logging_consumer_def no_decisions_def)

lemma silent_run:
  assumes "silent ops clock evs pc" "alike pc pd"
  shows "pc_verdicts ops clock evs pc = pc_verdicts logging_consumer clock (map alone evs) pd \<and>
    alike (pc_run ops clock evs pc) (pc_run logging_consumer clock (map alone evs) pd)"
  using assms
proof (induction evs arbitrary: pc pd)
  case (Cons ev evs)
  have "alike (pc_step ops clock ev pc) (pc_step logging_consumer clock (alone ev) pd)"
    using Cons.prems by (cases ev) (simp_all add: alike_packet alike_tick no_anomaly_logged alike_same_update)
  with Cons.prems(1) Cons.IH [of "pc_step ops clock ev pc" "pc_step logging_consumer clock (alone ev) pd"]
  show ?case using alike_packet [OF Cons.prems(2)] by (cases ev) auto
qed simp

text \<open>C5. The model can add blocks and nothing else: as long as it accuses nobody, because it is slow, is
  offline, fails or finds nothing, every packet gets the verdict the rules alone would give it, and the
  block list, the tables and the counters are those of a sensor without a model.\<close>

theorem silent_model_changes_nothing:
  assumes "silent ops clock evs (new_packet_capture reserved clock wall cfg wl c h)"
  shows "let rules_only = new_packet_capture reserved clock wall cfg wl [] h in
    pc_verdicts ops clock evs (new_packet_capture reserved clock wall cfg wl c h) =
      pc_verdicts logging_consumer clock (map alone evs) rules_only \<and>
    alike (pc_run ops clock evs (new_packet_capture reserved clock wall cfg wl c h))
      (pc_run logging_consumer clock (map alone evs) rules_only)"
proof -
  have "alike (new_packet_capture reserved clock wall cfg wl c h)
      (new_packet_capture reserved clock wall cfg wl ([] :: flow_record list) h)"
    by (simp add: alike_def policy_of_def new_packet_capture_def)
  from silent_run [OF assms this] show ?thesis by (simp add: Let_def)
qed

theorem silent_model_changes_nothing_witness:
  "pc_verdicts decided int [Tick, Packet (Some udp_sample) INBOUND] (new_packet_capture Suc int 0 default_config {} [] False) =
     pc_verdicts logging_consumer int [Tick, Packet (Some udp_sample) INBOUND]
       (new_packet_capture Suc int 0 default_config {} [] False)"
proof -
  have "silent decided int [Tick, Packet (Some udp_sample) INBOUND]
      (new_packet_capture Suc int 0 default_config {} [] False)"
    by (simp add: no_anomaly_def decided_def new_packet_capture_def)
  from silent_model_changes_nothing [OF this] show ?thesis by (simp add: Let_def)
qed

end
