(* ===== verification/Online_Server.thy ===== *)
theory Online_Server
  imports Json Ieee_Double
begin

text \<open>
  ml/online_server.py, with ml/features.py and the metadata check of ml/artifacts.py: the Python process
  that scores flows. It answers one request at a time: it checks the request, lets the model score it,
  and answers with the verdict or with the code of the first contract error; any other exception ends
  it. The model with its scaler (torch and numpy), json.loads, ipaddress and float() of a text are
  parameters. An exception is the left value of a sum.
\<close>

section \<open>Values\<close>

datatype py =
    PNone
  | PBool bool
  | PInt int
  | PFloat double
  | PStr string
  | PList "py list"
  | PDict "(string \<times> py) list"

datatype py_error = Request_error string | Other_error

text \<open>\<open>request.get(key)\<close>, and \<open>==\<close> with an integer, which compares numbers of all kinds, booleans too.\<close>

definition py_get :: "py \<Rightarrow> string \<Rightarrow> py" where
  "py_get d key =
     (case d of PDict ms \<Rightarrow> (case map_of ms key of None \<Rightarrow> PNone | Some v \<Rightarrow> v) | _ \<Rightarrow> PNone)"

definition is_dict :: "py \<Rightarrow> bool" where
  "is_dict v = (case v of PDict _ \<Rightarrow> True | _ \<Rightarrow> False)"

definition is_bool :: "py \<Rightarrow> bool" where
  "is_bool v = (case v of PBool _ \<Rightarrow> True | _ \<Rightarrow> False)"

definition py_eq_int :: "py \<Rightarrow> int \<Rightarrow> bool" where
  "py_eq_int v n =
     (case v of PInt i \<Rightarrow> i = n | PBool b \<Rightarrow> of_bool b = n | PFloat (Finite x) \<Rightarrow> x = of_int n | _ \<Rightarrow> False)"

text \<open>A list or a dict has no hash, so that looking it up in a set raises \<open>TypeError\<close>.\<close>

definition hashable :: "py \<Rightarrow> bool" where
  "hashable v = (case v of PList _ \<Rightarrow> False | PDict _ \<Rightarrow> False | _ \<Rightarrow> True)"

text \<open>The conversion of an integer to a double rounds, and raises \<open>OverflowError\<close> out of range.\<close>

definition float_of_int :: "int \<Rightarrow> double option" where
  "float_of_int i = (let x = fl (of_int i) in if \<bar>x\<bar> < 2 ^ 1024 then Some (Finite x) else None)"

fun double_less :: "double \<Rightarrow> double \<Rightarrow> bool" where
  "double_less (Finite a) (Finite b) \<longleftrightarrow> a < b"
| "double_less NegInf (Finite b) \<longleftrightarrow> True"
| "double_less NegInf PosInf \<longleftrightarrow> True"
| "double_less (Finite a) PosInf \<longleftrightarrow> True"
| "double_less _ _ \<longleftrightarrow> False"

section \<open>The contract of the artifacts\<close>

definition FEATURE_SCHEMA_VERSION :: int where "FEATURE_SCHEMA_VERSION = 1"

definition FEATURES :: "string list" where
  "FEATURES =
     [''Flow Duration'', ''Total Fwd Packets'', ''Total Backward Packets'', ''Total Length of Fwd Packets'',
      ''Total Length of Bwd Packets'', ''Fwd Packet Length Max'', ''Fwd Packet Length Min'',
      ''Fwd Packet Length Mean'', ''Fwd Packet Length Std'', ''Bwd Packet Length Max'',
      ''Bwd Packet Length Min'', ''Bwd Packet Length Mean'', ''Bwd Packet Length Std'', ''Fwd IAT Mean'',
      ''Fwd IAT Std'', ''Fwd IAT Max'', ''Fwd IAT Min'', ''Bwd IAT Mean'', ''Bwd IAT Std'', ''Bwd IAT Max'',
      ''Bwd IAT Min'', ''FIN Flag Count'', ''SYN Flag Count'', ''RST Flag Count'', ''PSH Flag Count'',
      ''ACK Flag Count'', ''URG Flag Count'']"

text \<open>\<open>ar_model\<close> is the scaling and the reconstruction error; it is \<open>None\<close> when it raises.\<close>

record artifacts =
  ar_model :: "double list \<Rightarrow> double option"
  ar_threshold :: double
  ar_feature_schema_version :: int
  ar_model_version :: string

definition to_float :: "(string \<Rightarrow> double option) \<Rightarrow> py \<Rightarrow> double option" where
  "to_float float_of_text v =
     (case v of PInt i \<Rightarrow> float_of_int i | PBool b \<Rightarrow> Some (Finite (of_bool b)) | PFloat d \<Rightarrow> Some d
      | PStr s \<Rightarrow> float_of_text s | _ \<Rightarrow> None)"

text \<open>\<open>None\<close> when an exception is raised, which is before the process announces itself. A member that is
  missing is no member that equals what is asked for, a string or a number.\<close>

definition load_metadata :: "(string \<Rightarrow> double option) \<Rightarrow> py \<Rightarrow> (double \<times> string) option" where
  "load_metadata float_of_text metadata =
     (if \<not> is_dict metadata then None
      else if py_get metadata ''features'' \<noteq> PList (map PStr FEATURES) then None
      else if \<not> py_eq_int (py_get metadata ''n_features'') (int (length FEATURES)) then None
      else if \<not> py_eq_int (py_get metadata ''feature_schema_version'') FEATURE_SCHEMA_VERSION then None
      else case py_get metadata ''model_version'' of
        PStr model_version \<Rightarrow>
          if model_version = [] then None
          else (case to_float float_of_text (py_get metadata ''threshold'') of
            None \<Rightarrow> None
          | Some threshold \<Rightarrow>
              if \<not> isfinite threshold \<or> double_less threshold (Finite 0) then None
              else Some (threshold, model_version))
      | _ \<Rightarrow> None)"

definition load_artifacts ::
    "(string \<Rightarrow> double option) \<Rightarrow> py \<Rightarrow> (double list \<Rightarrow> double option) \<Rightarrow> artifacts option" where
  "load_artifacts float_of_text metadata model =
     map_option (\<lambda>(threshold, model_version).
         \<lparr>ar_model = model, ar_threshold = threshold,
          ar_feature_schema_version = FEATURE_SCHEMA_VERSION, ar_model_version = model_version\<rparr>)
       (load_metadata float_of_text metadata)"

section \<open>Checking a request\<close>

definition INVALID_JSON :: string where "INVALID_JSON = ''INVALID_JSON''"
definition INVALID_FIELD :: string where "INVALID_FIELD = ''INVALID_FIELD''"
definition SCHEMA_MISMATCH :: string where "SCHEMA_MISMATCH = ''SCHEMA_MISMATCH''"
definition FEATURE_SCHEMA_MISMATCH :: string where "FEATURE_SCHEMA_MISMATCH = ''FEATURE_SCHEMA_MISMATCH''"
definition FEATURE_COUNT_MISMATCH :: string where "FEATURE_COUNT_MISMATCH = ''FEATURE_COUNT_MISMATCH''"
definition NONFINITE_FEATURE :: string where "NONFINITE_FEATURE = ''NONFINITE_FEATURE''"

definition require_integer :: "py \<Rightarrow> string \<Rightarrow> int \<Rightarrow> int \<Rightarrow> py_error + int" where
  "require_integer request key minimum maximum =
     (case py_get request key of
        PInt v \<Rightarrow> if v < minimum \<or> maximum < v then Inl (Request_error INVALID_FIELD) else Inr v
      | _ \<Rightarrow> Inl (Request_error INVALID_FIELD))"

datatype ip_version = IPv4 | IPv6

definition require_ipv4 :: "(string \<Rightarrow> ip_version option) \<Rightarrow> py \<Rightarrow> string \<Rightarrow> py_error + unit" where
  "require_ipv4 ip_address request key =
     (case py_get request key of
        PStr s \<Rightarrow> if ip_address s = Some IPv4 then Inr () else Inl (Request_error INVALID_FIELD)
      | _ \<Rightarrow> Inl (Request_error INVALID_FIELD))"

definition require_flow_id :: "py \<Rightarrow> py_error + string" where
  "require_flow_id request =
     (case py_get request ''flow_id'' of
        PStr s \<Rightarrow> if s = [] then Inl (Request_error INVALID_FIELD) else Inr s
      | _ \<Rightarrow> Inl (Request_error INVALID_FIELD))"

definition require_schema_versions :: "py \<Rightarrow> artifacts \<Rightarrow> py_error + unit" where
  "require_schema_versions request a =
     (let schema_version = py_get request ''schema_version'';
          feature_schema_version = py_get request ''feature_schema_version'' in
      if \<not> py_eq_int schema_version 1 \<or> is_bool schema_version then Inl (Request_error SCHEMA_MISMATCH)
      else if \<not> py_eq_int feature_schema_version (ar_feature_schema_version a) \<or> is_bool feature_schema_version
      then Inl (Request_error FEATURE_SCHEMA_MISMATCH)
      else Inr ())"

definition require_end_reason :: "py \<Rightarrow> py_error + unit" where
  "require_end_reason request =
     (let end_reason = py_get request ''end_reason'' in
      if \<not> hashable end_reason then Inl Other_error
      else if end_reason \<notin> {PStr ''tcp_fin'', PStr ''tcp_reset'', PStr ''timeout''}
      then Inl (Request_error INVALID_FIELD)
      else Inr ())"

definition require_flow_metadata :: "(string \<Rightarrow> ip_version option) \<Rightarrow> py \<Rightarrow> py_error + unit" where
  "require_flow_metadata ip_address request =
     ebind (require_ipv4 ip_address request ''src_ip'') (\<lambda>_.
     ebind (require_ipv4 ip_address request ''dst_ip'') (\<lambda>_.
     ebind (require_integer request ''src_port'' 0 65535) (\<lambda>_.
     ebind (require_integer request ''dst_port'' 0 65535) (\<lambda>_.
     ebind (require_integer request ''protocol'' 0 255) (\<lambda>_.
     ebind (require_integer request ''first_seen_ms'' 0 (2 ^ 63 - 1)) (\<lambda>first_seen_ms.
     ebind (require_integer request ''last_seen_ms'' 0 (2 ^ 63 - 1)) (\<lambda>last_seen_ms.
       if last_seen_ms < first_seen_ms then Inl (Request_error INVALID_FIELD)
       else require_end_reason request)))))))"

text \<open>The types of all values are checked before the first is converted.\<close>

fun feature_value :: "py \<Rightarrow> double option" where
  "feature_value (PInt i) = float_of_int i"
| "feature_value (PFloat d) = Some d"
| "feature_value _ = None"

definition is_feature :: "py \<Rightarrow> bool" where
  "is_feature v = (case v of PInt _ \<Rightarrow> True | PFloat _ \<Rightarrow> True | _ \<Rightarrow> False)"

definition require_features :: "py \<Rightarrow> py_error + double list" where
  "require_features request =
     (case py_get request ''features'' of
        PList vs \<Rightarrow>
          if length vs \<noteq> length FEATURES then Inl (Request_error FEATURE_COUNT_MISMATCH)
          else if \<not> list_all is_feature vs then Inl (Request_error INVALID_FIELD)
          else (case those (map feature_value vs) of
            None \<Rightarrow> Inl (Request_error NONFINITE_FEATURE)
          | Some features \<Rightarrow>
              if list_all isfinite features then Inr features else Inl (Request_error NONFINITE_FEATURE))
      | _ \<Rightarrow> Inl (Request_error FEATURE_COUNT_MISMATCH))"

definition validate_request ::
    "(string \<Rightarrow> ip_version option) \<Rightarrow> py \<Rightarrow> artifacts \<Rightarrow> py_error + string \<times> double list" where
  "validate_request ip_address request a =
     (if \<not> is_dict request then Inl (Request_error INVALID_FIELD)
      else ebind (require_flow_id request) (\<lambda>flow_id.
        ebind (require_schema_versions request a) (\<lambda>_.
        ebind (require_flow_metadata ip_address request) (\<lambda>_.
        ebind (require_features request) (\<lambda>features. Inr (flow_id, features))))))"

section \<open>Answering\<close>

definition verdict_response :: "artifacts \<Rightarrow> string \<Rightarrow> double \<Rightarrow> py" where
  "verdict_response a flow_id score =
     PDict
       [(''schema_version'', PInt 1), (''flow_id'', PStr flow_id),
        (''model_version'', PStr (ar_model_version a)), (''ok'', PBool True),
        (''anomaly'', PBool (double_less (ar_threshold a) score)), (''score'', PFloat score),
        (''threshold'', PFloat (ar_threshold a))]"

definition infer_request :: "(string \<Rightarrow> ip_version option) \<Rightarrow> artifacts \<Rightarrow> py \<Rightarrow> py_error + py" where
  "infer_request ip_address a request =
     ebind (validate_request ip_address request a) (\<lambda>(flow_id, features).
       case ar_model a features of
         None \<Rightarrow> Inl Other_error
       | Some score \<Rightarrow>
           if \<not> isfinite score then Inl Other_error
           else Inr (verdict_response a flow_id score))"

definition error_response :: "artifacts \<Rightarrow> py \<Rightarrow> string \<Rightarrow> py" where
  "error_response a request code =
     PDict
       [(''schema_version'', PInt 1),
        (''flow_id'', PStr (case py_get request ''flow_id'' of PStr s \<Rightarrow> s | _ \<Rightarrow> [])),
        (''model_version'', PStr (ar_model_version a)), (''ok'', PBool False), (''error_code'', PStr code)]"

text \<open>What \<open>json.loads\<close> makes of the bytes: a value, the two errors that are answered (the bytes are no
  UTF-8, or no JSON), or any other exception.\<close>

datatype loaded = Loaded py | Undecodable | Load_raised

definition response_for_payload ::
    "(string \<Rightarrow> loaded) \<Rightarrow> (string \<Rightarrow> ip_version option) \<Rightarrow> artifacts \<Rightarrow> string \<Rightarrow> py option" where
  "response_for_payload loads ip_address a payload =
     (case loads payload of
        Undecodable \<Rightarrow> Some (error_response a PNone INVALID_JSON)
      | Load_raised \<Rightarrow> None
      | Loaded request \<Rightarrow>
          (case infer_request ip_address a request of
             Inr response \<Rightarrow> Some response
           | Inl (Request_error code) \<Rightarrow> Some (error_response a request code)
           | Inl Other_error \<Rightarrow> None))"

text \<open>One turn of the loop: whether a signal has stopped it, the request if one came within the time of a
  receive, and whether the answer can be sent. The loop gives the answers and, once it ends, its
  status.\<close>

record serve_turn =
  rt_stop :: bool
  rt_payload :: "string option"
  rt_sends :: bool

fun serve_requests ::
    "(string \<Rightarrow> loaded) \<Rightarrow> (string \<Rightarrow> ip_version option) \<Rightarrow> artifacts \<Rightarrow> serve_turn list \<Rightarrow> py list \<times> int option" where
  "serve_requests loads ip_address a [] = ([], None)"
| "serve_requests loads ip_address a (t # ts) =
     (if rt_stop t then ([], Some 0)
      else case rt_payload t of
        None \<Rightarrow> serve_requests loads ip_address a ts
      | Some payload \<Rightarrow>
          (case response_for_payload loads ip_address a payload of
             None \<Rightarrow> ([], Some 1)
           | Some response \<Rightarrow>
               if \<not> rt_sends t then ([], Some 1)
               else case serve_requests loads ip_address a ts of
                 (responses, status) \<Rightarrow> (response # responses, status)))"

definition ready_message :: "artifacts \<Rightarrow> py" where
  "ready_message a =
     PDict [(''event'', PStr ''AI_READY''), (''schema_version'', PInt 1),
            (''model_version'', PStr (ar_model_version a))]"

end
