(* ===== verification/Server_Properties.thy ===== *)
theory Server_Properties
  imports Online_Server Ai_Protocol
begin

text \<open>
  The two ends of the exchange: requests and answers of the client in C++ (ai/ai_protocol) and of the
  server in Python (ml/online_server.py). Each side writes JSON text with its own library and reads the
  other's; that a text is read back as what was written is a hypothesis about the two libraries, on the
  very text of the exchange.
\<close>

section \<open>One text, two readers\<close>

text \<open>What Python reads where nlohmann::json wrote, and the other way round. An integer of Python is
  unsigned or signed in C++ where it fits, and a double otherwise; nlohmann writes \<open>null\<close> for a
  double that is not finite.\<close>

fun py_of_json :: "json \<Rightarrow> py" where
  "py_of_json JNull = PNone"
| "py_of_json (JBool b) = PBool b"
| "py_of_json (JUnsigned v) = PInt (uint v)"
| "py_of_json (JInteger v) = PInt (sint v)"
| "py_of_json (JFloat d) = (if isfinite d then PFloat d else PNone)"
| "py_of_json (JString s) = PStr s"
| "py_of_json (JArray js) = PList (map py_of_json js)"
| "py_of_json (JObject ms) = PDict (map (\<lambda>(k, j). (k, py_of_json j)) ms)"

fun json_of_py :: "py \<Rightarrow> json" where
  "json_of_py PNone = JNull"
| "json_of_py (PBool b) = JBool b"
| "json_of_py (PInt i) =
     (if 0 \<le> i \<and> i < 2 ^ 64 then JUnsigned (word_of_int i)
      else if - (2 ^ 63) \<le> i \<and> i < 0 then JInteger (word_of_int i) else JFloat (Finite (fl (of_int i))))"
| "json_of_py (PFloat d) = JFloat d"
| "json_of_py (PStr s) = JString s"
| "json_of_py (PList vs) = JArray (map json_of_py vs)"
| "json_of_py (PDict ms) = JObject (map (\<lambda>(k, v). (k, json_of_py v)) ms)"

definition server_reads :: "(string \<Rightarrow> loaded) \<Rightarrow> (json \<Rightarrow> string) \<Rightarrow> json \<Rightarrow> bool" where
  "server_reads loads json_dump j \<longleftrightarrow> loads (json_dump j) = Loaded (py_of_json j)"

definition client_reads :: "(string \<Rightarrow> json option) \<Rightarrow> (py \<Rightarrow> string) \<Rightarrow> py \<Rightarrow> bool" where
  "client_reads json_parse dumps v \<longleftrightarrow> json_parse (dumps v) = Some (json_of_py v)"

section \<open>The request is what the server asks for\<close>

text \<open>What the pipeline makes of a flow: an identifier, the features of schema version one, times after
  the epoch in their order; and addresses in a text that \<open>ipaddress\<close> takes.\<close>

definition well_formed :: "(u32 \<Rightarrow> string option) \<Rightarrow> (string \<Rightarrow> ip_version option) \<Rightarrow> flow_record \<Rightarrow> bool" where
  "well_formed inet_ntop ip_address r \<longleftrightarrow>
     r_flow_id r \<noteq> [] \<and> length (r_features r) = 27 \<and> r_feature_schema_version r = 1 \<and>
     0 \<le> r_first_seen_ms r \<and> r_first_seen_ms r \<le> r_last_seen_ms r \<and> r_last_seen_ms r < 2 ^ 63 \<and>
     ip_address (ip_to_string inet_ntop (src_ip (r_key r))) = Some IPv4 \<and>
     ip_address (ip_to_string inet_ntop (dst_ip (r_key r))) = Some IPv4"

lemma load_artifacts_Some:
  assumes "load_artifacts float_of_text metadata model = Some a"
  shows "ar_model a = model" "ar_feature_schema_version a = 1" "ar_model_version a \<noteq> []"
    "\<exists>t. ar_threshold a = Finite t \<and> 0 \<le> t"
  using assms
  by (auto simp: load_artifacts_def load_metadata_def FEATURE_SCHEMA_VERSION_def isfinite_def not_less
      split: if_splits py.splits option.splits double.splits)

lemma length_FEATURES: "length FEATURES = 27"
  by (simp add: FEATURES_def)

lemma features_read:
  assumes "py_get d ''features'' = PList (map (\<lambda>x. PFloat (Finite x)) xs)" "length xs = 27"
  shows "require_features d = Inr (map Finite xs)"
proof -
  have "those (map (feature_value \<circ> (\<lambda>x. PFloat (Finite x))) xs) = Some (map Finite xs)"
    by (induction xs) simp_all
  moreover have "list_all is_feature (map (\<lambda>x. PFloat (Finite x)) xs)"
    by (simp add: list_all_iff is_feature_def)
  moreover have "list_all isfinite (map Finite xs)" by (simp add: list_all_iff isfinite_def)
  ultimately show ?thesis using assms by (simp add: require_features_def length_FEATURES)
qed

lemma port_range: "uint (ucast (p :: u16) :: u64) \<le> 65535"
  using uint_bounded [of p] by (simp add: uint_up_ucast is_up_def source_size_def target_size_def word_size)

lemma protocol_range: "uint (ucast (q :: u8) :: u64) \<le> 255"
  using uint_bounded [of q] by (simp add: uint_up_ucast is_up_def source_size_def target_size_def word_size)

lemma request_valid:
  assumes "well_formed inet_ntop ip_address r" "ar_feature_schema_version a = 1"
  shows "validate_request ip_address (py_of_json (request_json inet_ntop r)) a =
    Inr (r_flow_id r, map Finite (r_features r))"
proof -
  let ?d = "py_of_json (request_json inet_ntop r)"
  have get: "py_get ?d ''schema_version'' = PInt 1" "py_get ?d ''flow_id'' = PStr (r_flow_id r)"
    "py_get ?d ''src_ip'' = PStr (ip_to_string inet_ntop (src_ip (r_key r)))"
    "py_get ?d ''dst_ip'' = PStr (ip_to_string inet_ntop (dst_ip (r_key r)))"
    "py_get ?d ''src_port'' = PInt (uint (ucast (src_port (r_key r)) :: u64))"
    "py_get ?d ''dst_port'' = PInt (uint (ucast (dst_port (r_key r)) :: u64))"
    "py_get ?d ''protocol'' = PInt (uint (ucast (protocol (r_key r)) :: u64))"
    "py_get ?d ''first_seen_ms'' = PInt (sint (word_of_int (r_first_seen_ms r) :: 64 word))"
    "py_get ?d ''last_seen_ms'' = PInt (sint (word_of_int (r_last_seen_ms r) :: 64 word))"
    "py_get ?d ''end_reason'' = PStr (flow_end_reason_to_string (r_end_reason r))"
    "py_get ?d ''feature_schema_version'' = PInt (uint (ucast (r_feature_schema_version r) :: u64))"
    "py_get ?d ''features'' = PList (map (\<lambda>x. PFloat (Finite x)) (r_features r))"
    by (simp_all add: request_json_def py_get_def isfinite_def)
  have times: "sint (word_of_int (r_first_seen_ms r) :: 64 word) = r_first_seen_ms r"
    "sint (word_of_int (r_last_seen_ms r) :: 64 word) = r_last_seen_ms r"
    using assms(1) by (auto simp: well_formed_def intro!: sint_of_wi_64)
  have features: "require_features ?d = Inr (map Finite (r_features r))"
    by (rule features_read [OF get(12)]) (use assms(1) in \<open>simp add: well_formed_def\<close>)
  have "require_end_reason ?d = Inr ()"
    by (cases "r_end_reason r") (simp_all add: require_end_reason_def get hashable_def)
  then have "require_flow_metadata ip_address ?d = Inr ()"
    using assms(1) port_range protocol_range
    by (auto simp: require_flow_metadata_def require_ipv4_def require_integer_def get times well_formed_def not_less)
  moreover have "require_schema_versions ?d a = Inr ()"
    using assms by (simp add: require_schema_versions_def get py_eq_int_def is_bool_def well_formed_def)
  moreover have "require_flow_id ?d = Inr (r_flow_id r)"
    using assms(1) by (simp add: require_flow_id_def get well_formed_def)
  moreover have "is_dict ?d" by (simp add: is_dict_def request_json_def)
  ultimately show ?thesis by (simp add: validate_request_def features)
qed

definition sample_metadata :: py where
  "sample_metadata = PDict
     [(''features'', PList (map PStr FEATURES)), (''n_features'', PInt 27),
      (''feature_schema_version'', PInt 1), (''model_version'', PStr ''v1''), (''threshold'', PFloat (Finite 2))]"

definition sample_artifacts :: artifacts where
  "sample_artifacts = \<lparr>ar_model = (\<lambda>fs. Some (Finite 3)), ar_threshold = Finite 2,
     ar_feature_schema_version = 1, ar_model_version = ''v1''\<rparr>"

definition any_ipv4 :: "string \<Rightarrow> ip_version option" where
  "any_ipv4 s = Some IPv4"

lemma sample_loaded:
  "load_artifacts (\<lambda>s. None) sample_metadata (\<lambda>fs. Some (Finite 3)) = Some sample_artifacts"
  by (simp add: load_artifacts_def load_metadata_def sample_metadata_def sample_artifacts_def is_dict_def
      py_get_def py_eq_int_def length_FEATURES FEATURE_SCHEMA_VERSION_def to_float_def isfinite_def)

lemma sample_well_formed: "well_formed plain_text any_ipv4 (sample_record ''7-1'')"
  by (simp add: well_formed_def sample_record_def any_ipv4_def)

section \<open>The answer is what the client asks for\<close>

lemma verdict_read:
  assumes "client_reads json_parse dumps (verdict_response a flow_id (Finite x))" "0 \<le> x"
    and "ar_threshold a = Finite t" "0 \<le> t"
  shows "parse_ai_response json_parse (dumps (verdict_response a flow_id (Finite x))) flow_id (ar_model_version a) =
    Inr \<lparr>resp_ok = True, resp_flow_id = flow_id, resp_model_version = ar_model_version a,
         resp_anomaly = (t < x), resp_score = Finite x, resp_threshold = Finite t, resp_error_code = []\<rparr>"
  using assms
  by (simp add: parse_ai_response_def client_reads_def verdict_response_def check_response_def check_verdict_def
      is_object_def member_def is_number_integer_def is_number_def get_int_def get_double_def has_string_def
      is_string_def string_at_def isfinite_def negative_def)

lemma exchange_agrees_response:
  assumes "load_artifacts float_of_text metadata model = Some a"
    and "well_formed inet_ntop ip_address r"
    and "server_reads loads json_dump (request_json inet_ntop r)"
    and "model (map Finite (r_features r)) = Some (Finite x)" and "0 \<le> x"
  shows "response_for_payload loads ip_address a (serialize_flow_request json_dump inet_ntop r) =
    Some (verdict_response a (r_flow_id r) (Finite x))"
  using assms(3,4) load_artifacts_Some(1) [OF assms(1)] request_valid [OF assms(2) load_artifacts_Some(2) [OF assms(1)]]
  by (simp add: response_for_payload_def serialize_flow_request_def server_reads_def infer_request_def isfinite_def)

text \<open>C21. The two ends agree: a request of the sensor is answered with a verdict, never with an error,
  and the client accepts the answer as the verdict on the flow and by the model it asked about - an
  anomaly exactly if the score exceeds the threshold, with the score and the threshold of the server.\<close>

theorem exchange_agrees:
  assumes "load_artifacts float_of_text metadata model = Some a"
    and "well_formed inet_ntop ip_address r"
    and "server_reads loads json_dump (request_json inet_ntop r)"
    and "model (map Finite (r_features r)) = Some (Finite x)" and "0 \<le> x"
    and "client_reads json_parse dumps (verdict_response a (r_flow_id r) (Finite x))"
  shows "\<exists>response t. response_for_payload loads ip_address a (serialize_flow_request json_dump inet_ntop r) = Some response \<and>
    ar_threshold a = Finite t \<and>
    parse_ai_response json_parse (dumps response) (r_flow_id r) (ar_model_version a) =
      Inr \<lparr>resp_ok = True, resp_flow_id = r_flow_id r, resp_model_version = ar_model_version a,
           resp_anomaly = (t < x), resp_score = Finite x, resp_threshold = Finite t, resp_error_code = []\<rparr>"
proof -
  note a = load_artifacts_Some [OF assms(1)]
  obtain t where t: "ar_threshold a = Finite t" "0 \<le> t" using a(4) by blast
  show ?thesis using exchange_agrees_response [OF assms(1-5)] verdict_read [OF assms(6,5) t] t(1) by blast
qed

theorem exchange_agrees_witness:
  "\<exists>response p. response_for_payload
       (\<lambda>payload. Loaded (py_of_json (request_json plain_text (sample_record ''7-1'')))) any_ipv4 sample_artifacts
       (serialize_flow_request (\<lambda>j. ''request'') plain_text (sample_record ''7-1'')) = Some response \<and>
     parse_ai_response (\<lambda>s. Some (json_of_py (verdict_response sample_artifacts ''7-1'' (Finite 3)))) ''answer'' ''7-1'' ''v1'' = Inr p \<and>
     resp_anomaly p"
proof -
  let ?loads = "\<lambda>payload. Loaded (py_of_json (request_json plain_text (sample_record ''7-1'')))"
  let ?parse = "\<lambda>s. Some (json_of_py (verdict_response sample_artifacts ''7-1'' (Finite 3)))"
  have id: "r_flow_id (sample_record ''7-1'') = ''7-1''" by (simp add: sample_record_def)
  have "server_reads ?loads (\<lambda>j. ''request'') (request_json plain_text (sample_record ''7-1''))"
    by (simp add: server_reads_def)
  moreover have "client_reads ?parse (\<lambda>v. ''answer'') (verdict_response sample_artifacts (r_flow_id (sample_record ''7-1'')) (Finite 3))"
    by (simp add: client_reads_def id)
  ultimately have "\<exists>response t. response_for_payload ?loads any_ipv4 sample_artifacts
        (serialize_flow_request (\<lambda>j. ''request'') plain_text (sample_record ''7-1'')) = Some response \<and>
      ar_threshold sample_artifacts = Finite t \<and>
      parse_ai_response ?parse ''answer'' (r_flow_id (sample_record ''7-1'')) (ar_model_version sample_artifacts) =
        Inr \<lparr>resp_ok = True, resp_flow_id = r_flow_id (sample_record ''7-1''),
          resp_model_version = ar_model_version sample_artifacts,
          resp_anomaly = (t < 3), resp_score = Finite 3, resp_threshold = Finite t, resp_error_code = []\<rparr>"
    by (intro exchange_agrees [OF sample_loaded sample_well_formed, where dumps = "\<lambda>v. ''answer''"]) simp_all
  then show ?thesis by (auto simp: sample_artifacts_def id)
qed

text \<open>C20. An anomaly has been scored: whatever bytes reach the server and whatever the client expects, an
  answer of the server that the client takes for an anomaly answers a request for that very flow that
  passed every check, and the model scored its features above the threshold. In particular no error
  response is ever taken for an anomaly.\<close>

theorem anomaly_was_scored:
  assumes "response_for_payload loads ip_address a payload = Some response"
    and "client_reads json_parse dumps response"
    and "parse_ai_response json_parse (dumps response) flow_id model_version = Inr p" and "resp_anomaly p"
  shows "\<exists>request features score. loads payload = Loaded request \<and>
    validate_request ip_address request a = Inr (flow_id, features) \<and> ar_model a features = Some score \<and>
    double_less (ar_threshold a) score \<and> resp_score p = score \<and> model_version = ar_model_version a"
proof -
  have "check_response (json_of_py response) flow_id model_version = Inr p"
    using assms(2,3) by (simp add: parse_ai_response_def client_reads_def)
  note check = this [unfolded check_response_def]
  have no_error: "response \<noteq> error_response a request code" for request code
    using check assms(4)
    by (auto simp: error_response_def member_def is_object_def split: if_splits)
  with assms(1) obtain request flow features score where run: "loads payload = Loaded request"
    "validate_request ip_address request a = Inr (flow, features)" "ar_model a features = Some score"
    "isfinite score" "response = verdict_response a flow score"
    by (auto simp: response_for_payload_def infer_request_def ebind_def
        split: loaded.splits sum.splits py_error.splits option.splits if_splits)
  then have "flow = flow_id \<and> model_version = ar_model_version a \<and> double_less (ar_threshold a) score \<and> resp_score p = score"
    using check assms(4)
    by (auto simp: verdict_response_def member_def is_object_def has_string_def is_string_def string_at_def
        check_verdict_def is_number_def get_double_def split: if_splits double.splits)
  with run show ?thesis by blast
qed

theorem anomaly_was_scored_witness:
  "\<exists>features. ar_model sample_artifacts features = Some (Finite 3) \<and>
     validate_request any_ipv4 (py_of_json (request_json plain_text (sample_record ''7-1''))) sample_artifacts = Inr (''7-1'', features)"
proof -
  let ?loads = "\<lambda>payload. Loaded (py_of_json (request_json plain_text (sample_record ''7-1'')))"
  let ?v = "verdict_response sample_artifacts ''7-1'' (Finite 3)"
  let ?parse = "\<lambda>s. Some (json_of_py ?v)"
  have id: "r_flow_id (sample_record ''7-1'') = ''7-1''" by (simp add: sample_record_def)
  have a: "ar_feature_schema_version sample_artifacts = 1" "ar_model sample_artifacts fs = Some (Finite 3)"
    "ar_threshold sample_artifacts = Finite 2" for fs
    by (simp_all add: sample_artifacts_def)
  have run: "response_for_payload ?loads any_ipv4 sample_artifacts ''bytes'' = Some ?v"
    by (simp add: response_for_payload_def infer_request_def request_valid [OF sample_well_formed a(1)] a id isfinite_def)
  have reads: "client_reads ?parse (\<lambda>v. ''answer'') ?v" by (simp add: client_reads_def)
  have zero: "(0 :: real) \<le> 3" "(0 :: real) \<le> 2" by simp_all
  from anomaly_was_scored [OF run reads verdict_read [OF reads zero(1) a(3) zero(2)]] show ?thesis by auto
qed

section \<open>The end of the server\<close>

text \<open>A request that is right but for its end reason, which is a list, ends the server: the test for
  membership in a set raises an exception that is no contract error.\<close>

lemma unhashable_end_reason_ends_server:
  assumes "loads payload = Loaded (PDict ((''end_reason'', PList vs) # ms))"
    and "validate_request ip_address (PDict ((''end_reason'', PStr ''timeout'') # ms)) a = Inr z"
  shows "serve_requests loads ip_address a (\<lparr>rt_stop = False, rt_payload = Some payload, rt_sends = sends\<rparr> # ts) = ([], Some 1)"
proof -
  have get: "py_get (PDict ((''end_reason'', v) # ms)) key = (if key = ''end_reason'' then v else py_get (PDict ms) key)" for v key
    by (simp add: py_get_def)
  have flow: "require_flow_id (PDict ((''end_reason'', v) # ms)) = require_flow_id (PDict ms)"
    "require_schema_versions (PDict ((''end_reason'', v) # ms)) a = require_schema_versions (PDict ms) a" for v
    by (simp_all add: require_flow_id_def require_schema_versions_def get)
  have meta: "require_flow_metadata ip_address (PDict ((''end_reason'', PList vs) # ms)) = Inl Other_error"
    if "require_flow_metadata ip_address (PDict ((''end_reason'', PStr ''timeout'') # ms)) = Inr ()"
    using that
    by (auto simp: require_flow_metadata_def ebind_def require_ipv4_def require_integer_def get require_end_reason_def
        hashable_def split: sum.splits py.splits if_splits)
  have "validate_request ip_address (PDict ((''end_reason'', PList vs) # ms)) a = Inl Other_error"
    using assms(2) meta by (auto simp: validate_request_def is_dict_def flow ebind_def split: sum.splits)
  then show ?thesis using assms(1) by (simp add: response_for_payload_def infer_request_def)
qed

end
