(* ===== verification/Request_Properties.thy ===== *)
theory Request_Properties
  imports Server_Properties Client_Properties
begin

text \<open>
  From the packets to the server: the flows the sensor keeps have their times in order, so that every
  record it hands to its client makes a request the server takes. The pipeline is the one of
  Packet_Capture over any consumer that is a decision source; the last section is about the client.
\<close>

section \<open>Times of flows\<close>

definition timely :: "time_point \<Rightarrow> time_point \<Rightarrow> flow \<Rightarrow> bool" where
  "timely lo hi f \<longleftrightarrow> lo \<le> f_first_seen f \<and> f_first_seen f \<le> f_last_seen f \<and> f_last_seen f \<le> hi"

definition flows_timely :: "time_point \<Rightarrow> time_point \<Rightarrow> flow_manager \<Rightarrow> bool" where
  "flows_timely lo hi fm \<longleftrightarrow> (\<forall>k f. find_flow fm k = Some f \<longrightarrow> timely lo hi f)"

lemma flows_timelyD: "flows_timely lo hi fm \<Longrightarrow> find_flow fm k = Some f \<Longrightarrow> timely lo hi f"
  by (simp add: flows_timely_def)

lemma timely_later: "timely lo hi f \<Longrightarrow> hi \<le> hi' \<Longrightarrow> timely lo hi' f"
  by (simp add: timely_def)

lemma flows_timely_later: "flows_timely lo hi fm \<Longrightarrow> hi \<le> hi' \<Longrightarrow> flows_timely lo hi' fm"
  by (auto simp: flows_timely_def intro: timely_later)

lemma flows_timely_sub: "flows_timely lo hi fm \<Longrightarrow> find_flow fm' \<subseteq>\<^sub>m find_flow fm \<Longrightarrow> flows_timely lo hi fm'"
  by (force simp: flows_timely_def map_le_def dom_def)

lemma timely_update:
  "timely lo now f \<Longrightarrow> timely lo now (update_flow_stats p fwd now f)"
  "lo \<le> now \<Longrightarrow> timely lo now (update_flow_stats p fwd now (open_flow key d now))"
  by (auto simp: timely_def open_flow_def)

lemma observe_timely:
  assumes "fm_inv fm" "d \<noteq> UNKNOWN" "flows_timely lo now fm" "lo \<le> now"
  shows "flows_timely lo now (snd (observe_packet p d now fm))"
  using assms(3,4)
  by (auto simp: flows_timely_def observe_find_flow [OF assms(1,2)] spec_flow_def Let_def timely_update
      split: option.splits if_splits dest!: locate_Some)

lemma extract_timely:
  assumes "fm_inv fm" "flows_timely lo hi fm"
  shows "flows_timely lo hi (snd (extract_completed key fm))"
    "fst (extract_completed key fm) = Some e \<Longrightarrow> timely lo hi (e_flow e)"
proof -
  have "find_flow (snd (extract_completed key fm)) \<subseteq>\<^sub>m find_flow fm"
    using extract_completed_refines [OF assms(1), of key]
    by (auto simp: fm_abs_def spec_extract_def map_le_def split: option.splits)
  then show "flows_timely lo hi (snd (extract_completed key fm))" by (rule flows_timely_sub [OF assms(2)])
  show "timely lo hi (e_flow e)" if "fst (extract_completed key fm) = Some e"
    using that assms(2)
    by (auto simp: extract_completed_cases flows_timely_def split: option.splits dest!: locate_Some)
qed

lemma discard_timely: "fm_inv fm \<Longrightarrow> flows_timely lo hi fm \<Longrightarrow> flows_timely lo hi (discard_source_flows src fm)"
  by (erule flows_timely_sub) (auto simp: discard_source_flows_refines(1) spec_discard_def map_le_def split: if_splits)

lemma cleanup_timely:
  assumes "fm_inv fm" "flows_timely lo hi fm"
  shows "flows_timely lo hi (snd (cleanup_expired now fm))"
    "e \<in> set (fst (cleanup_expired now fm)) \<Longrightarrow> timely lo hi (e_flow e)"
proof -
  show "flows_timely lo hi (snd (cleanup_expired now fm))"
    by (rule flows_timely_sub [OF assms(2)])
      (auto simp: cleanup_expired_find(1) [OF assms(1)] map_le_def split: if_splits)
qed (use assms(2) in \<open>auto simp: cleanup_expired_reports(2) [OF assms(1)] flows_timely_def\<close>)

section \<open>Records of the pipeline\<close>

text \<open>What is assumed outside: the steady clock does not run backwards; the clock of the system is after
  the epoch and, up to the reading \<open>m\<close>, in 64 bits; and \<open>ipaddress\<close> takes what \<open>inet_ntop\<close> writes.\<close>

definition usual_world ::
    "(nat \<Rightarrow> time_point) \<Rightarrow> time_point \<Rightarrow> nat \<Rightarrow> (u32 \<Rightarrow> string option) \<Rightarrow> (string \<Rightarrow> ip_version option) \<Rightarrow> bool" where
  "usual_world clock wall m inet_ntop ip_address \<longleftrightarrow>
     mono clock \<and> 0 \<le> wall \<and> wall + (clock m - clock 0) < 2 ^ 63 \<and>
     (\<forall>ip. ip_address (ip_to_string inet_ntop ip) = Some IPv4)"

definition dated :: "(nat \<Rightarrow> time_point) \<Rightarrow> time_point \<Rightarrow> 'c packet_capture \<Rightarrow> bool" where
  "dated clock wall pc \<longleftrightarrow>
     fm_inv (pc_flow_manager pc) \<and> flows_timely (clock 0) (clock (pc_clock_reads pc)) (pc_flow_manager pc) \<and>
     pc_steady_anchor pc = clock 0 \<and> pc_wall_anchor pc = wall"

lemma to_milliseconds_mono: "0 \<le> d \<Longrightarrow> d \<le> d' \<Longrightarrow> 0 \<le> to_milliseconds d \<and> to_milliseconds d \<le> to_milliseconds d' \<and> to_milliseconds d' \<le> d'"
  using zdiv_mono2 [of d' 1 1000000] by (simp add: to_milliseconds_nonneg zdiv_mono1)

definition made_record :: "ended_flow \<Rightarrow> 'c packet_capture \<Rightarrow> flow_record" where
  "made_record e pc =
     \<lparr>r_flow_id = fst (next_flow_id pc), r_key = f_key (e_flow e), r_first_seen_ms = to_epoch_ms pc (f_first_seen (e_flow e)),
      r_last_seen_ms = to_epoch_ms pc (f_last_seen (e_flow e)), r_end_reason = e_reason e,
      r_feature_schema_version = FLOW_FEATURE_SCHEMA_VERSION, r_features = flow_to_features (e_flow e)\<rparr>"

lemma consume_flow_consumer:
  "pc_consumer (consume_flow ops clock e pc) =
     (if submitted clock e pc then snd (fc_consume ops (made_record e pc) (pc_consumer pc)) else pc_consumer pc)"
  by (simp add: consume_flow_def submitted_def read_clock_def next_flow_id_def Let_def made_record_def to_epoch_ms_def)

lemma made_well_formed:
  assumes "usual_world clock wall m inet_ntop ip_address" "dated clock wall pc"
    and "timely (clock 0) (clock (pc_clock_reads pc)) (e_flow e)" "pc_clock_reads pc \<le> m"
  shows "well_formed inet_ntop ip_address (made_record e pc)"
proof -
  have "clock (pc_clock_reads pc) \<le> clock m" using assms(1,4) by (auto simp: usual_world_def monoD)
  then have "0 \<le> wall + (f_first_seen (e_flow e) - clock 0)" "f_first_seen (e_flow e) \<le> f_last_seen (e_flow e)"
    "wall + (f_last_seen (e_flow e) - clock 0) < 2 ^ 63"
    using assms(1,3) by (auto simp: usual_world_def timely_def)
  then show ?thesis
    using assms(1,2) to_milliseconds_mono
      [of "wall + (f_first_seen (e_flow e) - clock 0)" "wall + (f_last_seen (e_flow e) - clock 0)"]
    by (simp add: well_formed_def dated_def usual_world_def to_epoch_ms_def length_features FLOW_FEATURE_COUNT_def
        FLOW_FEATURE_SCHEMA_VERSION_def made_record_def next_flow_id_def)
qed

lemma dated_consume [simp]: "mono clock \<Longrightarrow> dated clock wall pc \<Longrightarrow> dated clock wall (consume_flow ops clock e pc)"
  using flow_side_consume_flow [of pc ops clock e]
  by (auto simp: dated_def flow_side_def intro: flows_timely_later monoD)

lemma reads_consume: "pc_clock_reads pc \<le> pc_clock_reads (consume_flow ops clock e pc)"
  using flow_side_consume_flow [of pc ops clock e] by (simp add: flow_side_def)

lemma reads_consume_all: "pc_clock_reads pc \<le> pc_clock_reads (fold (consume_flow ops clock) es pc)"
  using flow_side_consume_all [of pc ops clock es] by (simp add: flow_side_def)

lemma dated_manager:
  "dated clock wall pc \<Longrightarrow> fm_inv fm \<Longrightarrow> flows_timely (clock 0) (clock (pc_clock_reads pc)) fm \<Longrightarrow>
   dated clock wall (pc\<lparr>pc_flow_manager := fm\<rparr>)"
  by (simp add: dated_def)

context decision_source
begin

text \<open>All that is pending makes requests the server takes.\<close>

definition all_requestable ::
    "(u32 \<Rightarrow> string option) \<Rightarrow> (string \<Rightarrow> ip_version option) \<Rightarrow> (nat \<Rightarrow> time_point) \<Rightarrow> time_point \<Rightarrow>
     'c packet_capture \<Rightarrow> bool" where
  "all_requestable inet_ntop ip_address clock wall pc \<longleftrightarrow>
     dated clock wall pc \<and> all_pending (well_formed inet_ntop ip_address) pc"

lemma consume_requestable:
  assumes "usual_world clock wall m inet_ntop ip_address"
    and "all_requestable inet_ntop ip_address clock wall pc"
    and "timely (clock 0) (clock (pc_clock_reads pc)) (e_flow e)"
    and "pc_clock_reads (consume_flow ops clock e pc) \<le> m"
  shows "all_requestable inet_ntop ip_address clock wall (consume_flow ops clock e pc)"
proof -
  have "well_formed inet_ntop ip_address (made_record e pc)"
    using assms(2) by (intro made_well_formed [OF assms(1) _ assms(3) order_trans [OF reads_consume assms(4)]])
      (simp add: all_requestable_def)
  then have "all_pending (well_formed inet_ntop ip_address) (consume_flow ops clock e pc)"
    using assms(2) consume_pending [of "made_record e pc" "pc_consumer pc"]
    by (auto simp: all_requestable_def all_pending_def consume_flow_consumer)
  then show ?thesis using assms(1,2) by (simp add: all_requestable_def usual_world_def)
qed

lemma consume_all_requestable:
  assumes "usual_world clock wall m inet_ntop ip_address"
    and "all_requestable inet_ntop ip_address clock wall pc"
    and "\<And>e. e \<in> set es \<Longrightarrow> timely (clock 0) (clock (pc_clock_reads pc)) (e_flow e)"
    and "pc_clock_reads (fold (consume_flow ops clock) es pc) \<le> m"
  shows "all_requestable inet_ntop ip_address clock wall (fold (consume_flow ops clock) es pc)"
  using assms(2-)
proof (induction es arbitrary: pc)
  case (Cons e es)
  let ?pc = "consume_flow ops clock e pc"
  have later: "clock (pc_clock_reads pc) \<le> clock (pc_clock_reads ?pc)"
    using assms(1) by (intro monoD [OF _ reads_consume]) (simp add: usual_world_def)
  have "pc_clock_reads ?pc \<le> m" using Cons.prems(3) reads_consume_all [of ?pc ops clock es] by simp
  with Cons.prems have "all_requestable inet_ntop ip_address clock wall ?pc"
    by (intro consume_requestable [OF assms(1)]) simp_all
  then show ?case using Cons.IH [of ?pc] Cons.prems(2,3) timely_later [OF _ later] by simp
qed simp

lemma manager_requestable:
  "all_requestable inet_ntop ip_address clock wall pc \<Longrightarrow> fm_inv fm \<Longrightarrow>
   flows_timely (clock 0) (clock (pc_clock_reads pc)) fm \<Longrightarrow>
   all_requestable inet_ntop ip_address clock wall (pc\<lparr>pc_flow_manager := fm\<rparr>)"
  by (simp add: all_requestable_def dated_manager)

lemma finish_requestable:
  assumes "usual_world clock wall m inet_ntop ip_address"
    and "all_requestable inet_ntop ip_address clock wall pc"
    and "pc_clock_reads (finish_flow ops clock p pc) \<le> m"
  shows "all_requestable inet_ntop ip_address clock wall (finish_flow ops clock p pc)"
proof -
  have fm: "fm_inv (pc_flow_manager pc)" "flows_timely (clock 0) (clock (pc_clock_reads pc)) (pc_flow_manager pc)"
    using assms(2) by (simp_all add: all_requestable_def dated_def)
  obtain ended fm' where ex: "extract_completed (tuple p) (pc_flow_manager pc) = (ended, fm')" by fastforce
  have "all_requestable inet_ntop ip_address clock wall (pc\<lparr>pc_flow_manager := fm'\<rparr>)"
    using extract_timely(1) [OF fm, of "tuple p"] extract_completed_inv [OF fm(1), of "tuple p"] ex
    by (intro manager_requestable [OF assms(2)]) simp_all
  then show ?thesis
    using assms(3) extract_timely(2) [OF fm, of "tuple p"] ex
    by (auto simp: finish_flow_def intro: consume_requestable [OF assms(1)] split: option.splits)
qed

lemma packet_requestable:
  assumes "usual_world clock wall m inet_ntop ip_address"
    and "all_requestable inet_ntop ip_address clock wall pc"
    and "pc_clock_reads (snd (on_packet ops clock data direction pc)) \<le> m"
  shows "all_requestable inet_ntop ip_address clock wall (snd (on_packet ops clock data direction pc))"
proof -
  let ?now = "clock (pc_clock_reads pc)" and ?pc = "pc\<lparr>pc_clock_reads := Suc (pc_clock_reads pc)\<rparr>"
  have mono: "mono clock" using assms(1) by (simp add: usual_world_def)
  have fm: "fm_inv (pc_flow_manager pc)" "flows_timely (clock 0) ?now (pc_flow_manager pc)"
    using assms(2) by (simp_all add: all_requestable_def dated_def)
  have later: "?now \<le> clock (Suc (pc_clock_reads pc))" "clock 0 \<le> ?now" using mono by (simp_all add: monoD)
  have base: "all_requestable inet_ntop ip_address clock wall ?pc"
    using assms(2) flows_timely_later [OF _ later(1)]
    by (simp add: all_requestable_def dated_def all_pending_def)
  have seen: "fm_inv fm' \<and> flows_timely (clock 0) (clock (Suc (pc_clock_reads pc))) fm'"
    if "fm' = snd (observe_packet p d ?now (pc_flow_manager pc))" "d \<noteq> UNKNOWN" for p d fm'
    using observe_timely [OF fm(1) that(2) fm(2) later(2)] observe_packet_inv [OF fm(1)] that(1)
    by (simp add: flows_timely_later [OF _ later(1)])
  have put: "all_requestable inet_ntop ip_address clock wall (?pc\<lparr>pc_flow_manager := fm'\<rparr>)"
    if "fm' = snd (observe_packet p d ?now (pc_flow_manager pc))" "d \<noteq> UNKNOWN" for p d fm'
    using manager_requestable [OF base] seen [OF that] by simp
  have blocked: "all_requestable inet_ntop ip_address clock wall
      (?pc\<lparr>pc_flow_manager := discard_source_flows src fm', pc_stats := st, pc_block_list := bl\<rparr>)"
    if "fm' = snd (observe_packet p d ?now (pc_flow_manager pc))" "d \<noteq> UNKNOWN" for p d fm' src st bl
    using base seen [OF that] discard_source_flows_refines(3) discard_timely
    by (simp add: all_requestable_def dated_def all_pending_def)
  show ?thesis using assms(3)
    by (auto simp: on_packet_def read_clock_def Let_def handle_inbound_def handle_outbound_def split_beta base
        intro!: finish_requestable [OF assms(1)] put blocked assms(2) split: sum.splits option.splits)
qed

lemma decisions_requestable:
  assumes "all_requestable inet_ntop ip_address clock wall pc"
  shows "all_requestable inet_ntop ip_address clock wall (apply_ai_decisions ops now pc)"
proof -
  have one: "dated clock wall (apply_decision now d pc)" if "dated clock wall pc" for d and pc :: "'c packet_capture"
    using that by (auto simp: apply_decision_def Let_def dated_def discard_source_flows_refines(3) discard_timely)
  have "dated clock wall (fold (apply_decision now) ds pc)" if "dated clock wall pc" for ds and pc :: "'c packet_capture"
    using that by (induction ds arbitrary: pc) (simp_all add: one)
  then have "dated clock wall (apply_ai_decisions ops now pc)"
    using assms by (auto simp: apply_ai_decisions_def split_beta Let_def all_requestable_def dated_def)
  with assms show ?thesis by (simp add: all_requestable_def apply_all_pending)
qed

lemma tick_requestable:
  assumes "usual_world clock wall m inet_ntop ip_address"
    and "all_requestable inet_ntop ip_address clock wall pc"
    and "pc_clock_reads (on_tick ops clock pc) \<le> m"
  shows "all_requestable inet_ntop ip_address clock wall (on_tick ops clock pc)"
proof -
  let ?now = "clock (pc_clock_reads pc)"
  let ?pc = "apply_ai_decisions ops ?now (snd (read_clock clock pc))"
  let ?fm = "snd (cleanup_expired ?now (pc_flow_manager ?pc))"
  have later: "?now \<le> clock (Suc (pc_clock_reads pc))" using assms(1) by (simp add: usual_world_def monoD)
  have "all_requestable inet_ntop ip_address clock wall (snd (read_clock clock pc))"
    using assms(2) flows_timely_later [OF _ later]
    by (simp add: all_requestable_def dated_def all_pending_def read_clock_def)
  then have pc: "all_requestable inet_ntop ip_address clock wall ?pc" by (rule decisions_requestable)
  then have fm: "fm_inv (pc_flow_manager ?pc)"
    "flows_timely (clock 0) (clock (pc_clock_reads ?pc)) (pc_flow_manager ?pc)"
    by (simp_all add: all_requestable_def dated_def)
  have "all_requestable inet_ntop ip_address clock wall (tick_flows ops clock ?now ?pc)"
    unfolding tick_flows_def split_beta Let_def
    using assms(3) cleanup_timely(2) [OF fm]
    by (intro consume_all_requestable [OF assms(1)] manager_requestable [OF pc] cleanup_expired_inv fm(1) cleanup_timely(1) [OF fm])
      (simp_all add: on_tick_parts tick_flows_def split_beta Let_def)
  then show ?thesis by (simp add: on_tick_parts Let_def all_requestable_def dated_def all_pending_def)
qed

lemma run_requestable:
  assumes "usual_world clock wall m inet_ntop ip_address"
    and "all_requestable inet_ntop ip_address clock wall pc"
    and "\<forall>ev \<in> set evs. quiet ev" and "pc_clock_reads (pc_run ops clock evs pc) \<le> m"
  shows "all_requestable inet_ntop ip_address clock wall (pc_run ops clock evs pc)"
  using assms(2-)
proof (induction evs arbitrary: pc)
  case (Cons ev evs)
  let ?pc = "pc_step ops clock ev pc"
  have m: "pc_clock_reads ?pc \<le> m" using Cons.prems(3) reads_run [of ?pc ops clock evs] by simp
  have "all_requestable inet_ntop ip_address clock wall ?pc"
  proof (cases ev)
    case (Consumer_runs f)
    with Cons.prems(2) have "pending (f c) \<subseteq> pending c" for c by (simp add: quiet_def)
    then show ?thesis using Cons.prems(1) Consumer_runs
      by (auto simp: all_requestable_def all_pending_def dated_def)
  qed (use Cons.prems(1) m in \<open>simp_all add: packet_requestable [OF assms(1)] tick_requestable [OF assms(1)]\<close>)
  then show ?case using Cons by simp
qed simp

lemma new_requestable:
  assumes "\<And>n. n \<le> reserved n \<and> 0 < reserved n" "pending c = {}"
  shows "all_requestable inet_ntop ip_address clock wall (new_packet_capture reserved clock wall cfg wl c h)"
proof -
  let ?fm = "new_flow_manager reserved (window_seconds cfg) MAX_FLOWS MAX_SOURCES"
  have "fm_inv ?fm" by (rule fm_inv_new [OF assms(1)])
  moreover have "find_flow ?fm = (\<lambda>_. None)"
    using assms(1) by (simp add: new_flow_manager_def um_find_reserve)
  ultimately show ?thesis
    by (simp add: all_requestable_def dated_def new_packet_capture_def all_pending_def assms(2) flows_timely_def)
qed

end

section \<open>The server takes every request\<close>

text \<open>What the other threads do to the client between two calls of the capture thread: nothing, or one of
  its steps that is not a call of \<open>consume\<close>, which is the capture thread's.\<close>

definition other_threads :: "(flow_record \<Rightarrow> string) \<Rightarrow> (string \<Rightarrow> json option) \<Rightarrow> ai_client capture_event \<Rightarrow> bool" where
  "other_threads request json_parse ev \<longleftrightarrow>
     (case ev of
        Consumer_runs f \<Rightarrow>
          (\<forall>c. f c = c \<or>
            (\<exists>k. client_step request json_parse c k (f c)) \<and> (\<forall>now r. f c \<noteq> snd (client_consume now r c)))
      | _ \<Rightarrow> True)"

lemma other_threads_add_nothing: "other_threads request json_parse ev \<Longrightarrow> async.quiet ev"
proof (cases ev)
  case (Consumer_runs f)
  assume "other_threads request json_parse ev"
  then have step: "f c = c \<or>
      (\<exists>k. client_step request json_parse c k (f c)) \<and> (\<forall>now r. f c \<noteq> snd (client_consume now r c))" for c
    using Consumer_runs by (simp add: other_threads_def)
  have "undecided (f c) \<subseteq> undecided c" for c
    using step [of c] other_threads_quiet [of request json_parse c _ "f c"] by auto
  then show ?thesis using Consumer_runs by (simp add: async.quiet_def)
qed (simp_all add: async.quiet_def)

text \<open>C7. Whatever packets come, every record the sensor has given to its client, whether it still waits, is
  being asked about or has been decided, makes a request whose members all have the type and the range
  the server demands; the model gets exactly the features of the record; and the server never answers
  with an error: the answer is the verdict, or there is none because the model fails.\<close>

theorem sensor_requests_well_typed:
  assumes "load_artifacts float_of_text metadata model = Some art"
    and "\<And>n. n \<le> reserved n \<and> 0 < reserved n" and "undecided c = {}"
    and "pc = pc_run (async_consumer now) clock evs (new_packet_capture reserved clock wall cfg wl c h)"
    and "list_all (other_threads request json_parse) evs"
    and "usual_world clock wall (pc_clock_reads pc) inet_ntop ip_address"
    and "r \<in> undecided (pc_consumer pc)"
    and "server_reads loads json_dump (request_json inet_ntop r)"
  shows "validate_request ip_address (py_of_json (request_json inet_ntop r)) art =
      Inr (r_flow_id r, map Finite (r_features r)) \<and>
    response_for_payload loads ip_address art (serialize_flow_request json_dump inet_ntop r) =
      (case model (map Finite (r_features r)) of
         Some (Finite x) \<Rightarrow> Some (verdict_response art (r_flow_id r) (Finite x))
       | _ \<Rightarrow> None)"
proof -
  have quiet: "\<forall>ev \<in> set evs. async.quiet ev"
    using assms(5) other_threads_add_nothing by (auto simp: list_all_iff)
  have "async.all_requestable inet_ntop ip_address clock wall pc"
    using async.run_requestable [OF assms(6) async.new_requestable [where clock = clock and wall = wall and cfg = cfg
        and wl = wl and h = h and reserved = reserved and c = c] quiet] assms(2,3,4) by simp
  then have "well_formed inet_ntop ip_address r"
    using assms(7) by (simp add: async.all_requestable_def async.all_pending_def)
  then have valid: "validate_request ip_address (py_of_json (request_json inet_ntop r)) art =
      Inr (r_flow_id r, map Finite (r_features r))"
    by (rule request_valid) (rule load_artifacts_Some [OF assms(1)])
  with assms(8) load_artifacts_Some(1) [OF assms(1)] show ?thesis
    by (auto simp: response_for_payload_def server_reads_def serialize_flow_request_def infer_request_def isfinite_def
        split: option.split double.split)
qed

section \<open>A conversation that is submitted\<close>

text \<open>A host opens a connection to the sensor's machine, which refuses it.\<close>

definition opening_segment :: "u8 list" where
  "opening_segment = [0x45, 0, 0, 40, 0, 0, 0, 0, 64, 6, 0, 0, 10, 0, 0, 2, 10, 0, 0, 1,
     0x9C, 0x40, 0, 80, 0, 0, 0, 1, 0, 0, 0, 0, 0x50, 2, 0, 0, 0, 0, 0, 0]"

definition refusing_segment :: "u8 list" where
  "refusing_segment = [0x45, 0, 0, 40, 0, 0, 0, 0, 64, 6, 0, 0, 10, 0, 0, 1, 10, 0, 0, 2,
     0, 80, 0x9C, 0x40, 0, 0, 0, 0, 0, 0, 0, 2, 0x50, 0x14, 0, 0, 0, 0, 0, 0]"

definition syn_sent :: parsed_packet where
  "syn_sent = \<lparr>tuple = mk_tuple 0x0200000A 0x0100000A 40000 80 6, total_len = 40, payload_len = 0,
     has_ports = True, tcp_flags = 2\<rparr>"

definition rst_sent :: parsed_packet where
  "rst_sent = \<lparr>tuple = mk_tuple 0x0100000A 0x0200000A 80 40000 6, total_len = 40, payload_len = 0,
     has_ports = True, tcp_flags = 0x14\<rparr>"

lemma segments_parsed:
  "parse (Some opening_segment) = Inr (Some syn_sent)" "parse (Some refusing_segment) = Inr (Some rst_sent)"
  by (simp_all add: parse_Some parse_tcp_def opening_segment_def refusing_segment_def syn_sent_def rst_sent_def
      ip_version_def ip_header_len_def fragment_offset_def load16_def load32_def ntohs_def ip_only_def
      with_ports_def memcpy_from_def)

definition idle_sensor :: "ai_client packet_capture" where
  "idle_sensor = new_packet_capture Suc (\<lambda>n. 5) 0 default_config {} sample_online False"

definition refused_flow :: flow where
  "refused_flow = update_flow_stats syn_sent True 5 (open_flow (tuple syn_sent) INBOUND 5)"

lemma idle_manager:
  "fm_inv (pc_flow_manager idle_sensor)" "find_flow (pc_flow_manager idle_sensor) = (\<lambda>_. None)"
  "fm_max_flows (pc_flow_manager idle_sensor) = MAX_FLOWS"
  by (simp_all add: idle_sensor_def new_packet_capture_def fm_inv_new)
    (simp_all add: new_flow_manager_def um_find_reserve)

lemma syn_observed:
  "fst (observe_packet syn_sent INBOUND 5 (pc_flow_manager idle_sensor)) = Some (count_source_packet syn_sent (fresh_source 5))"
  "find_flow (snd (observe_packet syn_sent INBOUND 5 (pc_flow_manager idle_sensor))) = [tuple syn_sent \<mapsto> refused_flow]"
proof -
  show "fst (observe_packet syn_sent INBOUND 5 (pc_flow_manager idle_sensor)) = Some (count_source_packet syn_sent (fresh_source 5))"
    by (simp add: idle_sensor_def new_packet_capture_def first_packet_stats MAX_SOURCES_def)
  show "find_flow (snd (observe_packet syn_sent INBOUND 5 (pc_flow_manager idle_sensor))) = [tuple syn_sent \<mapsto> refused_flow]"
    by (simp add: observe_find_flow [OF idle_manager(1)] idle_manager spec_flow_def locate_def Let_def MAX_FLOWS_def
        refused_flow_def)
qed

lemma syn_passes: "check (standard_rules 20 100) (count_source_packet syn_sent (fresh_source 5)) = None"
  by (simp add: standard_rules_eq port_scan_match_def syn_flood_match_def count_source_packet_def has_flag_def TH_SYN_def
      fresh_source_def source_stats_empty_def Let_def syn_sent_def word_le_nat_alt)

lemma refused_flow_open: "end_reason refused_flow = None"
  by (simp add: refused_flow_def end_reason_def update_flow_stats_def open_flow_def update_direction_def count_flags_def
      direction_empty_def has_flag_def TH_RST_def TH_ACK_def TH_FIN_def syn_sent_def Let_def)

definition after_syn :: "ai_client packet_capture" where
  "after_syn = idle_sensor\<lparr>pc_clock_reads := 2,
     pc_flow_manager := snd (observe_packet syn_sent INBOUND 5 (pc_flow_manager idle_sensor))\<rparr>"

lemma idle_fields:
  "pc_whitelist idle_sensor = {}" "pc_block_list idle_sensor = block_list_empty" "pc_clock_reads idle_sensor = 1"
  "pc_rule_engine idle_sensor = standard_rules 20 100" "pc_consumer idle_sensor = sample_online"
  by (simp_all add: idle_sensor_def new_packet_capture_def default_config_def)

lemma nobody_blocked: "\<not> is_whitelisted {} ip" "\<not> is_blocked block_list_empty ip t"
  by (simp_all add: is_whitelisted_def is_blocked_def block_list_empty_def)

lemma syn_step: "on_packet ops (\<lambda>n. 5) (Some opening_segment) INBOUND idle_sensor = (True, after_syn)"
proof -
  let ?pc = "idle_sensor\<lparr>pc_clock_reads := 2\<rparr>"
  obtain fm where obs: "observe_packet syn_sent INBOUND 5 (pc_flow_manager idle_sensor) =
      (Some (count_source_packet syn_sent (fresh_source 5)), fm)"
    using syn_observed(1) by (cases "observe_packet syn_sent INBOUND 5 (pc_flow_manager idle_sensor)") simp
  then have find: "find_flow fm = [tuple syn_sent \<mapsto> refused_flow]" using syn_observed(2) by simp
  have fin: "finish_flow ops (\<lambda>n. 5) syn_sent (?pc\<lparr>pc_flow_manager := fm\<rparr>) = ?pc\<lparr>pc_flow_manager := fm\<rparr>"
    by (simp add: finish_flow_def extract_completed_cases find locate_def refused_flow_open)
  have ports: "has_ports syn_sent" by (simp add: syn_sent_def)
  show ?thesis
    by (simp add: on_packet_def read_clock_def idle_fields segments_parsed handle_inbound_def nobody_blocked ports Let_def
        obs syn_passes fin after_syn_def numeral_2_eq_2 [symmetric])
qed

definition ended_by_rst :: ended_flow where
  "ended_by_rst = \<lparr>e_flow = update_flow_stats rst_sent False 5 refused_flow, e_reason = TCP_RESET\<rparr>"

lemma after_syn_fields:
  "fm_inv (pc_flow_manager after_syn)" "find_flow (pc_flow_manager after_syn) = [tuple syn_sent \<mapsto> refused_flow]"
  "pc_whitelist after_syn = {}" "pc_block_list after_syn = block_list_empty" "pc_clock_reads after_syn = 2"
  "pc_consumer after_syn = sample_online"
  using syn_observed(2) observe_packet_inv [OF idle_manager(1)] by (simp_all add: after_syn_def idle_fields)

lemma rst_goes_back: "reversed (tuple rst_sent) = tuple syn_sent" "tuple syn_sent \<noteq> tuple rst_sent"
  by (simp_all add: syn_sent_def rst_sent_def reversed_def)

lemma rst_extracted:
  assumes "find_flow fm = [tuple syn_sent \<mapsto> update_flow_stats rst_sent False 5 refused_flow]"
  shows "fst (extract_completed (tuple rst_sent) fm) = Some ended_by_rst"
proof -
  have "end_reason (update_flow_stats rst_sent False 5 refused_flow) = Some TCP_RESET"
    by (simp add: refused_flow_def end_reason_def update_flow_stats_def open_flow_def update_direction_def count_flags_def
        direction_empty_def has_flag_def TH_RST_def TH_ACK_def TH_FIN_def syn_sent_def rst_sent_def Let_def)
  then show ?thesis
    by (simp add: extract_completed_cases assms locate_def rst_goes_back rst_goes_back(2) [symmetric] ended_by_rst_def)
qed

lemma rst_submitted:
  assumes "pc_whitelist pc = {}" "pc_block_list pc = block_list_empty"
  shows "submitted clock ended_by_rst pc"
  by (simp add: submitted_def assms nobody_blocked ended_by_rst_def refused_flow_def update_flow_stats_def open_flow_def
      update_direction_def count_flags_def direction_empty_def rs_add_def rs_empty_def Let_def syn_sent_def rst_sent_def
      has_flag_def TH_ACK_def TH_FIN_def word_le_nat_alt)

lemma rst_consumes:
  "\<exists>fm. snd (on_packet ops (\<lambda>n. 5) (Some refusing_segment) OUTBOUND after_syn) =
     consume_flow ops (\<lambda>n. 5) ended_by_rst (after_syn\<lparr>pc_clock_reads := 3, pc_flow_manager := fm\<rparr>)"
proof -
  let ?fm = "snd (observe_packet rst_sent OUTBOUND 5 (pc_flow_manager after_syn))"
  have find: "find_flow ?fm = [tuple syn_sent \<mapsto> update_flow_stats rst_sent False 5 refused_flow]"
    by (simp add: observe_find_flow [OF after_syn_fields(1)] after_syn_fields spec_flow_def locate_def rst_goes_back
        rst_goes_back(2) [symmetric] Let_def)
  obtain fm where ex: "extract_completed (tuple rst_sent) ?fm = (Some ended_by_rst, fm)"
    using rst_extracted [OF find] by (cases "extract_completed (tuple rst_sent) ?fm") simp
  have "has_ports rst_sent" by (simp add: rst_sent_def)
  then show ?thesis
    by (auto simp: on_packet_def read_clock_def after_syn_fields segments_parsed handle_outbound_def nobody_blocked
        Let_def finish_flow_def ex)
qed

lemma rst_step:
  "\<exists>r. r \<in> undecided (pc_consumer (snd (on_packet (async_consumer now) (\<lambda>n. 5) (Some refusing_segment) OUTBOUND after_syn)))"
proof -
  obtain fm where step: "snd (on_packet (async_consumer now) (\<lambda>n. 5) (Some refusing_segment) OUTBOUND after_syn) =
      consume_flow (async_consumer now) (\<lambda>n. 5) ended_by_rst (after_syn\<lparr>pc_clock_reads := 3, pc_flow_manager := fm\<rparr>)"
    using rst_consumes by blast
  let ?gone = "after_syn\<lparr>pc_clock_reads := 3, pc_flow_manager := fm\<rparr>"
  have "pc_consumer (consume_flow (async_consumer now) (\<lambda>n. 5) ended_by_rst ?gone) =
      snd (client_consume now (made_record ended_by_rst ?gone) sample_online)"
    by (simp add: consume_flow_consumer rst_submitted after_syn_fields async_consumer_def)
  moreover have "made_record ended_by_rst ?gone \<in> undecided (snd (client_consume now (made_record ended_by_rst ?gone) sample_online))"
    by (simp add: client_consume_def undecided_def sample_online_def set_online_def client_start_def new_client_def
        default_ai_config_def Let_def)
  ultimately show ?thesis unfolding step by auto
qed

theorem sensor_requests_well_typed_witness:
  "\<exists>r. r \<in> undecided (pc_consumer (pc_run (async_consumer 0) (\<lambda>n. 5)
       [Packet (Some opening_segment) INBOUND, Packet (Some refusing_segment) OUTBOUND] idle_sensor)) \<and>
     validate_request any_ipv4 (py_of_json (request_json plain_text r)) sample_artifacts =
       Inr (r_flow_id r, map Finite (r_features r))"
proof -
  let ?evs = "[Packet (Some opening_segment) INBOUND, Packet (Some refusing_segment) OUTBOUND] :: ai_client capture_event list"
  let ?pc = "pc_run (async_consumer 0) (\<lambda>n. 5) ?evs idle_sensor"
  obtain r where r: "r \<in> undecided (pc_consumer ?pc)" using rst_step by (auto simp: syn_step)
  have empty: "undecided sample_online = {}"
    by (simp add: undecided_def sample_online_def set_online_def client_start_def new_client_def)
  have others: "list_all (other_threads (\<lambda>r. []) (\<lambda>s. None)) ?evs" by (simp add: other_threads_def)
  have world: "usual_world (\<lambda>n. 5) 0 (pc_clock_reads ?pc) plain_text any_ipv4"
    by (simp add: usual_world_def any_ipv4_def mono_def)
  have reads: "server_reads (\<lambda>payload. Loaded (py_of_json (request_json plain_text r))) (\<lambda>j. []) (request_json plain_text r)"
    by (simp add: server_reads_def)
  have reserve: "n \<le> Suc n \<and> 0 < Suc n" for n by simp
  show ?thesis
    using sensor_requests_well_typed [OF sample_loaded reserve empty _ others world r reads] r
    by (auto simp: idle_sensor_def)
qed

end
