(* ===== verification/Record_Log.thy ===== *)
theory Record_Log
  imports Request_Properties
begin

text \<open>
  The records the pipeline gives to its consumer, whatever the consumer is and does: a consumer that is
  watched notes every record and otherwise behaves as before, so that the pipeline runs as it does
  without the watch; and the notes show how the records are numbered and what they hold.
\<close>

section \<open>Watching a consumer\<close>

definition watched :: "'c flow_consumer \<Rightarrow> (flow_record list \<times> 'c) flow_consumer" where
  "watched ops =
     \<lparr>fc_consume = (\<lambda>r (log, c). case fc_consume ops r c of (taken, c) \<Rightarrow> (taken, log @ [r], c)),
      fc_drain = (\<lambda>(log, c). case fc_drain ops c of (ds, c) \<Rightarrow> (ds, log, c))\<rparr>"

text \<open>Other threads that change the consumer leave the notes alone.\<close>

fun watched_event :: "'c capture_event \<Rightarrow> (flow_record list \<times> 'c) capture_event" where
  "watched_event (Packet data direction) = Packet data direction"
| "watched_event Tick = Tick"
| "watched_event (Consumer_runs f) = Consumer_runs (\<lambda>(log, c). (log, f c))"

definition unwatched :: "(flow_record list \<times> 'c) packet_capture \<Rightarrow> 'c packet_capture" where
  "unwatched pc =
     \<lparr>pc_block_ttl_seconds = pc_block_ttl_seconds pc, pc_whitelist = pc_whitelist pc,
      pc_block_list = pc_block_list pc, pc_flow_manager = pc_flow_manager pc, pc_rule_engine = pc_rule_engine pc,
      pc_consumer = snd (pc_consumer pc), pc_has_handler = pc_has_handler pc,
      pc_handler_calls = pc_handler_calls pc, pc_stats = pc_stats pc, pc_steady_anchor = pc_steady_anchor pc,
      pc_wall_anchor = pc_wall_anchor pc, pc_sensor_instance_id = pc_sensor_instance_id pc,
      pc_next_flow_sequence = pc_next_flow_sequence pc, pc_clock_reads = pc_clock_reads pc\<rparr>"

lemma unwatched_fields [simp]:
  "pc_block_ttl_seconds (unwatched pc) = pc_block_ttl_seconds pc" "pc_whitelist (unwatched pc) = pc_whitelist pc"
  "pc_block_list (unwatched pc) = pc_block_list pc" "pc_flow_manager (unwatched pc) = pc_flow_manager pc"
  "pc_rule_engine (unwatched pc) = pc_rule_engine pc" "pc_consumer (unwatched pc) = snd (pc_consumer pc)"
  "pc_has_handler (unwatched pc) = pc_has_handler pc" "pc_handler_calls (unwatched pc) = pc_handler_calls pc"
  "pc_stats (unwatched pc) = pc_stats pc" "pc_steady_anchor (unwatched pc) = pc_steady_anchor pc"
  "pc_wall_anchor (unwatched pc) = pc_wall_anchor pc" "pc_sensor_instance_id (unwatched pc) = pc_sensor_instance_id pc"
  "pc_next_flow_sequence (unwatched pc) = pc_next_flow_sequence pc" "pc_clock_reads (unwatched pc) = pc_clock_reads pc"
  by (simp_all add: unwatched_def)

lemma unwatched_updates:
  "unwatched (pc\<lparr>pc_block_list := bl\<rparr>) = (unwatched pc)\<lparr>pc_block_list := bl\<rparr>"
  "unwatched (pc\<lparr>pc_flow_manager := fm\<rparr>) = (unwatched pc)\<lparr>pc_flow_manager := fm\<rparr>"
  "unwatched (pc\<lparr>pc_consumer := lc\<rparr>) = (unwatched pc)\<lparr>pc_consumer := snd lc\<rparr>"
  "unwatched (pc\<lparr>pc_handler_calls := hs\<rparr>) = (unwatched pc)\<lparr>pc_handler_calls := hs\<rparr>"
  "unwatched (pc\<lparr>pc_stats := st\<rparr>) = (unwatched pc)\<lparr>pc_stats := st\<rparr>"
  "unwatched (pc\<lparr>pc_next_flow_sequence := n\<rparr>) = (unwatched pc)\<lparr>pc_next_flow_sequence := n\<rparr>"
  "unwatched (pc\<lparr>pc_clock_reads := m\<rparr>) = (unwatched pc)\<lparr>pc_clock_reads := m\<rparr>"
  by (simp_all add: unwatched_def)

lemma watched_ops:
  "snd (snd (fc_consume (watched ops) r lc)) = snd (fc_consume ops r (snd lc))"
  "fst (snd (fc_consume (watched ops) r lc)) = fst lc @ [r]"
  "fst (fc_drain (watched ops) lc) = fst (fc_drain ops (snd lc))"
  "snd (snd (fc_drain (watched ops) lc)) = snd (fc_drain ops (snd lc))"
  "fst (snd (fc_drain (watched ops) lc)) = fst lc"
  by (simp_all add: watched_def split_beta)

text \<open>The pipeline runs as without the watch.\<close>

lemma unwatched_consume:
  "unwatched (consume_flow (watched ops) clock e pc) = consume_flow ops clock e (unwatched pc)"
  by (simp add: consume_flow_def read_clock_def next_flow_id_def to_epoch_ms_def Let_def unwatched_updates watched_ops)

lemma unwatched_consume_all:
  "unwatched (fold (consume_flow (watched ops) clock) es pc) = fold (consume_flow ops clock) es (unwatched pc)"
  by (induction es arbitrary: pc) (simp_all add: unwatched_consume)

lemma unwatched_finish:
  "unwatched (finish_flow (watched ops) clock p pc) = finish_flow ops clock p (unwatched pc)"
  by (simp add: finish_flow_def unwatched_consume unwatched_updates split: prod.split option.split)

lemma unwatched_on_packet:
  "on_packet ops clock data direction (unwatched pc) =
     map_prod id unwatched (on_packet (watched ops) clock data direction pc)"
  by (simp add: on_packet_def read_clock_def handle_inbound_def handle_outbound_def Let_def unwatched_updates
      unwatched_finish split_beta split: sum.split option.split)

lemma unwatched_decision: "unwatched (apply_decision now d pc) = apply_decision now d (unwatched pc)"
  by (simp add: apply_decision_def Let_def unwatched_updates)

lemma unwatched_decisions:
  "unwatched (fold (apply_decision now) ds pc) = fold (apply_decision now) ds (unwatched pc)"
  by (induction ds arbitrary: pc) (simp_all add: unwatched_decision)

lemma unwatched_on_tick: "unwatched (on_tick (watched ops) clock pc) = on_tick ops clock (unwatched pc)"
proof -
  let ?now = "clock (pc_clock_reads pc)"
  let ?a = "apply_ai_decisions (watched ops) ?now (snd (read_clock clock pc))"
  have a: "apply_ai_decisions ops ?now (snd (read_clock clock (unwatched pc))) = unwatched ?a"
    by (simp add: apply_ai_decisions_def read_clock_def split_beta unwatched_updates unwatched_decisions watched_ops)
  have t: "tick_flows ops clock ?now (unwatched ?a) = unwatched (tick_flows (watched ops) clock ?now ?a)"
    by (simp add: tick_flows_def split_beta Let_def unwatched_consume_all unwatched_updates)
  show ?thesis
    unfolding on_tick_parts Let_def by (simp add: a t unwatched_updates)
qed

lemma unwatched_run:
  "unwatched (pc_run (watched ops) clock (map watched_event evs) pc) = pc_run ops clock evs (unwatched pc)"
proof (induction evs arbitrary: pc)
  case (Cons ev evs)
  have "unwatched (pc_step (watched ops) clock (watched_event ev) pc) = pc_step ops clock ev (unwatched pc)"
    by (cases ev) (simp_all add: unwatched_on_packet unwatched_on_tick unwatched_updates split_beta)
  with Cons.IH show ?case by simp
qed simp

section \<open>The notes\<close>

definition log_inv :: "(flow_record list \<times> 'c) packet_capture \<Rightarrow> bool" where
  "log_inv pc \<longleftrightarrow>
     (let log = fst (pc_consumer pc) in
      (\<forall>r \<in> set log. record_ok (pc_whitelist pc) r) \<and>
      (length log < 2 ^ 64 - 1 \<longrightarrow>
         unat (pc_next_flow_sequence pc) = Suc (length log) \<and>
         map r_flow_id log = map (id_of (pc_sensor_instance_id pc)) [1 ..< Suc (length log)]))"

lemma log_inv_cong:
  "fst (pc_consumer pc') = fst (pc_consumer pc) \<Longrightarrow> pc_next_flow_sequence pc' = pc_next_flow_sequence pc \<Longrightarrow>
   pc_sensor_instance_id pc' = pc_sensor_instance_id pc \<Longrightarrow> pc_whitelist pc' = pc_whitelist pc \<Longrightarrow>
   log_inv pc' = log_inv pc"
  by (simp add: log_inv_def)

lemma consume_flow_noted:
  "fst (pc_consumer (consume_flow (watched ops) clock e pc)) =
     fst (pc_consumer pc) @ (if submitted clock e pc then [made_record e pc] else [])"
  by (simp add: consume_flow_consumer watched_ops)

lemma consume_flow_sequence:
  "pc_next_flow_sequence (consume_flow ops clock e pc) =
     pc_next_flow_sequence pc + (if submitted clock e pc then 1 else 0)"
  by (auto simp: consume_flow_def submitted_def read_clock_def next_flow_id_def Let_def)

lemma log_inv_consume_flow:
  assumes "log_inv pc"
  shows "log_inv (consume_flow (watched ops) clock e pc)"
proof -
  let ?pc = "consume_flow (watched ops) clock e pc"
  have same: "pc_sensor_instance_id ?pc = pc_sensor_instance_id pc" "pc_whitelist ?pc = pc_whitelist pc"
    using flow_side_consume_flow [of pc "watched ops" clock e] by (simp_all add: flow_side_def)
  show ?thesis
  proof (cases "submitted clock e pc")
    case True
    let ?n = "length (fst (pc_consumer pc))"
    have more': "unat (pc_next_flow_sequence pc + 1) = Suc (Suc ?n)"
      if "Suc ?n < 2 ^ 64 - 1" "unat (pc_next_flow_sequence pc) = Suc ?n"
      using that by (simp add: unat_plus_one)
    have id: "r_flow_id (made_record e pc) = id_of (pc_sensor_instance_id pc) (unat (pc_next_flow_sequence pc))"
      and ok: "record_ok (pc_whitelist pc) (made_record e pc)"
      using True by (simp_all add: made_record_def next_flow_id_def id_of_def record_ok_def length_features
          FLOW_FEATURE_COUNT_def FLOW_FEATURE_SCHEMA_VERSION_def submitted_def)
    from assms same True more' id ok show ?thesis
      by (auto simp: log_inv_def Let_def consume_flow_noted consume_flow_sequence)
  next
    case False
    with same assms show ?thesis
      by (subst log_inv_cong [of _ pc]) (simp_all add: consume_flow_noted consume_flow_sequence)
  qed
qed

lemma log_inv_consume_all: "log_inv pc \<Longrightarrow> log_inv (fold (consume_flow (watched ops) clock) es pc)"
  by (induction es arbitrary: pc) (simp_all add: log_inv_consume_flow)

lemma log_inv_frame [simp]:
  "log_inv (pc\<lparr>pc_flow_manager := fm\<rparr>) = log_inv pc"
  "log_inv (pc\<lparr>pc_clock_reads := n\<rparr>) = log_inv pc"
  "log_inv (pc\<lparr>pc_block_list := bl\<rparr>) = log_inv pc"
  "log_inv (pc\<lparr>pc_stats := st\<rparr>) = log_inv pc"
  "log_inv (pc\<lparr>pc_handler_calls := hs\<rparr>) = log_inv pc"
  by (simp_all add: log_inv_def)

lemma log_inv_finish_flow: "log_inv pc \<Longrightarrow> log_inv (finish_flow (watched ops) clock p pc)"
  by (cases "extract_completed (tuple p) (pc_flow_manager pc)")
     (auto simp: finish_flow_def log_inv_consume_flow split: option.split)

lemma log_inv_on_packet: "log_inv pc \<Longrightarrow> log_inv (snd (on_packet (watched ops) clock data direction pc))"
  by (auto simp: on_packet_def read_clock_def Let_def handle_inbound_def handle_outbound_def split_beta
      log_inv_finish_flow split: sum.split option.split)

lemma log_inv_decisions: "log_inv pc \<Longrightarrow> log_inv (fold (apply_decision now) ds pc)"
  by (induction ds arbitrary: pc) (simp_all add: apply_decision_def Let_def)

lemma log_inv_on_tick:
  assumes "log_inv pc"
  shows "log_inv (on_tick (watched ops) clock pc)"
proof -
  let ?pc = "apply_ai_decisions (watched ops) (clock (pc_clock_reads pc)) (snd (read_clock clock pc))"
  have "log_inv (pc\<lparr>pc_clock_reads := n, pc_consumer := snd (fc_drain (watched ops) (pc_consumer pc))\<rparr>)" for n
    using assms by (subst log_inv_cong [of _ pc]) (simp_all add: watched_ops)
  then have "log_inv ?pc"
    by (simp add: apply_ai_decisions_def read_clock_def split_beta log_inv_decisions)
  then show ?thesis by (simp add: on_tick_parts Let_def tick_flows_def split_beta log_inv_consume_all)
qed

lemma log_inv_run:
  "log_inv pc \<Longrightarrow> log_inv (pc_run (watched ops) clock (map watched_event evs) pc)"
proof (induction evs arbitrary: pc)
  case (Cons ev evs)
  have "log_inv (pc_step (watched ops) clock (watched_event ev) pc)"
  proof (cases ev)
    case (Consumer_runs f)
    then show ?thesis using Cons.prems by (subst log_inv_cong [of _ pc]) (simp_all add: split_beta)
  qed (use Cons.prems in \<open>simp_all add: log_inv_on_packet log_inv_on_tick\<close>)
  with Cons.IH show ?case by simp
qed simp

text \<open>C38. Whatever the consumer is, and whatever its threads do, the records the pipeline gives to it are
  numbered and well formed: their identifiers are the sensor's instance with the numbers one, two, three
  and so on, hence all different, up to \<open>2 ^ 64 - 2\<close> records, and the sensor's own counter says how many
  they are; each has the 27 features of schema version one, and none is about a whitelisted source. The
  records are those noted by a watched consumer; the pipeline runs with it as it does with the consumer
  itself.\<close>

theorem records_numbered:
  assumes "length (fst (pc_consumer (pc_run (watched ops) clock (map watched_event evs)
      (new_packet_capture reserved clock wall cfg wl ([], c) h)))) < 2 ^ 64 - 1"
  shows "let noted = pc_run (watched ops) clock (map watched_event evs)
        (new_packet_capture reserved clock wall cfg wl ([], c) h);
      run = pc_run ops clock evs (new_packet_capture reserved clock wall cfg wl c h); log = fst (pc_consumer noted) in
    unwatched noted = run \<and> unat (pc_next_flow_sequence run) = Suc (length log) \<and>
    map r_flow_id log = map (id_of (string_of_int (to_microseconds wall))) [1 ..< Suc (length log)] \<and>
    distinct (map r_flow_id log) \<and> list_all (record_ok wl) log"
proof -
  let ?start = "new_packet_capture reserved clock wall cfg wl ([], c) h"
  let ?noted = "pc_run (watched ops) clock (map watched_event evs) ?start"
  let ?run = "pc_run ops clock evs (new_packet_capture reserved clock wall cfg wl c h)"
  have "log_inv ?start" by (simp add: log_inv_def new_packet_capture_def)
  note inv = log_inv_run [OF this, of ops clock evs]
  have "unwatched ?start = new_packet_capture reserved clock wall cfg wl c h"
    by (simp add: unwatched_def new_packet_capture_def)
  then have run: "unwatched ?noted = ?run" by (simp add: unwatched_run)
  have "pc_whitelist ?noted = wl" "pc_sensor_instance_id ?noted = string_of_int (to_microseconds wall)"
    by (simp_all add: whitelist_run sensor_run) (simp_all add: new_packet_capture_def)
  with inv assms have log: "unat (pc_next_flow_sequence ?noted) = Suc (length (fst (pc_consumer ?noted)))"
    "map r_flow_id (fst (pc_consumer ?noted)) =
      map (id_of (string_of_int (to_microseconds wall))) [1 ..< Suc (length (fst (pc_consumer ?noted)))]"
    "list_all (record_ok wl) (fst (pc_consumer ?noted))"
    by (simp_all add: log_inv_def Let_def list_all_iff)
  have "distinct (map (id_of s) [1 ..< n])" for s n
    by (simp add: distinct_map inj_on_def id_of_def)
  then have "distinct (map r_flow_id (fst (pc_consumer ?noted)))" unfolding log(2) .
  with log run show ?thesis unfolding Let_def by (metis unwatched_fields(13))
qed

text \<open>The asynchronous client, and the conversation of Request_Properties that is refused: one record.\<close>

lemma finish_adds_one:
  "length (fst (pc_consumer (finish_flow (watched ops) clock p pc))) \<le> Suc (length (fst (pc_consumer pc)))"
  by (auto simp: finish_flow_def consume_flow_noted split: prod.split option.split)

lemma packet_adds_one:
  "length (fst (pc_consumer (snd (on_packet (watched ops) clock data d pc)))) \<le> Suc (length (fst (pc_consumer pc)))"
proof -
  have "length (fst (pc_consumer (finish_flow (watched ops) clock p (pc\<lparr>pc_clock_reads := n, pc_flow_manager := fm\<rparr>))))
      \<le> Suc (length (fst (pc_consumer pc)))" for p n fm
    using finish_adds_one [of ops clock p "pc\<lparr>pc_clock_reads := n, pc_flow_manager := fm\<rparr>"] by simp
  then show ?thesis
    by (auto simp: on_packet_def read_clock_def Let_def handle_inbound_def handle_outbound_def split_beta
        split: sum.split option.split)
qed

theorem records_numbered_witness:
  "map r_flow_id (fst (pc_consumer (pc_run (watched (async_consumer 0)) (\<lambda>n. 5)
      [Packet (Some opening_segment) INBOUND, Packet (Some refusing_segment) OUTBOUND]
      (new_packet_capture Suc (\<lambda>n. 5) 0 default_config {} ([], sample_online) False)))) = [''0-1'']"
proof -
  let ?evs = "[Packet (Some opening_segment) INBOUND, Packet (Some refusing_segment) OUTBOUND] :: ai_client capture_event list"
  let ?start = "new_packet_capture Suc (\<lambda>n. 5) 0 default_config {} ([], sample_online) False"
  let ?log = "fst (pc_consumer (pc_run (watched (async_consumer 0)) (\<lambda>n. 5) (map watched_event ?evs) ?start))"
  let ?one = "snd (on_packet (watched (async_consumer 0)) (\<lambda>n. 5) (Some opening_segment) INBOUND ?start)"
  have empty: "fst (pc_consumer ?start) = []" by (simp add: new_packet_capture_def)
  have "length (fst (pc_consumer ?one)) \<le> 1"
    using packet_adds_one [of "async_consumer 0" "\<lambda>n. 5" "Some opening_segment" INBOUND ?start] unfolding empty by simp
  then have "length ?log \<le> 2"
    using packet_adds_one [of "async_consumer 0" "\<lambda>n. 5" "Some refusing_segment" OUTBOUND ?one] by simp
  then have few: "length ?log < 2 ^ 64 - 1" by simp
  obtain fm where "pc_run (async_consumer 0) (\<lambda>n. 5) ?evs idle_sensor =
      consume_flow (async_consumer 0) (\<lambda>n. 5) ended_by_rst (after_syn\<lparr>pc_clock_reads := 3, pc_flow_manager := fm\<rparr>)"
    using rst_consumes [of "async_consumer 0"] by (auto simp: syn_step)
  then have "pc_next_flow_sequence (pc_run (async_consumer 0) (\<lambda>n. 5) ?evs idle_sensor) = 2"
    by (simp add: consume_flow_sequence rst_submitted after_syn_fields)
      (simp add: after_syn_def idle_sensor_def new_packet_capture_def)
  with records_numbered [OF few] have "length ?log = 1"
    "map r_flow_id ?log = map (id_of (string_of_int (to_microseconds 0))) [1 ..< Suc (length ?log)]"
    by (simp_all add: Let_def idle_sensor_def)
  then show ?thesis by (simp add: id_of_def string_of_int_def to_microseconds_def string_of_nat.simps)
qed

end
