(* ===== verification/Tray.thy ===== *)
theory Tray
  imports Supervisor Packet_Capture
begin

text \<open>
  ui/tray_controller.h and ui/tray_controller.cpp: the icon in the system tray. What the desktop shows
  is the state: the colour and the tool tip of the icon, and the balloons and boxes in the order in
  which they came up. The texts are constructors with the values that are put into them; painting the
  icon is left to Qt. Without a system tray nothing is created and every call returns at once.
  A click on an entry of the menu runs the handler of the entry; an exception of it ends there.
\<close>

section \<open>What is shown\<close>

type_synonym color = "int \<times> int \<times> int"

datatype tray_text = Before_start | Version_text string | Detail_text detail

record status_report =
  sr_ai_state :: string
  sr_model_version :: string
  sr_uptime_seconds :: int
  sr_restarts :: u64
  sr_submitted :: u64
  sr_dropped :: u64
  sr_normal_responses :: u64
  sr_anomaly_responses :: u64
  sr_rule_blocks :: u64
  sr_ai_new_blocks :: u64
  sr_ai_duplicates :: u64
  sr_ai_whitelisted :: u64
  sr_protocol_errors :: u64
  sr_timeouts :: u64

datatype tray_message =
    Block_balloon u32 int double double
  | Offline_balloon detail
  | Status_box status_report

record tray =
  tr_available :: bool
  tr_offline_shown :: bool
  tr_icon :: "(color \<times> tray_text) option"
  tr_messages :: "tray_message list"

fun state_color :: "ai_state \<Rightarrow> color" where
  "state_color ONLINE = (46, 204, 113)"
| "state_color DISABLED = (241, 196, 15)"
| "state_color OFFLINE = (241, 196, 15)"
| "state_color STARTING = (128, 128, 128)"
| "state_color RESTART_WAIT = (128, 128, 128)"
| "state_color STOPPING = (128, 128, 128)"

definition new_tray :: "bool \<Rightarrow> tray" where
  "new_tray system_tray =
     \<lparr>tr_available = system_tray, tr_offline_shown = False,
      tr_icon = (if system_tray then Some (state_color STARTING, Before_start) else None),
      tr_messages = []\<rparr>"

section \<open>Calls\<close>

definition set_ai_state :: "ai_state \<Rightarrow> tray_text \<Rightarrow> tray \<Rightarrow> tray" where
  "set_ai_state s text_shown tr =
     (if \<not> tr_available tr then tr
      else tr\<lparr>tr_offline_shown := (if s = ONLINE then False else tr_offline_shown tr),
              tr_icon := Some (state_color s, text_shown)\<rparr>)"

definition show_ai_block :: "ai_block_event \<Rightarrow> tray \<Rightarrow> tray" where
  "show_ai_block event tr =
     (if \<not> tr_available tr then tr
      else tr\<lparr>tr_messages := tr_messages tr @
                [Block_balloon (ev_source_ip event) (ev_ttl_seconds event) (ev_score event) (ev_threshold event)]\<rparr>)"

definition show_ai_offline :: "detail \<Rightarrow> tray \<Rightarrow> tray" where
  "show_ai_offline reason tr =
     (if \<not> tr_available tr \<or> tr_offline_shown tr then tr
      else tr\<lparr>tr_offline_shown := True, tr_messages := tr_messages tr @ [Offline_balloon reason]\<rparr>)"

definition show_status :: "status_report \<Rightarrow> tray \<Rightarrow> tray" where
  "show_status r tr =
     (if \<not> tr_available tr then tr else tr\<lparr>tr_messages := tr_messages tr @ [Status_box r]\<rparr>)"

definition destroy_tray :: "tray \<Rightarrow> tray" where
  "destroy_tray tr = tr\<lparr>tr_icon := None\<rparr>"

text \<open>A handler works on the state of its owner and may raise an exception, which is only logged.\<close>

definition menu_triggered :: "('s \<Rightarrow> string option \<times> 's) option \<Rightarrow> 's \<Rightarrow> 's" where
  "menu_triggered handler s = (case handler of None \<Rightarrow> s | Some f \<Rightarrow> snd (f s))"

definition is_available :: "tray \<Rightarrow> bool" where
  "is_available tr = tr_available tr"

end
