(* ===== verification/Application.thy ===== *)
theory Application
  imports Async_Client Tray Packet_Source White_List
begin

text \<open>
  app/application_controller.h and app/application_controller.cpp, which wire the client, the
  supervisor, the capture and the tray together, and main.cpp, which checks the configuration before
  the controller is built.

  The handlers the controller gives the supervisor touch only the client and the tray, which the
  supervisor never reads. A call or slot of the supervisor therefore acts on the controller by its new
  notifications, in their order. What is posted to the event loop is one function each, run when the
  loop comes to it. Stopping the client joins its worker: the argument \<open>join\<close> lets the worker run to its
  end (\<open>join_worker\<close>). The capture thread is a flag, which is false again once it has been joined, and
  whether the system can create it is an argument.
\<close>

section \<open>The state\<close>

record app_controller =
  app_started_at :: time_point
  app_client :: ai_client
  app_supervisor :: ai_supervisor
  app_tray :: tray
  app_capture_stopped :: bool
  app_capture_thread :: bool
  app_started :: bool
  app_stopping :: bool
  app_exit_code :: "int option"

definition new_controller :: "time_point \<Rightarrow> bool \<Rightarrow> config \<Rightarrow> nat \<Rightarrow> string \<Rightarrow> app_controller" where
  "new_controller now system_tray cfg pid cwd =
     \<lparr>app_started_at = now, app_client = new_client (ai_section cfg),
      app_supervisor = new_supervisor (ai_section cfg) pid cwd, app_tray = new_tray system_tray, app_capture_stopped = False, app_capture_thread = False, app_started = False,
      app_stopping = False, app_exit_code = None\<rparr>"

fun ai_state_to_string :: "ai_state \<Rightarrow> string" where
  "ai_state_to_string DISABLED = ''DISABLED''"
| "ai_state_to_string STARTING = ''STARTING''"
| "ai_state_to_string ONLINE = ''ONLINE''"
| "ai_state_to_string RESTART_WAIT = ''RESTART_WAIT''"
| "ai_state_to_string OFFLINE = ''OFFLINE''"
| "ai_state_to_string STOPPING = ''STOPPING''"

section \<open>The handlers of the supervisor\<close>

definition on_ready :: "string \<Rightarrow> string \<Rightarrow> app_controller \<Rightarrow> app_controller" where
  "on_ready endpoint version a =
     a\<lparr>app_client := set_online endpoint version (app_client a),
       app_tray := set_ai_state ONLINE (Version_text version) (app_tray a)\<rparr>"

definition on_state :: "ai_state \<Rightarrow> detail \<Rightarrow> app_controller \<Rightarrow> app_controller" where
  "on_state s d a =
     (if s = ONLINE then a
      else
        let tr = set_ai_state s (Detail_text d) (app_tray a) in
        a\<lparr>app_client := set_offline (app_client a),
          app_tray := (if s = OFFLINE then show_ai_offline d tr else tr)\<rparr>)"

fun notify :: "effect \<Rightarrow> app_controller \<Rightarrow> app_controller" where
  "notify (Ready_notified endpoint version) a = on_ready endpoint version a"
| "notify (State_notified s d) a = on_state s d a"
| "notify _ a = a"

definition supervised :: "(ai_supervisor \<Rightarrow> ai_supervisor) \<Rightarrow> app_controller \<Rightarrow> app_controller" where
  "supervised f a =
     (let sv = app_supervisor a; sv' = f sv
      in fold notify (drop (length (sv_effects sv)) (sv_effects sv')) (a\<lparr>app_supervisor := sv'\<rparr>))"

section \<open>Calls and posted functions\<close>

definition controller_start ::
    "(ai_client \<Rightarrow> ai_client) \<Rightarrow> bool \<Rightarrow> (ai_supervisor \<Rightarrow> ai_supervisor) \<Rightarrow> app_controller \<Rightarrow>
     bool \<times> app_controller" where
  "controller_start join thread_ok start_supervisor a =
     (if app_started a \<or> app_stopping a then (False, a)
      else
        let a = a\<lparr>app_started := True, app_client := client_start (app_client a)\<rparr> in
        if \<not> thread_ok then (False, a\<lparr>app_client := join (client_stop (app_client a)), app_started := False\<rparr>)
        else (True, supervised start_supervisor (a\<lparr>app_capture_thread := True\<rparr>)))"

definition begin_shutdown ::
    "(ai_client \<Rightarrow> ai_client) \<Rightarrow> (ai_supervisor \<Rightarrow> ai_supervisor) \<Rightarrow> int \<Rightarrow> app_controller \<Rightarrow> app_controller" where
  "begin_shutdown join stop_supervisor exit_code a =
     (if app_stopping a then a
      else
        let a = a\<lparr>app_stopping := True, app_tray := set_ai_state STOPPING (Detail_text Shutting_down) (app_tray a),
                  app_capture_stopped := True, app_client := join (client_stop (app_client a))\<rparr>;
            a = supervised stop_supervisor a
        in a\<lparr>app_capture_thread := False, app_exit_code := Some exit_code\<rparr>)"

definition posted_transport_failure ::
    "(ai_supervisor \<Rightarrow> ai_supervisor) \<Rightarrow> app_controller \<Rightarrow> app_controller" where
  "posted_transport_failure report a = (if \<not> app_stopping a then supervised report a else a)"

definition posted_ai_block :: "ai_block_event \<Rightarrow> app_controller \<Rightarrow> app_controller" where
  "posted_ai_block event a =
     (if \<not> app_stopping a then a\<lparr>app_tray := show_ai_block event (app_tray a)\<rparr> else a)"

definition posted_capture_result ::
    "(ai_client \<Rightarrow> ai_client) \<Rightarrow> (ai_supervisor \<Rightarrow> ai_supervisor) \<Rightarrow> bool \<Rightarrow> app_controller \<Rightarrow> app_controller" where
  "posted_capture_result join stop_supervisor ok a =
     (if \<not> app_stopping a \<and> \<not> ok then begin_shutdown join stop_supervisor 1 a else a)"

definition destroy_controller ::
    "(ai_client \<Rightarrow> ai_client) \<Rightarrow> (ai_supervisor \<Rightarrow> ai_supervisor) \<Rightarrow> app_controller \<Rightarrow> app_controller" where
  "destroy_controller join stop_supervisor a = begin_shutdown join stop_supervisor 0 a"

section \<open>The status\<close>

text \<open>\<open>duration_cast<seconds>\<close> truncates to zero; the sum of the drops wraps like the counters.\<close>

definition format_status :: "time_point \<Rightarrow> capture_stats \<Rightarrow> app_controller \<Rightarrow> status_report" where
  "format_status now capture a =
     (let supervisor = snapshot (app_supervisor a); client = client_stats_of (app_client a) in
      \<lparr>sr_ai_state = ai_state_to_string (sn_state supervisor),
       sr_model_version = (if sn_model_version supervisor = [] then ''-'' else sn_model_version supervisor),
       sr_uptime_seconds = (now - app_started_at a) sdiv 1000000000,
       sr_restarts = sn_restart_count supervisor,
       sr_submitted = st_submitted client,
       sr_dropped = st_unavailable_dropped client + st_queue_full_dropped client,
       sr_normal_responses = st_normal_responses client, sr_anomaly_responses = st_anomaly_responses client,
       sr_rule_blocks = cs_rule_blocks capture, sr_ai_new_blocks = cs_ai_new_blocks capture,
       sr_ai_duplicates = cs_ai_duplicates capture, sr_ai_whitelisted = cs_ai_whitelisted capture,
       sr_protocol_errors = st_protocol_errors client, sr_timeouts = st_timeouts client\<rparr>)"

definition status_asked :: "time_point \<Rightarrow> capture_stats \<Rightarrow> app_controller \<Rightarrow> app_controller" where
  "status_asked now capture a = a\<lparr>app_tray := show_status (format_status now capture a) (app_tray a)\<rparr>"

text \<open>The entries of the menu, and the timer of \<open>main\<close> that looks for a signal of the system.\<close>

definition menu_status :: "time_point \<Rightarrow> capture_stats \<Rightarrow> app_controller \<Rightarrow> app_controller" where
  "menu_status now capture a = menu_triggered (Some (\<lambda>a. (None, status_asked now capture a))) a"

definition menu_exit ::
    "(ai_client \<Rightarrow> ai_client) \<Rightarrow> (ai_supervisor \<Rightarrow> ai_supervisor) \<Rightarrow> app_controller \<Rightarrow> app_controller" where
  "menu_exit join stop_supervisor a =
     menu_triggered (Some (\<lambda>a. (None, begin_shutdown join stop_supervisor 0 a))) a"

definition signal_timeout ::
    "(ai_client \<Rightarrow> ai_client) \<Rightarrow> (ai_supervisor \<Rightarrow> ai_supervisor) \<Rightarrow> bool \<Rightarrow> app_controller \<Rightarrow> app_controller" where
  "signal_timeout join stop_supervisor shutdown_requested a =
     (if shutdown_requested then begin_shutdown join stop_supervisor 0 a else a)"

section \<open>Everything that runs\<close>

text \<open>
  One step of the running program as the controller sees it: a call or slot of the supervisor, a step
  of the client's other callers or of its worker, and the controller's own functions. The client is
  brought online and offline only by the notifications, and stopped only by the controller.
\<close>

inductive client_runs :: "(flow_record \<Rightarrow> string) \<Rightarrow> (string \<Rightarrow> json option) \<Rightarrow> ai_client \<Rightarrow> ai_client \<Rightarrow> bool"
  for request :: "flow_record \<Rightarrow> string" and json_parse :: "string \<Rightarrow> json option" where
  Consumes: "client_runs request json_parse c (snd (client_consume now r c))"
| Drains: "client_runs request json_parse c (snd (client_drain c))"
| Picks: "c_worker c = W_waiting \<Longrightarrow> worker_pick c = Some c' \<Longrightarrow> client_runs request json_parse c c'"
| Exchanges: "c_worker c = W_exchanging r g e m \<Longrightarrow>
    client_runs request json_parse c (worker_exchange request ex r g e m c)"
| Replies: "c_worker c = W_replied r g m text \<Longrightarrow>
    client_runs request json_parse c (worker_reply json_parse r g m text c)"
| Protocol_errors: "c_worker c = W_error g \<Longrightarrow> client_runs request json_parse c (worker_error g c)"
| Normals: "c_worker c = W_normal g \<Longrightarrow> client_runs request json_parse c (worker_normal g c)"
| Decides: "c_worker c = W_deciding d g \<Longrightarrow> worker_decide d g c = Some c' \<Longrightarrow>
    client_runs request json_parse c c'"
| Fails: "c_worker c = W_failing reason timed_out g \<Longrightarrow>
    client_runs request json_parse c (worker_fail reason timed_out g c)"

inductive app_step ::
    "(flow_record \<Rightarrow> string) \<Rightarrow> (string \<Rightarrow> json option) \<Rightarrow> (string \<Rightarrow> string \<Rightarrow> string option) \<Rightarrow>
     app_controller \<Rightarrow> app_controller \<Rightarrow> bool"
  for request :: "flow_record \<Rightarrow> string" and json_parse :: "string \<Rightarrow> json option"
    and ready_handler :: "string \<Rightarrow> string \<Rightarrow> string option" where
  Supervisor_turn: "sup_step json_parse ready_handler (app_supervisor a) t sv' \<Longrightarrow>
    app_step request json_parse ready_handler a (supervised (\<lambda>sv. sv') a)"
| Client_turn: "client_runs request json_parse (app_client a) c' \<Longrightarrow>
    app_step request json_parse ready_handler a (a\<lparr>app_client := c'\<rparr>)"
| Start_call: "validate_python_paths fs (sv_working_directory (app_supervisor a)) = Some checked \<Longrightarrow>
    app_step request json_parse ready_handler a
      (snd (controller_start (join_worker request json_parse ex') thread_ok
        (supervisor_start (stop_process json_parse ready_handler w) checked (socket_removed ex rm)) a))"
| Shutdown_call: "app_step request json_parse ready_handler a
    (begin_shutdown (join_worker request json_parse ex') (supervisor_stop (stop_process json_parse ready_handler w))
      exit_code a)"
| Transport_failure_posted: "app_step request json_parse ready_handler a
    (posted_transport_failure (report_transport_failure (stop_process json_parse ready_handler w) reason) a)"
| Ai_block_posted: "app_step request json_parse ready_handler a (posted_ai_block event a)"
| Status_menu: "tr_available (app_tray a) \<Longrightarrow>
    app_step request json_parse ready_handler a (menu_status now capture a)"
| Exit_menu: "tr_available (app_tray a) \<Longrightarrow>
    app_step request json_parse ready_handler a
    (menu_exit (join_worker request json_parse ex') (supervisor_stop (stop_process json_parse ready_handler w)) a)"
| Signal_timer: "app_step request json_parse ready_handler a
    (signal_timeout (join_worker request json_parse ex') (supervisor_stop (stop_process json_parse ready_handler w))
      requested a)"
| Capture_result_posted: "app_step request json_parse ready_handler a
    (posted_capture_result (join_worker request json_parse ex')
      (supervisor_stop (stop_process json_parse ready_handler w)) ok a)"

inductive app_reach ::
    "(flow_record \<Rightarrow> string) \<Rightarrow> (string \<Rightarrow> json option) \<Rightarrow> (string \<Rightarrow> string \<Rightarrow> string option) \<Rightarrow>
     config \<Rightarrow> nat \<Rightarrow> string \<Rightarrow> app_controller \<Rightarrow> bool"
  for request :: "flow_record \<Rightarrow> string" and json_parse :: "string \<Rightarrow> json option"
    and ready_handler :: "string \<Rightarrow> string \<Rightarrow> string option" and cfg :: config and pid :: nat and cwd :: string where
  Built: "app_reach request json_parse ready_handler cfg pid cwd (new_controller now system_tray cfg pid cwd)"
| Runs: "app_reach request json_parse ready_handler cfg pid cwd a \<Longrightarrow>
    app_step request json_parse ready_handler a a' \<Longrightarrow>
    app_reach request json_parse ready_handler cfg pid cwd a'"

section \<open>The entry point\<close>

text \<open>What \<open>main\<close> does before it builds the controller: it ends with status 1, or goes on with a
  configuration and a loaded whitelist.\<close>

datatype prepared = Refused int | Prepared config whitelist

definition main_prepare ::
    "(string \<Rightarrow> json option) \<Rightarrow> (string \<Rightarrow> u32 option) \<Rightarrow> nat \<Rightarrow> string option \<Rightarrow> prepared" where
  "main_prepare json_parse inet_pton euid file =
     (if euid \<noteq> 0 then Refused 1
      else case load_config json_parse file of
        None \<Rightarrow> Refused 1
      | Some cfg \<Rightarrow>
          (case whitelist_load inet_pton (Config.whitelist cfg) {} of
             (wl, False) \<Rightarrow> Refused 1
           | (wl, True) \<Rightarrow> Prepared cfg wl))"

text \<open>
  How the program ends, with its status: refused; with a controller that did not start; or when the
  event loop is left, after one more \<open>begin_shutdown\<close> with the code the loop returned. That is the code
  given to \<open>exit\<close> by an earlier shutdown; without one the loop was ended from outside, with any code. The
  destructor of the controller then calls \<open>begin_shutdown\<close> again.
\<close>

inductive main_ends ::
    "(flow_record \<Rightarrow> string) \<Rightarrow> (string \<Rightarrow> json option) \<Rightarrow> (string \<Rightarrow> string \<Rightarrow> string option) \<Rightarrow>
     prepared \<Rightarrow> nat \<Rightarrow> string \<Rightarrow> int \<Rightarrow> app_controller option \<Rightarrow> bool"
  for request :: "flow_record \<Rightarrow> string" and json_parse :: "string \<Rightarrow> json option"
    and ready_handler :: "string \<Rightarrow> string \<Rightarrow> string option" and p :: prepared and pid :: nat and cwd :: string where
  Refuses: "p = Refused status \<Longrightarrow> main_ends request json_parse ready_handler p pid cwd status None"
| Does_not_start: "p = Prepared cfg wl \<Longrightarrow>
    validate_python_paths fs cwd = Some checked \<Longrightarrow>
    controller_start (join_worker request json_parse ex1) thread_ok
      (supervisor_start (stop_process json_parse ready_handler w) checked (socket_removed ex rm))
      (new_controller now system_tray cfg pid cwd) = (False, a) \<Longrightarrow>
    main_ends request json_parse ready_handler p pid cwd 1
      (Some (destroy_controller (join_worker request json_parse ex2)
        (supervisor_stop (stop_process json_parse ready_handler w')) a))"
| Leaves_loop: "p = Prepared cfg wl \<Longrightarrow>
    validate_python_paths fs cwd = Some checked \<Longrightarrow>
    controller_start (join_worker request json_parse ex1) thread_ok
      (supervisor_start (stop_process json_parse ready_handler w) checked (socket_removed ex rm))
      (new_controller now system_tray cfg pid cwd) = (True, a) \<Longrightarrow>
    (app_step request json_parse ready_handler)\<^sup>*\<^sup>* a b \<Longrightarrow>
    (case app_exit_code b of Some requested \<Rightarrow> code = requested | None \<Rightarrow> True) \<Longrightarrow>
    main_ends request json_parse ready_handler p pid cwd code
      (Some (destroy_controller (join_worker request json_parse ex3)
        (supervisor_stop (stop_process json_parse ready_handler w''))
        (begin_shutdown (join_worker request json_parse ex2)
          (supervisor_stop (stop_process json_parse ready_handler w')) code b)))"

end
