(* ===== verification/Application_Properties.thy ===== *)
theory Application_Properties
  imports Application Supervisor_Properties Client_Properties
begin

text \<open>
  What holds between the parts the controller wires together: the client talks to a server only while
  the supervisor vouches for the process, with the endpoint and the version of that process; a
  shutdown stops every part once and keeps its exit code; and nothing starts before the configuration
  and the whitelist are sound.
\<close>

section \<open>What the notifications say\<close>

text \<open>The connection the notifications so far ask for.\<close>

definition asked :: "(string \<times> string) option \<Rightarrow> effect \<Rightarrow> (string \<times> string) option" where
  "asked c e =
     (case e of Ready_notified endpoint version \<Rightarrow> Some (endpoint, version)
      | State_notified s d \<Rightarrow> (if s = ONLINE then c else None) | _ \<Rightarrow> c)"

definition connection :: "ai_supervisor \<Rightarrow> (string \<times> string) option" where
  "connection sv = foldl asked None (sv_effects sv)"

text \<open>The state and the text of the last notification; none has come when the tray still shows what it
  showed first.\<close>

definition noted :: "(ai_state \<times> tray_text) option \<Rightarrow> effect \<Rightarrow> (ai_state \<times> tray_text) option" where
  "noted c e =
     (case e of Ready_notified endpoint version \<Rightarrow> Some (ONLINE, Version_text version)
      | State_notified s d \<Rightarrow> (if s = ONLINE then c else Some (s, Detail_text d)) | _ \<Rightarrow> c)"

definition notice :: "ai_supervisor \<Rightarrow> (ai_state \<times> tray_text) option" where
  "notice sv = foldl noted None (sv_effects sv)"

definition state_notice :: "ai_supervisor \<Rightarrow> ai_state \<times> tray_text" where
  "state_notice sv =
     (sv_state sv, if sv_state sv = ONLINE then Version_text (sv_model_version sv) else Detail_text (sv_detail sv))"

definition vouched :: "ai_supervisor \<Rightarrow> bool" where
  "vouched sv \<longleftrightarrow>
     connection sv = (if sv_state sv = ONLINE then Some (sv_endpoint sv, sv_model_version sv) else None) \<and>
     (notice sv = Some (state_notice sv) \<or> notice sv = None \<and> state_notice sv = (DISABLED, Detail_text No_detail)) \<and>
     (sv_state sv = STOPPING \<longrightarrow> sv_detail sv = Shutting_down)"

text \<open>A slot only adds notifications, and keeps them in line with the state.\<close>

definition advances :: "ai_supervisor \<Rightarrow> ai_supervisor \<Rightarrow> bool" where
  "advances sv sv' \<longleftrightarrow> (\<exists>es. sv_effects sv' = sv_effects sv @ es) \<and> (vouched sv \<longrightarrow> vouched sv')"

lemma advances_refl [simp]: "advances sv sv"
  by (simp add: advances_def)

lemma advances_trans: "advances a b \<Longrightarrow> advances b c \<Longrightarrow> advances a c"
  by (auto simp: advances_def)

lemmas note_defs = connection_def asked_def notice_def noted_def state_notice_def

lemma stop_effects_asked:
  "es \<in> stop_effects \<Longrightarrow> foldl asked c es = c" "es \<in> stop_effects \<Longrightarrow> foldl noted n es = n"
  by (auto simp: stop_effects_def asked_def noted_def)

lemma advances_rebuffered: "rebuffered sv sv' \<Longrightarrow> advances sv sv'"
  by (auto simp: rebuffered_def rebuffer_def advances_def vouched_def note_defs)

lemma after_failure_vouched:
  "es \<in> stop_effects \<Longrightarrow> vouched (after_failure reason es sv)"
  by (simp add: vouched_def note_defs after_failure_def Let_def stop_effects_asked)

lemma after_failure_advances: "es \<in> stop_effects \<Longrightarrow> advances sv (after_failure reason es sv)"
  by (simp add: advances_def after_failure_vouched) (simp add: after_failure_def Let_def)

context quiet_stop
begin

lemma failure_advances: "advances sv (handle_failure stop reason sv)"
proof (cases "sv_stop_requested sv \<or> sv_state sv = STOPPING \<or> sv_failure_handled sv")
  case True
  then show ?thesis by (simp add: handle_failure_def)
next
  case False
  then obtain es where es: "es \<in> stop_effects"
    "rebuffered (after_failure reason es sv) (handle_failure stop reason sv)"
    using failure_result [of sv reason] by auto
  show ?thesis by (rule advances_trans [OF after_failure_advances [OF es(1)] advances_rebuffered [OF es(2)]])
qed

lemma failure_vouched:
  assumes "attempt_ok sv"
  shows "vouched (handle_failure stop reason sv)"
proof -
  have "\<not> sv_stop_requested sv" "sv_state sv \<noteq> STOPPING" "\<not> sv_failure_handled sv"
    using assms by (auto simp: attempt_ok_def)
  from failure_result [OF this, of reason] obtain es where es: "es \<in> stop_effects"
    "rebuffered (after_failure reason es sv) (handle_failure stop reason sv)" by blast
  show ?thesis
    using after_failure_vouched [OF es(1)] advances_rebuffered [OF es(2)] by (simp add: advances_def)
qed

lemma line_advances:
  assumes "core_inv sv"
  shows "advances sv (handle_stdout_line jp rh stop line sv)"
proof (cases "sv_state sv = STARTING \<and> ready_line jp line \<noteq> None")
  case True
  then obtain v where v: "ready_line jp line = Some v" by blast
  let ?s = "effect (Ready_notified (sv_endpoint sv) v) (sv\<lparr>sv_startup_timer := None, sv_model_version := v\<rparr>)"
  show ?thesis
  proof (cases "rh (sv_endpoint sv) v")
    case None
    then show ?thesis using True v
      by (simp add: handle_stdout_line_def Let_def effect_def set_state_def advances_def vouched_def
          note_defs)
  next
    case (Some e)
    have ok: "attempt_ok ?s" using assms True by (auto simp: core_inv_def attempt_ok_def effect_def)
    obtain es where "sv_effects (handle_failure stop (Ready_handler_error e) ?s) = sv_effects ?s @ es"
      using failure_advances [of ?s "Ready_handler_error e"] by (auto simp: advances_def)
    then show ?thesis using True v Some failure_vouched [OF ok]
      by (simp add: handle_stdout_line_def Let_def effect_def advances_def)
  qed
next
  case False
  then show ?thesis by (auto simp: handle_stdout_line_def)
qed

lemma loop_advances:
  assumes "core_inv sv" "sv_state sv \<noteq> DISABLED"
  shows "advances sv (stdout_loop jp rh stop n sv)"
  using assms
proof (induction n arbitrary: sv)
  case (Suc n)
  show ?case
  proof (cases "next_line (sv_stdout_buffer sv)")
    case (Some lr)
    obtain line rest where lr: "lr = (line, rest)" by (cases lr)
    let ?sv = "sv\<lparr>sv_stdout_buffer := rest\<rparr>"
    let ?l = "handle_stdout_line jp rh stop (chop_cr line) ?sv"
    have c: "core_inv ?sv" "sv_state ?sv \<noteq> DISABLED" using Suc.prems by (simp_all add: core_inv_def)
    have a1: "advances sv ?sv" by (simp add: advances_def vouched_def note_defs)
    have a2: "advances ?sv ?l" by (rule line_advances [OF c(1)])
    have a3: "advances ?l (stdout_loop jp rh stop n ?l)" by (rule Suc.IH) (use line_ok [OF c] in simp_all)
    show ?thesis using advances_trans [OF a1 advances_trans [OF a2 a3]] Some lr by simp
  qed simp
qed simp

lemma stdout_advances:
  assumes "core_inv sv" "sv_state sv \<noteq> DISABLED"
  shows "advances sv (handle_stdout jp rh stop bytes sv)"
proof -
  let ?sv = "sv\<lparr>sv_stdout_buffer := sv_stdout_buffer sv @ bytes\<rparr>"
  have c: "core_inv ?sv" "sv_state ?sv \<noteq> DISABLED" using assms by (simp_all add: core_inv_def)
  have "advances sv ?sv" by (simp add: advances_def vouched_def note_defs)
  from advances_trans [OF this loop_advances [OF c]] show ?thesis by (simp add: handle_stdout_def Let_def)
qed

lemma start_attempt_advances: "advances sv (start_attempt stop checked removed sv)"
proof (cases "sv_stop_requested sv")
  case True
  then show ?thesis by (simp add: start_attempt_def)
next
  case False
  let ?s = "set_state STARTING (if sv_restart_attempts sv = 0 then Starting_process else Restarting_process)
    (sv\<lparr>sv_failure_handled := False, sv_stdout_buffer := [], sv_stderr_buffer := [], sv_model_version := []\<rparr>)"
  have a1: "advances sv ?s"
    by (simp add: advances_def vouched_def set_state_def effect_def note_defs)
  have a2: "advances ?s (remove_socket ?s)"
    by (simp add: advances_def vouched_def remove_socket_def effect_def note_defs)
  have a3: "advances (remove_socket ?s) (effect Process_started
      ((remove_socket ?s)\<lparr>sv_startup_timer := ms, sv_running := True\<rparr>))" for ms
    by (simp add: advances_def vouched_def effect_def note_defs)
  consider (path) e where "checked = Inl e" | (socket) "checked = Inr ()" "\<not> removed"
    | (go) "checked = Inr ()" removed
    by (cases checked) auto
  then show ?thesis
  proof cases
    case path
    then show ?thesis using False advances_trans [OF a1 failure_advances]
      by (simp add: start_attempt_def Let_def)
  next
    case socket
    then show ?thesis using False advances_trans [OF advances_trans [OF a1 a2] failure_advances]
      by (simp add: start_attempt_def Let_def)
  next
    case go
    then show ?thesis using False advances_trans [OF advances_trans [OF a1 a2] a3]
      by (simp add: start_attempt_def Let_def)
  qed
qed

lemma start_advances: "advances sv (supervisor_start stop checked removed sv)"
proof -
  have "advances sv (set_state DISABLED Disabled_by_config sv)"
    by (simp add: advances_def vouched_def set_state_def effect_def note_defs)
  moreover have "advances sv (sv\<lparr>sv_restart_attempts := 0\<rparr>)"
    by (simp add: advances_def vouched_def note_defs)
  then have "advances sv (start_attempt stop checked removed (sv\<lparr>sv_restart_attempts := 0\<rparr>))"
    by (rule advances_trans [OF _ start_attempt_advances])
  ultimately show ?thesis by (simp add: supervisor_start_def)
qed

lemma stop_advances: "advances sv (supervisor_stop stop sv)"
proof (cases "sv_stop_requested sv")
  case True
  then show ?thesis by (simp add: supervisor_stop_def)
next
  case False
  let ?s = "(set_state STOPPING Shutting_down (sv\<lparr>sv_stop_requested := True\<rparr>))
    \<lparr>sv_startup_timer := None, sv_restart_timer := None, sv_stable_timer := None\<rparr>"
  have a1: "advances sv ?s"
    by (simp add: advances_def vouched_def set_state_def effect_def note_defs)
  have "settled ?s" by (simp add: settled_def set_state_def effect_def)
  from quiet [OF this] obtain es where es: "es \<in> stop_effects"
    "rebuffered (?s\<lparr>sv_effects := sv_effects ?s @ es\<rparr>) (stop ?s)" by blast
  have a2: "advances ?s (?s\<lparr>sv_effects := sv_effects ?s @ es\<rparr>)"
    using es(1) by (simp add: advances_def vouched_def note_defs stop_effects_asked)
  have a3: "advances x (remove_socket x)" for x
    by (simp add: advances_def vouched_def remove_socket_def effect_def note_defs)
  from advances_trans [OF advances_trans [OF a1 a2] advances_trans [OF advances_rebuffered [OF es(2)] a3]] False
  show ?thesis by (simp add: supervisor_stop_def Let_def)
qed

end

lemma finished_advances:
  assumes "core_inv sv" "sv_state sv \<noteq> DISABLED"
  shows "advances sv (on_signal jp rh (Finished exit_code status out err w) sv)"
proof -
  let ?s0 = "sv\<lparr>sv_running := False\<rparr>"
  let ?s1 = "handle_stdout jp rh (stop_process jp rh w) out ?s0"
  let ?s2 = "flush_partial_output (handle_stderr err ?s1)"
  have c: "core_inv ?s0" "sv_state ?s0 \<noteq> DISABLED" using assms by (simp_all add: core_inv_def)
  have "advances sv ?s0" by (rule advances_rebuffered [OF rebuffered_running])
  moreover have "advances ?s0 ?s1" by (rule waits.stdout_advances [OF c])
  moreover have "advances ?s1 ?s2"
    by (rule advances_rebuffered [OF rebuffered_trans [OF settled_stderr rebuffered_flush]])
  ultimately have "advances sv ?s2" by (blast intro: advances_trans)
  from this advances_trans [OF this waits.failure_advances] show ?thesis by (simp add: Let_def)
qed

lemma step_advances:
  assumes "sup_step jp rh sv t sv'" "sup_inv sv"
  shows "advances sv sv'"
  using assms(1)
proof (cases rule: sup_step.cases)
  case Called_start
  then show ?thesis by (simp add: waits.start_advances)
next
  case Called_stop
  then show ?thesis by (simp add: waits.stop_advances)
next
  case Called_report
  then show ?thesis by (simp add: report_transport_failure_def waits.failure_advances)
next
  case Startup_fires
  have "advances sv (sv\<lparr>sv_startup_timer := None\<rparr>)" by (simp add: advances_def vouched_def note_defs)
  from advances_trans [OF this waits.failure_advances] Startup_fires show ?thesis by (simp add: startup_timeout_def)
next
  case Restart_fires
  have "advances sv (sv\<lparr>sv_restart_timer := None, sv_restart_attempts := n, sv_restart_count := m\<rparr>)" for n m
    by (simp add: advances_def vouched_def note_defs)
  from advances_trans [OF this waits.start_attempt_advances] Restart_fires show ?thesis by (simp add: restart_timeout_def)
next
  case Stable_fires
  then show ?thesis by (simp add: stable_timeout_def advances_def vouched_def note_defs)
next
  case (Signalled s)
  have c: "core_inv sv" "sv_state sv \<noteq> DISABLED" using assms(2) Signalled by (auto simp: sup_inv_def)
  show ?thesis
  proof (cases s)
    case (Output bytes w)
    then show ?thesis using Signalled waits.stdout_advances [OF c] by simp
  next
    case (Errors bytes)
    then show ?thesis using Signalled advances_rebuffered [OF settled_stderr] by simp
  next
    case (Error_occurred code message running w)
    then show ?thesis using Signalled
      by (auto intro: advances_trans [OF advances_rebuffered [OF rebuffered_running] waits.failure_advances])
  next
    case (Finished exit_code status out err w)
    then show ?thesis using Signalled finished_advances [OF c] by simp
  qed
qed

section \<open>The client follows the notifications\<close>

definition follows :: "(string \<times> string) option \<Rightarrow> ai_client \<Rightarrow> bool" where
  "follows conn c \<longleftrightarrow> (c_online c \<longrightarrow> \<not> c_stop_requested c \<and> conn = Some (c_endpoint c, c_model_version c))"

lemma follows_notify: "follows conn (app_client a) \<Longrightarrow> follows (asked conn e) (app_client (notify e a))"
  by (cases e) (auto simp: follows_def asked_def on_ready_def on_state_def Let_def set_online_def set_offline_def)

lemma follows_notified:
  "follows conn (app_client a) \<Longrightarrow> follows (foldl asked conn es) (app_client (fold notify es a))"
  by (induction es arbitrary: conn a) (simp_all add: follows_notify)

text \<open>What the icon shows when the last notification is \<open>n\<close>.\<close>

definition shows_notice :: "(ai_state \<times> tray_text) option \<Rightarrow> tray \<Rightarrow> bool" where
  "shows_notice n tr \<longleftrightarrow>
     tr_icon tr =
       (if tr_available tr
        then Some (case n of None \<Rightarrow> (state_color STARTING, Before_start) | Some (s, t) \<Rightarrow> (state_color s, t))
        else None)"

lemma shows_set_state: "tr_available tr \<or> tr_icon tr = None \<Longrightarrow> shows_notice (Some (s, t)) (set_ai_state s t tr)"
  by (auto simp: shows_notice_def set_ai_state_def)

lemma tray_calls [simp]:
  "tr_icon (show_ai_block event tr) = tr_icon tr" "tr_available (show_ai_block event tr) = tr_available tr"
  "tr_icon (show_ai_offline reason tr) = tr_icon tr" "tr_available (show_ai_offline reason tr) = tr_available tr"
  "tr_icon (show_status r tr) = tr_icon tr" "tr_available (show_status r tr) = tr_available tr"
  "tr_available (set_ai_state s t tr) = tr_available tr"
  by (simp_all add: show_ai_block_def show_ai_offline_def show_status_def set_ai_state_def)

lemma shows_notice_calls [simp]:
  "shows_notice n (show_ai_block event tr) = shows_notice n tr"
  "shows_notice n (show_ai_offline reason tr) = shows_notice n tr"
  "shows_notice n (show_status r tr) = shows_notice n tr"
  by (simp_all add: shows_notice_def)

lemma shows_notice_icon: "shows_notice n tr \<Longrightarrow> tr_available tr \<or> tr_icon tr = None"
  by (auto simp: shows_notice_def)

lemma shows_notify: "shows_notice n (app_tray a) \<Longrightarrow> shows_notice (noted n e) (app_tray (notify e a))"
  by (cases e) (auto simp: noted_def on_ready_def on_state_def Let_def intro: shows_set_state dest: shows_notice_icon)

lemma shows_notified:
  "shows_notice n (app_tray a) \<Longrightarrow> shows_notice (foldl noted n es) (app_tray (fold notify es a))"
  by (induction es arbitrary: n a) (simp_all add: shows_notify)

lemma noted_last: "(\<forall>n. foldl noted n es = n) \<or> (\<exists>m. \<forall>n. foldl noted n es = Some m)"
proof (induction es rule: rev_induct)
  case (snoc e es)
  then show ?case by (cases e) (auto simp: noted_def)
qed simp

lemma notify_rest:
  "app_supervisor (fold notify es a) = app_supervisor a \<and> app_stopping (fold notify es a) = app_stopping a \<and>
   app_capture_stopped (fold notify es a) = app_capture_stopped a \<and>
   app_capture_thread (fold notify es a) = app_capture_thread a \<and>
   app_exit_code (fold notify es a) = app_exit_code a \<and> app_started (fold notify es a) = app_started a \<and>
   c_stop_requested (app_client (fold notify es a)) = c_stop_requested (app_client a) \<and>
   c_worker (app_client (fold notify es a)) = c_worker (app_client a) \<and>
   tr_available (app_tray (fold notify es a)) = tr_available (app_tray a)"
proof (induction es arbitrary: a)
  case (Cons e es)
  then show ?case
    by (cases e) (simp_all add: on_ready_def on_state_def Let_def set_online_def set_offline_def)
qed simp

lemma supervised_rest [simp]:
  "app_supervisor (supervised f a) = f (app_supervisor a)" "app_stopping (supervised f a) = app_stopping a"
  "app_capture_stopped (supervised f a) = app_capture_stopped a"
  "app_capture_thread (supervised f a) = app_capture_thread a"
  "app_exit_code (supervised f a) = app_exit_code a" "app_started (supervised f a) = app_started a"
  "c_stop_requested (app_client (supervised f a)) = c_stop_requested (app_client a)"
  "c_worker (app_client (supervised f a)) = c_worker (app_client a)"
  "tr_available (app_tray (supervised f a)) = tr_available (app_tray a)"
  by (simp_all add: supervised_def Let_def notify_rest)

lemma supervised_same: "sv_effects (f (app_supervisor a)) = sv_effects (app_supervisor a) \<Longrightarrow>
    supervised f a = a\<lparr>app_supervisor := f (app_supervisor a)\<rparr>"
  by (simp add: supervised_def Let_def)

lemma client_runs_quiet:
  assumes "client_runs request jp c c'"
  shows "c_stop_requested c' = c_stop_requested c \<and> c_endpoint c' = c_endpoint c \<and>
    c_model_version c' = c_model_version c \<and> (c_online c' \<longrightarrow> c_online c) \<and>
    (c_worker c \<in> {W_none, W_exited} \<longrightarrow> c_worker c' = c_worker c)"
  using assms
proof (cases rule: client_runs.cases)
  case (Exchanges r g e m ex)
  then show ?thesis
    by (auto simp: worker_exchange_def worker_send_def worker_connect_def Let_def split: exchange.splits option.splits)
next
  case (Fails reason timed_out g)
  then show ?thesis by (simp add: worker_fail_def fail_transport_def Let_def)
qed (auto simp: client_consume_def client_drain_def worker_pick_def worker_reply_def worker_error_def
    worker_normal_def worker_decide_def Let_def split: if_splits list.splits sum.splits)

section \<open>The invariant of the program\<close>

definition app_inv :: "app_controller \<Rightarrow> bool" where
  "app_inv a \<longleftrightarrow>
     sup_inv (app_supervisor a) \<and> vouched (app_supervisor a) \<and> swept (app_supervisor a) \<and>
     follows (connection (app_supervisor a)) (app_client a) \<and>
     shows_notice (notice (app_supervisor a)) (app_tray a) \<and>
     (app_stopping a \<longrightarrow> sv_state (app_supervisor a) = STOPPING \<and> c_stop_requested (app_client a) \<and>
        c_worker (app_client a) \<in> {W_none, W_exited} \<and>
        app_capture_stopped a \<and> \<not> app_capture_thread a \<and> app_exit_code a \<noteq> None)"

lemma follows_supervised:
  assumes "sup_inv (app_supervisor a)" "vouched (app_supervisor a)"
    and "follows (connection (app_supervisor a)) (app_client a)"
    and "sup_step jp rh (app_supervisor a) t (f (app_supervisor a))"
  shows "sup_inv (f (app_supervisor a)) \<and> vouched (f (app_supervisor a)) \<and>
    follows (connection (f (app_supervisor a))) (app_client (supervised f a))"
proof -
  have adv: "advances (app_supervisor a) (f (app_supervisor a))"
    by (rule step_advances [OF assms(4,1)])
  then obtain es where es: "sv_effects (f (app_supervisor a)) = sv_effects (app_supervisor a) @ es"
    by (auto simp: advances_def)
  have "follows (connection (app_supervisor a)) (app_client (a\<lparr>app_supervisor := f (app_supervisor a)\<rparr>))"
    using assms(3) by simp
  from follows_notified [OF this, of es] adv es step_inv [OF assms(4,1)] assms(2) show ?thesis
    by (simp add: supervised_def Let_def connection_def advances_def)
qed

lemma shows_supervised:
  assumes "sup_inv (app_supervisor a)" "sup_step jp rh (app_supervisor a) t (f (app_supervisor a))"
    and "shows_notice n (app_tray a)"
    and "n = notice (app_supervisor a) \<or> notice (f (app_supervisor a)) = n"
  shows "shows_notice (notice (f (app_supervisor a))) (app_tray (supervised f a))"
proof -
  from step_advances [OF assms(2,1)] obtain es where
    es: "sv_effects (f (app_supervisor a)) = sv_effects (app_supervisor a) @ es"
    by (auto simp: advances_def)
  have "shows_notice (foldl noted n es) (app_tray (supervised f a))"
    using shows_notified [of n "a\<lparr>app_supervisor := f (app_supervisor a)\<rparr>" es] assms(3) es
    by (simp add: supervised_def Let_def)
  moreover have "notice (f (app_supervisor a)) = foldl noted (notice (app_supervisor a)) es"
    using es by (simp add: notice_def)
  then have "foldl noted n es = notice (f (app_supervisor a))" using noted_last [of es] assms(4) by auto
  ultimately show ?thesis by simp
qed

lemma supervised_inv:
  assumes "app_inv a" "sup_step jp rh (app_supervisor a) t (f (app_supervisor a))"
  shows "app_inv (supervised f a)"
proof -
  have inv: "sup_inv (app_supervisor a)" using assms(1) by (simp add: app_inv_def)
  have "sv_state (f (app_supervisor a)) = STOPPING" if "sv_state (app_supervisor a) = STOPPING"
    using stopping_step [OF assms(2) inv that] by simp
  moreover have "shows_notice (notice (f (app_supervisor a))) (app_tray (supervised f a))"
    by (rule shows_supervised [where n = "notice (app_supervisor a)" and f = f and a = a, OF inv assms(2)])
      (use assms(1) in \<open>simp_all add: app_inv_def\<close>)
  moreover have "swept (f (app_supervisor a))"
    by (rule step_keeps_swept [OF assms(2) inv]) (use assms(1) in \<open>simp add: app_inv_def\<close>)
  ultimately show ?thesis using assms follows_supervised [of a jp rh t f]
    by (simp add: app_inv_def)
qed

lemma stop_state: "sup_inv sv \<Longrightarrow> sv_state (supervisor_stop (stop_process jp rh w) sv) = STOPPING"
proof -
  assume inv: "sup_inv sv"
  have "sup_inv (supervisor_stop (stop_process jp rh w) sv)" by (rule waits.stop_inv [OF inv])
  moreover have "sv_stop_requested (supervisor_stop (stop_process jp rh w) sv)"
  proof (cases "sv_stop_requested sv")
    case False
    let ?s = "(set_state STOPPING Shutting_down (sv\<lparr>sv_stop_requested := True\<rparr>))
      \<lparr>sv_startup_timer := None, sv_restart_timer := None, sv_stable_timer := None\<rparr>"
    have "settled ?s" by (simp add: settled_def set_state_def effect_def)
    from waits.quiet [OF this, of jp rh w] False show ?thesis
      by (auto simp: supervisor_stop_def Let_def remove_socket_def effect_def set_state_def rebuffered_def
          rebuffer_def)
  qed (simp add: supervisor_stop_def)
  ultimately show ?thesis by (simp add: sup_inv_def core_inv_def)
qed

lemma joined_client:
  "c_stop_requested (join_worker request jp ex (client_stop c)) \<and>
   \<not> c_online (join_worker request jp ex (client_stop c)) \<and>
   c_worker (join_worker request jp ex (client_stop c)) \<in> {W_none, W_exited}"
  using join_ends [OF stopped_after_stop [of c], of request jp ex] by (simp add: stopped_def)

lemma shutdown_inv:
  assumes "app_inv a"
  shows "app_inv (begin_shutdown (join_worker request jp' ex) (supervisor_stop (stop_process jp rh w)) code a)"
proof (cases "app_stopping a")
  case False
  let ?b = "a\<lparr>app_stopping := True, app_tray := set_ai_state STOPPING (Detail_text Shutting_down) (app_tray a),
    app_capture_stopped := True, app_client := join_worker request jp' ex (client_stop (app_client a))\<rparr>"
  have b: "sup_inv (app_supervisor ?b)" "vouched (app_supervisor ?b)"
    "follows (connection (app_supervisor ?b)) (app_client ?b)"
    using assms joined_client [of request jp' ex "app_client a"] by (simp_all add: app_inv_def follows_def)
  have tray: "shows_notice (Some (STOPPING, Detail_text Shutting_down)) (app_tray ?b)"
    using assms by (auto simp: app_inv_def intro: shows_set_state dest: shows_notice_icon)
  let ?f = "supervisor_stop (stop_process jp rh w)"
  have v: "sup_inv (?f (app_supervisor ?b)) \<and> vouched (?f (app_supervisor ?b)) \<and>
      follows (connection (?f (app_supervisor ?b))) (app_client (supervised ?f ?b))"
    by (rule follows_supervised [where f = ?f, OF b Called_stop])
  have "notice (?f (app_supervisor ?b)) = Some (STOPPING, Detail_text Shutting_down)"
    using v stop_state [OF b(1), of jp rh w] by (simp add: vouched_def state_notice_def)
  moreover have "swept (?f (app_supervisor ?b))"
    by (rule step_keeps_swept [OF Called_stop b(1)]) (use assms in \<open>simp add: app_inv_def\<close>)
  ultimately show ?thesis
    using shows_supervised [where f = ?f, OF b(1) Called_stop tray] v stop_state [OF b(1)] False
      joined_client [of request jp' ex "app_client a"]
    by (simp add: begin_shutdown_def Let_def app_inv_def)
qed (use assms in \<open>simp add: begin_shutdown_def\<close>)

lemma start_call_inv:
  assumes "app_inv a" "validate_python_paths fs (sv_working_directory (app_supervisor a)) = Some checked"
  shows "app_inv (snd (controller_start (join_worker request jp' ex') ok (supervisor_start (stop_process jp rh w) checked (socket_removed ex rm)) a))"
proof (cases "app_started a \<or> app_stopping a")
  case False
  let ?b = "a\<lparr>app_started := True, app_client := client_start (app_client a), app_capture_thread := True\<rparr>"
  have "app_inv ?b" using assms(1) False by (simp add: app_inv_def follows_def client_start_def)
  moreover have "sup_step jp rh (app_supervisor ?b) Begin
      (supervisor_start (stop_process jp rh w) checked (socket_removed ex rm) (app_supervisor ?b))"
    by (rule Called_start [of fs]) (use assms(2) in simp)
  ultimately have "app_inv (supervised (supervisor_start (stop_process jp rh w) checked (socket_removed ex rm)) ?b)"
    by (rule supervised_inv)
  moreover have "app_inv (a\<lparr>app_client := join_worker request jp' ex' (client_stop (client_start (app_client a))),
      app_started := False\<rparr>)"
    using assms(1) False joined_client [of request jp' ex' "client_start (app_client a)"]
    by (simp add: app_inv_def follows_def)
  ultimately show ?thesis using False by (simp add: controller_start_def Let_def)
qed (use assms in \<open>auto simp: controller_start_def\<close>)

lemma app_step_inv:
  assumes "app_step request jp rh a a'" "app_inv a"
  shows "app_inv a'"
  using assms(1)
proof (cases rule: app_step.cases)
  case (Supervisor_turn t sv')
  then show ?thesis by (simp add: supervised_inv [OF assms(2)])
next
  case (Client_turn c')
  then show ?thesis using assms(2) client_runs_quiet [OF Client_turn(2)]
    by (auto simp: app_inv_def follows_def)
next
  case Start_call
  then show ?thesis by (simp add: start_call_inv [OF assms(2)])
next
  case Shutdown_call
  then show ?thesis by (simp add: shutdown_inv [OF assms(2)])
next
  case (Transport_failure_posted w reason)
  then show ?thesis using supervised_inv [where f = "report_transport_failure (stop_process jp rh w) reason",
      OF assms(2) Called_report]
    by (simp add: posted_transport_failure_def assms(2))
next
  case Ai_block_posted
  then show ?thesis using assms(2) by (simp add: posted_ai_block_def app_inv_def)
next
  case Status_menu
  then show ?thesis using assms(2) by (simp add: menu_status_def menu_triggered_def status_asked_def app_inv_def)
next
  case Exit_menu
  then show ?thesis by (simp add: menu_exit_def menu_triggered_def shutdown_inv [OF assms(2)])
next
  case Signal_timer
  then show ?thesis by (simp add: signal_timeout_def assms(2) shutdown_inv [OF assms(2)])
next
  case Capture_result_posted
  then show ?thesis by (simp add: posted_capture_result_def assms(2) shutdown_inv [OF assms(2)])
qed

lemma app_reach_inv:
  assumes "app_reach request jp rh cfg pid cwd a" "0 \<le> ai_max_restarts (ai_section cfg)"
  shows "app_inv a"
  using assms(1)
proof (induction rule: app_reach.induct)
  case (Built now system_tray)
  have "sv_state (new_supervisor (ai_section cfg) pid cwd) = DISABLED"
    "sv_effects (new_supervisor (ai_section cfg) pid cwd) = []" "sv_detail (new_supervisor (ai_section cfg) pid cwd) = No_detail"
    by (simp_all add: new_supervisor_def Let_def)
  then show ?case
    by (simp add: app_inv_def new_controller_def new_inv [OF assms(2)] vouched_def note_defs follows_def
        new_client_def new_tray_def shows_notice_def swept_def)
qed (rule app_step_inv)

text \<open>C6. Whatever the threads and the event loop do, the client talks to a server only while the
  supervisor holds that server's process online, with the endpoint and the model version of that
  process, and never once a shutdown has begun.\<close>

theorem ai_online_only_with_process:
  assumes "0 \<le> ai_max_restarts (ai_section cfg)"
    and "app_reach request jp rh cfg pid cwd a"
    and "c_online (app_client a)"
  shows "sv_state (app_supervisor a) = ONLINE \<and> c_endpoint (app_client a) = sv_endpoint (app_supervisor a) \<and>
    c_model_version (app_client a) = sv_model_version (app_supervisor a) \<and> \<not> app_stopping a"
  using app_reach_inv [OF assms(2,1)] assms(3)
  by (auto simp: app_inv_def follows_def vouched_def split: if_splits)

text \<open>A client that was brought online: the process was started and said it was ready.\<close>

definition sample_settings :: config where
  "sample_settings = default_config\<lparr>ai_section := default_ai_config\<rparr>"

definition sample_join :: "ai_client \<Rightarrow> ai_client" where
  "sample_join = join_worker (\<lambda>r. []) ready_parse (Exchanged True 0 None)"

definition sample_started :: app_controller where
  "sample_started = snd (controller_start sample_join True
     (supervisor_start (stop_process ready_parse (\<lambda>e v. None) (Stopping [] True [] True)) (Inr ()) (socket_removed False False))
     (new_controller 0 True sample_settings 7 ''/ips''))"

definition sample_ready :: app_controller where
  "sample_ready = supervised (\<lambda>sv. on_signal ready_parse (\<lambda>e v. None)
     (Output (''READY'' @ [CHR 0x0A]) (Stopping [] True [] True)) (app_supervisor sample_started)) sample_started"

text \<open>A start that gets its thread joins nothing.\<close>

lemma start_join: "controller_start join True f a = controller_start join' True f a"
  by (simp add: controller_start_def Let_def)

lemma sample_started_reach: "app_reach request ready_parse (\<lambda>e v. None) sample_settings 7 ''/ips'' sample_started"
  unfolding sample_started_def start_join [of sample_join _ _ "join_worker request ready_parse (Exchanged True 0 None)"]
  by (rule Runs [OF Built Start_call [of root_files]])
    (simp add: new_controller_def new_supervisor_def Let_def root_files_accepted)

lemma sample_started_supervisor [simp]:
  "app_supervisor sample_started = first_start ready_parse (\<lambda>e v. None)" "\<not> app_stopping sample_started"
  by (simp_all add: sample_started_def controller_start_def new_controller_def Let_def first_start_def
      sample_settings_def)

lemma sample_ready_reach: "app_reach request ready_parse (\<lambda>e v. None) sample_settings 7 ''/ips'' sample_ready"
  unfolding sample_ready_def
  by (rule Runs [OF sample_started_reach Supervisor_turn [of _ _ _ Other]], simp only: sample_started_supervisor)
    (rule Signalled, simp)

lemma sample_settings_max: "0 \<le> ai_max_restarts (ai_section sample_settings)"
  by (simp add: sample_settings_def default_max)

lemma sample_started_client:
  "\<not> c_stop_requested (app_client sample_started)"
  by (simp add: sample_started_def controller_start_def new_controller_def Let_def client_start_def new_client_def)

lemma sample_ready_online: "c_online (app_client sample_ready)"
  using sample_started_client
  by (simp add: sample_ready_def supervised_def handle_stdout_def Let_def next_line_def chop_cr_def
      handle_stdout_line_def ready_line_def ready_parse_def is_object_def member_def is_number_integer_def
      get_int_def set_state_def effect_def on_ready_def on_state_def set_online_def)

theorem ai_online_only_with_process_witness:
  "\<exists>a :: app_controller. c_online (app_client a) \<and> sv_state (app_supervisor a) = ONLINE"
  using ai_online_only_with_process [OF sample_settings_max sample_ready_reach sample_ready_online]
    sample_ready_online by blast

section \<open>The shutdown\<close>

lemma stopping_app_step:
  assumes "app_step request jp rh a a'" "app_inv a" "app_stopping a"
  shows "app_stopping a' \<and> tr_icon (app_tray a') = tr_icon (app_tray a) \<and> app_exit_code a' = app_exit_code a \<and>
    sv_effects (app_supervisor a') = sv_effects (app_supervisor a)"
  using assms(1)
proof (cases rule: app_step.cases)
  case (Supervisor_turn t sv')
  have "sv_effects sv' = sv_effects (app_supervisor a)"
    using stopping_step [OF Supervisor_turn(2)] assms(2,3) by (simp add: app_inv_def)
  then show ?thesis using Supervisor_turn(1) supervised_same [of "\<lambda>sv. sv'" a] assms(3) by simp
qed (use assms(3) in \<open>simp_all add: controller_start_def begin_shutdown_def posted_transport_failure_def
    posted_ai_block_def posted_capture_result_def status_asked_def menu_status_def menu_exit_def menu_triggered_def
    signal_timeout_def\<close>)

text \<open>C24. A shutdown is final: once \<open>begin_shutdown\<close> has run, whatever the event loop still delivers
  and the threads still do, the capture and the client stay stopped, the supervisor stays in its last
  state, no process is started or signalled, the icon of the tray does not change any more, and the exit code is that of the
  first call.\<close>

theorem shutdown_is_final:
  assumes "0 \<le> ai_max_restarts (ai_section cfg)"
    and "app_reach request jp rh cfg pid cwd a" and "\<not> app_stopping a"
    and "b = begin_shutdown (join_worker request jp ex) (supervisor_stop (stop_process jp rh w)) code a"
    and "(app_step request jp rh)\<^sup>*\<^sup>* b z"
  shows "app_stopping z \<and> app_exit_code z = Some code \<and> app_capture_stopped z \<and> \<not> app_capture_thread z \<and>
    c_stop_requested (app_client z) \<and> \<not> c_online (app_client z) \<and>
    sv_state (app_supervisor z) = STOPPING \<and> sv_effects (app_supervisor z) = sv_effects (app_supervisor b) \<and>
    tr_icon (app_tray z) = tr_icon (app_tray b)"
proof -
  have b: "app_inv b" "app_stopping b" "app_exit_code b = Some code"
    using shutdown_inv [OF app_reach_inv [OF assms(2,1)], of request jp ex jp rh w code] assms(3,4)
    by (simp_all add: begin_shutdown_def Let_def)
  from assms(5) have "app_inv z \<and> app_stopping z \<and> tr_icon (app_tray z) = tr_icon (app_tray b) \<and> app_exit_code z = Some code \<and>
    sv_effects (app_supervisor z) = sv_effects (app_supervisor b)"
  proof (induction rule: rtranclp_induct)
    case (step y z)
    then show ?case using stopping_app_step [OF step(2)] app_step_inv [OF step(2)] by simp
  qed (simp add: b)
  then show ?thesis by (auto simp: app_inv_def follows_def)
qed

theorem shutdown_is_final_witness:
  "\<exists>(a :: app_controller) (z :: app_controller). c_online (app_client a) \<and> app_exit_code z = Some 1 \<and> \<not> c_online (app_client z) \<and>
     sv_state (app_supervisor z) = STOPPING"
proof -
  let ?stop = "supervisor_stop (stop_process ready_parse (\<lambda>e v. None) (Stopping [] True [] True))"
  let ?b = "begin_shutdown sample_join ?stop 1 sample_ready"
  have go: "\<not> app_stopping sample_ready" by (simp add: sample_ready_def)
  have later: "(app_step (\<lambda>r. []) ready_parse (\<lambda>e v. None))\<^sup>*\<^sup>* ?b (begin_shutdown sample_join ?stop 0 ?b)"
    unfolding sample_join_def by (rule r_into_rtranclp) (rule Shutdown_call)
  from shutdown_is_final [OF sample_settings_max sample_ready_reach go refl later [unfolded sample_join_def]]
    sample_ready_online
  show ?thesis by blast
qed

section \<open>The tray\<close>

text \<open>The icon in the tray tells the truth: in every reachable state its colour is that of the
  supervisor's state and its tool tip the model version in use, or the reason the supervisor gives; the
  one exception is the icon before anything has been announced, grey as while starting.\<close>

theorem tray_shows_supervisor:
  assumes "0 \<le> ai_max_restarts (ai_section cfg)"
    and "app_reach request jp rh cfg pid cwd a" and "tr_available (app_tray a)"
  shows "tr_icon (app_tray a) = Some (state_color (sv_state (app_supervisor a)),
      if sv_state (app_supervisor a) = ONLINE then Version_text (sv_model_version (app_supervisor a))
      else Detail_text (sv_detail (app_supervisor a))) \<or>
    tr_icon (app_tray a) = Some (state_color STARTING, Before_start) \<and>
    sv_state (app_supervisor a) = DISABLED \<and> sv_detail (app_supervisor a) = No_detail"
  using app_reach_inv [OF assms(2,1)] assms(3)
  by (auto simp: app_inv_def shows_notice_def vouched_def state_notice_def)

theorem tray_shows_supervisor_witness:
  "\<exists>a :: app_controller. c_online (app_client a) \<and> tr_icon (app_tray a) = Some (state_color ONLINE, Version_text ''v1'')"
proof -
  have tray: "tr_available (app_tray sample_ready)"
    by (simp add: sample_ready_def sample_started_def controller_start_def new_controller_def Let_def new_tray_def)
  have version: "sv_model_version (app_supervisor sample_ready) = ''v1''"
    by (simp add: sample_ready_def handle_stdout_def Let_def next_line_def chop_cr_def
        handle_stdout_line_def ready_line_def ready_parse_def is_object_def member_def is_number_integer_def
        get_int_def set_state_def effect_def)
  have "sv_state (app_supervisor sample_ready) = ONLINE"
    using app_reach_inv [OF sample_ready_reach sample_settings_max] sample_ready_online
    by (auto simp: app_inv_def follows_def vouched_def split: if_splits)
  with tray_shows_supervisor [OF sample_settings_max sample_ready_reach tray] version sample_ready_online
  show ?thesis by auto
qed

section \<open>The end of the program\<close>

lemma reach_steps:
  "(app_step request jp rh)\<^sup>*\<^sup>* a b \<Longrightarrow> app_reach request jp rh cfg pid cwd a \<Longrightarrow> app_reach request jp rh cfg pid cwd b"
  by (induction rule: rtranclp_induct) (auto intro: Runs)

lemma shutdown_stops: "app_stopping (begin_shutdown join stop code a)"
  by (simp add: begin_shutdown_def Let_def)

lemma built_start:
  assumes "validate_python_paths fs cwd = Some checked"
  shows "app_reach request jp rh cfg pid cwd
    (snd (controller_start (join_worker request jp ex') ok
      (supervisor_start (stop_process jp rh w) checked (socket_removed ex rm))
      (new_controller now system_tray cfg pid cwd)))"
  by (rule Runs [OF Built Start_call [of fs]])
    (use assms in \<open>simp add: new_controller_def new_supervisor_def Let_def\<close>)

lemma sample_started_worker: "c_worker (app_client sample_started) = W_waiting"
  by (simp add: sample_started_def controller_start_def new_controller_def Let_def client_start_def new_client_def)

text \<open>C25. When the program ends it leaves nothing behind: once \<open>main\<close> returns after a controller was built,
  the client is offline for good and its worker has left its loop, the supervisor is in its last state
  with no timer running, and its process has ended unless it survived both the request to terminate
  and the kill, and the capture is stopped and its thread joined. A program whose controller started
  ends with the code of the first shutdown, a program that did not start with 1.\<close>

theorem main_leaves_nothing:
  assumes "main_ends request jp rh (Prepared cfg wl) pid cwd status z"
    and "0 \<le> ai_max_restarts (ai_section cfg)"
  shows "\<exists>a. z = Some a \<and> app_stopping a \<and> c_stop_requested (app_client a) \<and> \<not> c_online (app_client a) \<and>
    c_worker (app_client a) \<in> {W_none, W_exited} \<and>
    sv_state (app_supervisor a) = STOPPING \<and> sv_startup_timer (app_supervisor a) = None \<and>
    sv_restart_timer (app_supervisor a) = None \<and> sv_stable_timer (app_supervisor a) = None \<and>
    (sv_running (app_supervisor a) \<longrightarrow> (\<exists>es. sv_effects (app_supervisor a) =
       es @ [State_notified STOPPING Shutting_down, Process_terminated, Process_killed, Socket_removed])) \<and>
    app_capture_stopped a \<and> \<not> app_capture_thread a \<and>
    (app_exit_code a = Some status \<or> status = 1 \<and> \<not> app_started a)"
proof -
  have fin: "app_stopping a \<Longrightarrow> app_inv a \<Longrightarrow> c_stop_requested (app_client a) \<and> \<not> c_online (app_client a) \<and>
      c_worker (app_client a) \<in> {W_none, W_exited} \<and>
      sv_state (app_supervisor a) = STOPPING \<and> sv_startup_timer (app_supervisor a) = None \<and>
      sv_restart_timer (app_supervisor a) = None \<and> sv_stable_timer (app_supervisor a) = None \<and>
      (sv_running (app_supervisor a) \<longrightarrow> (\<exists>es. sv_effects (app_supervisor a) =
         es @ [State_notified STOPPING Shutting_down, Process_terminated, Process_killed, Socket_removed])) \<and>
      app_capture_stopped a \<and> \<not> app_capture_thread a" for a
    by (auto simp: app_inv_def follows_def sup_inv_def core_inv_def swept_def)
  from assms(1) show ?thesis
  proof (cases rule: main_ends.cases)
    case (Does_not_start cfg' wl' fs checked ex1 ok w ex rm now system_tray a ex2 w')
    have "app_inv a" using built_start [OF Does_not_start(4), of request jp rh cfg pid ex1 ok w ex rm now system_tray]
        Does_not_start(3,5) app_reach_inv [OF _ assms(2)] by simp
    moreover have "\<not> app_started (begin_shutdown join stop code a)" for join stop code
      using Does_not_start(5)
      by (auto simp: controller_start_def new_controller_def Let_def begin_shutdown_def split: if_splits)
    ultimately show ?thesis using Does_not_start(1,2) fin [OF shutdown_stops shutdown_inv, of a] shutdown_stops
      by (simp add: destroy_controller_def)
  next
    case (Leaves_loop cfg' wl' fs checked ex1 ok w ex rm now system_tray a b ex3 w'' ex2 w')
    have "app_reach request jp rh cfg pid cwd a"
      using built_start [OF Leaves_loop(3), of request jp rh cfg pid ex1 ok w ex rm now system_tray]
        Leaves_loop(2,4) by simp
    note b = app_reach_inv [OF reach_steps [OF Leaves_loop(5) this] assms(2)]
    let ?y = "begin_shutdown (join_worker request jp ex2) (supervisor_stop (stop_process jp rh w')) status b"
    have code: "app_exit_code ?y = Some status"
      using Leaves_loop(6) b by (auto simp: begin_shutdown_def Let_def app_inv_def split: option.splits)
    have y: "app_inv ?y" "app_stopping ?y" by (rule shutdown_inv [OF b], rule shutdown_stops)
    have "destroy_controller (join_worker request jp ex3) (supervisor_stop (stop_process jp rh w'')) ?y = ?y"
      using y(2) by (simp add: destroy_controller_def begin_shutdown_def [of _ _ 0])
    with Leaves_loop(1) y code fin show ?thesis by simp
  qed simp
qed

text \<open>A program that was started and then left through its menu while its process ran; the process ended
  when it was asked to.\<close>

theorem main_leaves_nothing_witness:
  "\<exists>a :: app_controller. main_ends (\<lambda>r. []) ready_parse (\<lambda>e v. None) (Prepared sample_settings {}) 7 ''/ips'' 0 (Some a) \<and>
     app_exit_code a = Some 0 \<and> \<not> c_online (app_client a) \<and> c_worker (app_client a) = W_exited \<and>
     sv_state (app_supervisor a) = STOPPING"
proof -
  let ?stop = "supervisor_stop (stop_process ready_parse (\<lambda>e v. None) (Stopping [] True [] True))"
  let ?a = "menu_exit sample_join ?stop sample_started"
  have left: "(app_step (\<lambda>r. []) ready_parse (\<lambda>e v. None))\<^sup>*\<^sup>* sample_started ?a"
    unfolding sample_join_def
    by (rule r_into_rtranclp, rule Exit_menu)
      (simp add: sample_started_def controller_start_def new_controller_def Let_def new_tray_def)
  have code: "app_exit_code ?a = Some 0"
    by (simp add: menu_exit_def menu_triggered_def begin_shutdown_def Let_def)
  have started: "controller_start (join_worker (\<lambda>r. []) ready_parse (Exchanged True 0 None)) True
      (supervisor_start (stop_process ready_parse (\<lambda>e v. None) (Stopping [] True [] True)) (Inr ()) (socket_removed False False))
      (new_controller 0 True sample_settings 7 ''/ips'') = (True, sample_started)"
    unfolding sample_started_def sample_join_def by (simp add: controller_start_def new_controller_def Let_def)
  have ends: "main_ends (\<lambda>r. []) ready_parse (\<lambda>e v. None) (Prepared sample_settings {}) 7 ''/ips'' 0
      (Some (destroy_controller sample_join ?stop (begin_shutdown sample_join ?stop 0 ?a)))"
    unfolding sample_join_def
    by (rule Leaves_loop [OF refl root_files_accepted started left [unfolded sample_join_def]])
      (unfold code [unfolded sample_join_def], simp)
  have same: "destroy_controller sample_join ?stop (begin_shutdown sample_join ?stop 0 ?a) = ?a"
    by (simp add: destroy_controller_def menu_exit_def menu_triggered_def begin_shutdown_def Let_def)
  have "c_worker (app_client ?a) = W_exited"
    by (simp add: menu_exit_def menu_triggered_def begin_shutdown_def Let_def sample_join_def join_worker_def
        numeral_3_eq_3 worker_turn_def worker_pick_def client_stop_def sample_started_worker)
  with main_leaves_nothing [OF ends sample_settings_max] ends code show ?thesis unfolding same by auto
qed

end
