(* ===== verification/Exchange_Properties.thy ===== *)
theory Exchange_Properties
  imports Server_Properties Application_Properties
begin

text \<open>
  The program as a whole, from one end to the other: a server that has loaded its model comes online in
  the supervisor and in the client; a flow the model scores above its threshold has its source dropped
  by the capture thread; and a connection that fails is given up by the client and restarted by the
  supervisor.
\<close>

section \<open>The server comes online\<close>

lemma ready_line_read:
  assumes "client_reads json_parse dumps (ready_message a)" "ar_model_version a \<noteq> []"
  shows "ready_line json_parse (dumps (ready_message a)) = Some (ar_model_version a)"
  using assms
  by (simp add: client_reads_def ready_line_def ready_message_def is_object_def member_def is_number_integer_def
      get_int_def)

lemma chop_cr_plain: "CHR 0x0D \<notin> set line \<Longrightarrow> chop_cr line = line"
  by (metis chop_cr_def last_in_set)

lemma stdout_one_line:
  assumes "sv_state sv = STARTING" "sv_stdout_buffer sv = []" "CHR 0x0A \<notin> set line" "CHR 0x0D \<notin> set line"
    and "ready_line jp line = Some version" "rh (sv_endpoint sv) version = None"
  shows "handle_stdout jp rh stop (line @ [CHR 0x0A]) sv = online_after version sv"
proof -
  have "takeWhile (\<lambda>c. c \<noteq> CHR 0x0A) (line @ [CHR 0x0A]) = line"
    "dropWhile (\<lambda>c. c \<noteq> CHR 0x0A) (line @ [CHR 0x0A]) = [CHR 0x0A]"
    using assms(3) by (auto simp: takeWhile_append dropWhile_append)
  then have one: "next_line (line @ [CHR 0x0A]) = Some (line, [])" by (simp add: next_line_def)
  have "count_list line (CHR 0x0A) = 0" using assms(3) by (simp add: count_list_0_iff)
  then have "handle_stdout jp rh stop (line @ [CHR 0x0A]) sv =
      handle_stdout_line jp rh stop line (sv\<lparr>sv_stdout_buffer := []\<rparr>)"
    using assms(2,4) by (simp add: handle_stdout_def Let_def one chop_cr_plain)
  also have "\<dots> = online_after version (sv\<lparr>sv_stdout_buffer := []\<rparr>)"
    using assms(1,5,6) by (simp add: handle_stdout_line_def Let_def effect_def set_state_def online_after_def)
  also have "sv\<lparr>sv_stdout_buffer := []\<rparr> = sv" using assms(2) by simp
  finally show ?thesis .
qed

text \<open>C32. A server that has loaded its artifacts gets through: the one line it prints when it is ready
  brings the supervisor online, and with it the client, on the endpoint of the process and with the
  model version of the loaded artifacts; the tray shows that version.\<close>

theorem server_comes_online:
  assumes "0 \<le> ai_max_restarts (ai_section cfg)"
    and "app_reach request json_parse ready_handler cfg pid cwd a"
    and "sv_state (app_supervisor a) = STARTING" and "sv_stdout_buffer (app_supervisor a) = []"
    and "\<not> c_stop_requested (app_client a)"
    and "load_artifacts float_of_text metadata model = Some art"
    and "client_reads json_parse dumps (ready_message art)"
    and "CHR 0x0A \<notin> set (dumps (ready_message art))" and "CHR 0x0D \<notin> set (dumps (ready_message art))"
    and "ready_handler (sv_endpoint (app_supervisor a)) (ar_model_version art) = None"
  shows "let a' = supervised (on_signal json_parse ready_handler
        (Output (dumps (ready_message art) @ [CHR 0x0A]) w)) a in
    sv_state (app_supervisor a') = ONLINE \<and> sv_model_version (app_supervisor a') = ar_model_version art \<and>
    c_online (app_client a') \<and> c_model_version (app_client a') = ar_model_version art \<and>
    c_endpoint (app_client a') = sv_endpoint (app_supervisor a) \<and>
    (tr_available (app_tray a) \<longrightarrow>
       tr_icon (app_tray a') = Some (state_color ONLINE, Version_text (ar_model_version art)))"
proof -
  let ?sv = "app_supervisor a"
  have "on_signal json_parse ready_handler (Output (dumps (ready_message art) @ [CHR 0x0A]) w) ?sv =
      online_after (ar_model_version art) ?sv"
    using stdout_one_line [where rh = ready_handler, OF assms(3,4,8,9) ready_line_read [OF assms(7) load_artifacts_Some(3) [OF assms(6)]] assms(10)]
    by simp
  then show ?thesis using assms(5)
    by (simp add: supervised_def Let_def online_after_def on_ready_def on_state_def set_online_def set_ai_state_def)
qed

theorem server_comes_online_witness:
  "\<exists>a :: app_controller. c_online (app_client a) \<and> c_model_version (app_client a) = ar_model_version sample_artifacts"
proof -
  let ?dumps = "\<lambda>v :: py. ''READY''"
  have reads: "client_reads ready_parse ?dumps (ready_message sample_artifacts)"
    by (simp add: client_reads_def ready_parse_def ready_message_def sample_artifacts_def)
  have start: "sv_state (app_supervisor sample_started) = STARTING"
    "sv_stdout_buffer (app_supervisor sample_started) = []" by simp_all
  have plain: "CHR 0x0A \<notin> set (?dumps v)" "CHR 0x0D \<notin> set (?dumps v)" for v by simp_all
  from server_comes_online [OF sample_settings_max sample_started_reach start sample_started_client sample_loaded
      reads plain refl]
  show ?thesis unfolding Let_def by blast
qed

section \<open>The worker asks the server\<close>

text \<open>Some turns of the worker, one after the other.\<close>

fun worker_turns ::
    "nat \<Rightarrow> (flow_record \<Rightarrow> string) \<Rightarrow> (string \<Rightarrow> json option) \<Rightarrow> exchange \<Rightarrow> ai_client \<Rightarrow> ai_client option" where
  "worker_turns 0 request json_parse ex c = Some c"
| "worker_turns (Suc n) request json_parse ex c =
     Option.bind (worker_turn request json_parse ex c) (worker_turns n request json_parse ex)"

text \<open>What an exchange with the running server comes to: its answer, or none when it ends.\<close>

definition served_exchange ::
    "(string \<Rightarrow> loaded) \<Rightarrow> (string \<Rightarrow> ip_version option) \<Rightarrow> artifacts \<Rightarrow> (py \<Rightarrow> string) \<Rightarrow> string \<Rightarrow> int \<Rightarrow> exchange" where
  "served_exchange loads ip_address art dumps payload elapsed_ms =
     Exchanged True elapsed_ms (map_option dumps (response_for_payload loads ip_address art payload))"

lemma anomaly_decided:
  assumes "load_artifacts float_of_text metadata model = Some art"
    and "well_formed inet_ntop ip_address r"
    and "server_reads loads json_dump (request_json inet_ntop r)"
    and "model (map Finite (r_features r)) = Some (Finite x)" and "ar_threshold art = Finite t" "t < x"
    and "client_reads json_parse dumps (verdict_response art (r_flow_id r) (Finite x))"
    and "c_worker c = W_exchanging r g e (ar_model_version art)" "c_online c" "c_generation c = g"
    and "\<not> c_stop_requested c" "length (c_pending_decisions c) < c_queue_capacity c" "ms < c_response_timeout_ms c"
  shows "\<exists>c'. worker_turns 3 (serialize_flow_request json_dump inet_ntop) json_parse
      (served_exchange loads ip_address art dumps (serialize_flow_request json_dump inet_ntop r) ms) c = Some c' \<and>
    c_worker c' = W_waiting \<and> c_online c' \<and>
    c_pending_decisions c' = c_pending_decisions c @
      [\<lparr>ad_record = r, ad_anomaly = True, ad_score = Finite x, ad_threshold = Finite t,
        ad_model_version = ar_model_version art\<rparr>]"
proof -
  let ?request = "serialize_flow_request json_dump inet_ntop"
  let ?v = "verdict_response art (r_flow_id r) (Finite x)"
  obtain s where "ar_threshold art = Finite s" "0 \<le> s" using load_artifacts_Some(4) [OF assms(1)] by blast
  then have t: "0 \<le> t" "0 \<le> x" using assms(5,6) by simp_all
  from exchange_agrees_response [OF assms(1-4) t(2)]
  have resp: "response_for_payload loads ip_address art (?request r) = Some ?v" .
  define ex where "ex = served_exchange loads ip_address art dumps (?request r) ms"
  have ex: "ex = Exchanged True ms (Some (dumps ?v))" by (simp add: ex_def served_exchange_def resp)
  define c1 where "c1 = worker_exchange ?request ex r g e (ar_model_version art) c"
  have c1: "c_worker c1 = W_replied r g (ar_model_version art) (dumps ?v)" "c_online c1" "c_generation c1 = g"
    "\<not> c_stop_requested c1" "c_pending_decisions c1 = c_pending_decisions c" "c_queue_capacity c1 = c_queue_capacity c"
    using assms(9-13) by (simp_all add: c1_def ex worker_exchange_def worker_send_def worker_connect_def Let_def split: option.split)
  let ?d = "\<lparr>ad_record = r, ad_anomaly = True, ad_score = Finite x, ad_threshold = Finite t,
    ad_model_version = ar_model_version art\<rparr>"
  define c2 where "c2 = worker_reply json_parse r g (ar_model_version art) (dumps ?v) c1"
  have c2_eq: "c2 = c1\<lparr>c_worker := W_deciding ?d g\<rparr>"
    using verdict_read [OF assms(7) t(2) assms(5) t(1)] c1 assms(6)
    by (simp add: c2_def worker_reply_def stale_def)
  have c2: "c_worker c2 = W_deciding ?d g" by (simp add: c2_eq)
  have "\<exists>c3. worker_decide ?d g c2 = Some c3 \<and> c_worker c3 = W_waiting \<and> c_online c3 \<and>
      c_pending_decisions c3 = c_pending_decisions c @ [?d]"
    using c1 assms(12) by (simp add: worker_decide_def stale_def c2_eq Let_def)
  moreover have "worker_turns 3 ?request json_parse ex c = worker_decide ?d g c2"
    using c1(1) c2 assms(8) by (simp add: numeral_3_eq_3 worker_turn_def c1_def [symmetric] c2_def [symmetric])
      (cases "worker_decide ?d g c2"; simp)
  ultimately show ?thesis by (simp add: ex_def)
qed

section \<open>From the score to the verdict\<close>

lemma drain_accused:
  assumes "d \<in> set (c_pending_decisions c)" "ad_anomaly d" "src_ip (r_key (ad_record d)) = ip"
  shows "accused ip (fst (fc_drain (async_consumer now) c))"
  using assms by (auto simp: async_consumer_def client_drain_def accused_def filter_empty_conv)

text \<open>C2. The whole chain works: when the worker asks the server about a flow of the current
  connection and the model scores the flow above the threshold, three turns of the worker queue the
  decision, whatever else is queued; the next tick of the capture thread blocks the source, if it is
  neither whitelisted nor blocked already; and from then on every inbound packet of the source with a
  readable header is dropped until the lifetime of the block is over, whatever happens in between.\<close>

theorem anomaly_drops_packets:
  assumes "load_artifacts float_of_text metadata model = Some art"
    and "well_formed inet_ntop ip_address r"
    and "server_reads loads json_dump (request_json inet_ntop r)"
    and "model (map Finite (r_features r)) = Some (Finite x)" and "ar_threshold art = Finite t" "t < x"
    and "client_reads json_parse dumps (verdict_response art (r_flow_id r) (Finite x))"
    and "c_worker c = W_exchanging r g e (ar_model_version art)" "c_online c" "c_generation c = g"
    and "\<not> c_stop_requested c" "length (c_pending_decisions c) < c_queue_capacity c" "ms < c_response_timeout_ms c"
    and "mono clock"
  shows "\<exists>c'. worker_turns 3 (serialize_flow_request json_dump inet_ntop) json_parse
      (served_exchange loads ip_address art dumps (serialize_flow_request json_dump inet_ntop r) ms) c = Some c' \<and>
    (\<forall>pc pc' evs data p. pc_inv pc \<and> 0 < pc_block_ttl_seconds pc \<and> pc_consumer pc = c' \<and>
        \<not> is_whitelisted (pc_whitelist pc) (src_ip (r_key r)) \<and>
        \<not> is_blocked (pc_block_list pc) (src_ip (r_key r)) (clock (pc_clock_reads pc)) \<and>
        pc' = pc_run (async_consumer now) clock evs (on_tick (async_consumer now) clock pc) \<and>
        parse data = Inr (Some p) \<and> src_ip (tuple p) = src_ip (r_key r) \<and>
        clock (pc_clock_reads pc') < clock (pc_clock_reads pc) + seconds (pc_block_ttl_seconds pc) \<longrightarrow>
        \<not> fst (on_packet (async_consumer now) clock data INBOUND pc'))"
proof -
  from anomaly_decided [OF assms(1-13)] obtain c' where c':
    "worker_turns 3 (serialize_flow_request json_dump inet_ntop) json_parse
      (served_exchange loads ip_address art dumps (serialize_flow_request json_dump inet_ntop r) ms) c = Some c'"
    "c_pending_decisions c' = c_pending_decisions c @
      [\<lparr>ad_record = r, ad_anomaly = True, ad_score = Finite x, ad_threshold = Finite t,
        ad_model_version = ar_model_version art\<rparr>]" by blast
  have accused: "accused (src_ip (r_key r)) (fst (fc_drain (async_consumer now) c'))"
    by (rule drain_accused [of "\<lparr>ad_record = r, ad_anomaly = True, ad_score = Finite x, ad_threshold = Finite t,
        ad_model_version = ar_model_version art\<rparr>"]) (simp_all add: c'(2))
  have "\<not> fst (on_packet (async_consumer now) clock data INBOUND pc')"
    if "pc_inv pc" "0 < pc_block_ttl_seconds pc" "pc_consumer pc = c'"
      "\<not> is_whitelisted (pc_whitelist pc) (src_ip (r_key r))"
      "\<not> is_blocked (pc_block_list pc) (src_ip (r_key r)) (clock (pc_clock_reads pc))"
      "pc' = pc_run (async_consumer now) clock evs (on_tick (async_consumer now) clock pc)"
      "parse data = Inr (Some p)" "src_ip (tuple p) = src_ip (r_key r)"
      "clock (pc_clock_reads pc') < clock (pc_clock_reads pc) + seconds (pc_block_ttl_seconds pc)"
    for pc pc' evs data p
  proof -
    have "block_map (pc_block_list (on_tick (async_consumer now) clock pc)) (src_ip (tuple p)) =
        Some (clock (pc_clock_reads pc) + seconds (pc_block_ttl_seconds pc))"
      unfolding that(8) by (rule on_tick_blocks_accused [where clock = clock, OF that(1,2) _ that(4,5)]) (simp add: that(3) accused)
    then show ?thesis by (rule blocked_source_dropped [OF assms(14) pc_inv_on_tick [OF that(1)] _ that(6,7,9)])
  qed
  with c'(1) show ?thesis by blast
qed

text \<open>A flow of the host that sends \<open>udp_sample\<close>, and a client that asks about it.\<close>

definition asked_record :: flow_record where
  "asked_record = (sample_record ''7-1'')\<lparr>r_key := mk_tuple 0x0200000A 1 40000 80 6\<rparr>"

definition asking_client :: ai_client where
  "asking_client = sample_online\<lparr>c_worker := W_exchanging asked_record 1 ''ipc:///run/ips.sock'' ''v1''\<rparr>"

lemma asked_well_formed: "well_formed plain_text any_ipv4 asked_record"
  using sample_well_formed by (simp add: well_formed_def asked_record_def any_ipv4_def)

lemma asking_fields:
  "c_worker asking_client = W_exchanging asked_record 1 ''ipc:///run/ips.sock'' (ar_model_version sample_artifacts)"
  "c_online asking_client" "c_generation asking_client = 1" "\<not> c_stop_requested asking_client"
  "length (c_pending_decisions asking_client) < c_queue_capacity asking_client"
  "20 < c_response_timeout_ms asking_client"
  by (simp_all add: asking_client_def sample_online_def set_online_def client_start_def new_client_def
      default_ai_config_def sample_artifacts_def)

lemma udp_source: "\<exists>p. parse (Some udp_sample) = Inr (Some p) \<and> src_ip (tuple p) = 0x0200000A"
  by (simp add: parse_Some parse_udp_def udp_sample_def ip_version_def ip_header_len_def
      ip_only_def with_ports_def refused_def fragment_offset_def load16_def load32_def ntohs_def memcpy_from_def)

theorem anomaly_drops_packets_witness:
  "\<exists>c'. worker_turns 3 (serialize_flow_request (\<lambda>j. ''request'') plain_text)
      (\<lambda>s. Some (json_of_py (verdict_response sample_artifacts ''7-1'' (Finite 3))))
      (served_exchange (\<lambda>payload. Loaded (py_of_json (request_json plain_text asked_record))) any_ipv4
        sample_artifacts (\<lambda>v. ''answer'') ''request'' 20) asking_client = Some c' \<and>
    \<not> fst (on_packet (async_consumer 0) (\<lambda>n. 5) (Some udp_sample) INBOUND
      (on_tick (async_consumer 0) (\<lambda>n. 5) (new_packet_capture Suc (\<lambda>n. 5) 0 default_config {} c' False)))"
proof -
  let ?loads = "\<lambda>payload. Loaded (py_of_json (request_json plain_text asked_record))"
  let ?parse = "\<lambda>s. Some (json_of_py (verdict_response sample_artifacts ''7-1'' (Finite 3)))"
  let ?pc = "\<lambda>c'. new_packet_capture Suc (\<lambda>n. 5) 0 default_config {} c' False"
  have payload: "serialize_flow_request (\<lambda>j. ''request'') plain_text asked_record = ''request''"
    by (simp add: serialize_flow_request_def)
  have id: "r_flow_id asked_record = ''7-1''" "src_ip (r_key asked_record) = 0x0200000A"
    by (simp_all add: asked_record_def sample_record_def)
  have reads: "server_reads ?loads (\<lambda>j. ''request'') (request_json plain_text asked_record)"
    "client_reads ?parse (\<lambda>v. ''answer'') (verdict_response sample_artifacts (r_flow_id asked_record) (Finite 3))"
    by (simp_all add: server_reads_def client_reads_def id)
  have score: "ar_threshold sample_artifacts = Finite 2" "(2 :: real) < 3" by (simp_all add: sample_artifacts_def)
  have clock: "mono (\<lambda>n :: nat. 5 :: time_point)" by (simp add: mono_def)
  have pc: "pc_inv (?pc c')" "0 < pc_block_ttl_seconds (?pc c')" "pc_consumer (?pc c') = c'"
    "\<not> is_whitelisted (pc_whitelist (?pc c')) ip" "\<not> is_blocked (pc_block_list (?pc c')) ip t"
    "pc_block_ttl_seconds (?pc c') = 600" for c' ip t
    by (simp_all add: pc_inv_new)
      (simp_all add: new_packet_capture_def default_config_def is_whitelisted_def is_blocked_def block_list_empty_def)
  obtain p where p: "parse (Some udp_sample) = Inr (Some p)" "src_ip (tuple p) = 0x0200000A" using udp_source by blast
  from anomaly_drops_packets [OF sample_loaded asked_well_formed reads(1) refl score reads(2) asking_fields clock, of 0]
  obtain c' where c': "worker_turns 3 (serialize_flow_request (\<lambda>j. ''request'') plain_text) ?parse
      (served_exchange ?loads any_ipv4 sample_artifacts (\<lambda>v. ''answer'') ''request'' 20) asking_client = Some c'"
    and drop: "\<And>pc pc' evs data p. pc_inv pc \<and> 0 < pc_block_ttl_seconds pc \<and> pc_consumer pc = c' \<and>
        \<not> is_whitelisted (pc_whitelist pc) (src_ip (r_key asked_record)) \<and>
        \<not> is_blocked (pc_block_list pc) (src_ip (r_key asked_record)) 5 \<and>
        pc' = pc_run (async_consumer 0) (\<lambda>n. 5) evs (on_tick (async_consumer 0) (\<lambda>n. 5) pc) \<and>
        parse data = Inr (Some p) \<and> src_ip (tuple p) = src_ip (r_key asked_record) \<and>
        5 < 5 + seconds (pc_block_ttl_seconds pc) \<Longrightarrow>
        \<not> fst (on_packet (async_consumer 0) (\<lambda>n. 5) data INBOUND pc')"
    unfolding payload by blast
  have "\<not> fst (on_packet (async_consumer 0) (\<lambda>n. 5) (Some udp_sample) INBOUND
      (on_tick (async_consumer 0) (\<lambda>n. 5) (?pc c')))"
    by (rule drop [of "?pc c'" _ "[]" "Some udp_sample" p]) (simp add: pc p id seconds_def)
  with c' show ?thesis by blast
qed

section \<open>A connection that fails\<close>

text \<open>C22. A failed exchange is answered on both sides, in the order in which the program notices it: the
  worker takes the client offline, drops what was queued and reports the reason once; and when the
  event loop runs the report, the supervisor, which still held the process online, stops it and waits
  for a restart, or gives up when the restarts are spent, and the tray shows which.\<close>

theorem failed_exchange_restarts_server:
  assumes "0 \<le> ai_max_restarts (ai_section cfg)"
    and "app_reach request json_parse ready_handler cfg pid cwd a" and "c_online (app_client a)"
    and "c_worker (app_client a) = W_failing reason timed_out (c_generation (app_client a))"
    and "b = a\<lparr>app_client := worker_fail reason timed_out (c_generation (app_client a)) (app_client a)\<rparr>"
    and "z = posted_transport_failure (report_transport_failure (stop_process json_parse ready_handler w) failure_text) b"
  shows "app_step request json_parse ready_handler a b \<and> app_step request json_parse ready_handler b z \<and>
    \<not> c_online (app_client b) \<and> c_pending_flows (app_client b) = [] \<and> c_pending_decisions (app_client b) = [] \<and>
    c_failures (app_client b) = c_failures (app_client a) @ [reason] \<and> c_worker (app_client b) = W_waiting \<and>
    sv_state (app_supervisor b) = ONLINE \<and> \<not> c_online (app_client z) \<and>
    (let n = sv_restart_attempts (app_supervisor a); again = n < ai_max_restarts (sv_config (app_supervisor a)) in
     sv_state (app_supervisor z) = (if again then RESTART_WAIT else OFFLINE) \<and>
     sv_restart_timer (app_supervisor z) =
       (if again then Some (if n = 0 then 1000 else if n = 1 then 2000 else 4000) else None) \<and>
     (tr_available (app_tray a) \<longrightarrow> tr_icon (app_tray z) =
        Some (state_color (sv_state (app_supervisor z)), Detail_text (sv_detail (app_supervisor z)))))"
proof -
  let ?f = "report_transport_failure (stop_process json_parse ready_handler w) failure_text"
  have inv: "app_inv a" by (rule app_reach_inv [OF assms(2,1)])
  have online: "sv_state (app_supervisor a) = ONLINE" "\<not> app_stopping a"
    using inv assms(3) by (auto simp: app_inv_def follows_def vouched_def split: if_splits)
  have client: "\<not> c_online (app_client b)" "c_pending_flows (app_client b) = []" "c_pending_decisions (app_client b) = []"
    "c_failures (app_client b) = c_failures (app_client a) @ [reason]" "c_worker (app_client b) = W_waiting"
    "app_supervisor b = app_supervisor a" "\<not> app_stopping b" "app_tray b = app_tray a"
    using assms(3,5) online(2) by (simp_all add: worker_fail_def fail_transport_def Let_def)
  have step: "app_step request json_parse ready_handler a b"
    unfolding assms(5) by (rule Client_turn [OF Fails [OF assms(4)]])
  have inv_b: "app_inv b" by (rule app_step_inv [OF step inv])
  have step': "app_step request json_parse ready_handler b z"
    unfolding assms(6) by (rule Transport_failure_posted)
  have z: "z = supervised ?f b" using client(7) assms(6) by (simp add: posted_transport_failure_def)
  have inv_z: "app_inv z" by (rule app_step_inv [OF step' inv_b])
  let ?sv = "app_supervisor a"
  have core: "attempt_ok ?sv" using inv online(1) by (intro core_attempt_ok) (simp_all add: app_inv_def sup_inv_def)
  then have act: "\<not> sv_stop_requested ?sv" "sv_state ?sv \<noteq> STOPPING" "\<not> sv_failure_handled ?sv"
    "sv_restart_timer ?sv = None" "0 \<le> sv_restart_attempts ?sv"
    using online(1) by (auto simp: attempt_ok_def)
  obtain es r out err where
    res: "handle_failure (stop_process json_parse ready_handler w) (Transport_failure failure_text) ?sv =
      rebuffer r out err (after_failure (Transport_failure failure_text) es ?sv)"
    using waits.failure_result [OF act(1-3), of "Transport_failure failure_text" json_parse ready_handler w]
    by (auto simp: rebuffered_def)
  have sv_z: "app_supervisor z = rebuffer r out err (after_failure (Transport_failure failure_text) es ?sv)"
    using z client(6) online(1) res by (simp add: report_transport_failure_def)
  let ?again = "sv_restart_attempts ?sv < ai_max_restarts (sv_config ?sv)"
  have state: "sv_state (app_supervisor z) = (if ?again then RESTART_WAIT else OFFLINE)"
    by (simp add: sv_z after_failure_fields)
  have timer: "sv_restart_timer (app_supervisor z) =
      (if ?again then Some (if sv_restart_attempts ?sv = 0 then 1000 else if sv_restart_attempts ?sv = 1 then 2000 else 4000)
       else None)"
    unfolding sv_z by (simp add: after_failure_fields act(4) restart_delay [OF act(5)])
  have off: "\<not> c_online (app_client z)"
    using inv_z state by (auto simp: app_inv_def follows_def vouched_def split: if_splits)
  have tray: "tr_icon (app_tray z) = Some (state_color (sv_state (app_supervisor z)), Detail_text (sv_detail (app_supervisor z)))"
    if "tr_available (app_tray a)"
    using inv_z state that z client(8)
    by (auto simp: app_inv_def shows_notice_def vouched_def state_notice_def split: if_splits)
  from step step' client(1-6) online(1) state timer off tray show ?thesis by (simp add: Let_def)
qed

text \<open>A client whose request could not be sent.\<close>

lemma sample_ready_client:
  "c_worker (app_client sample_ready) = W_waiting" "c_pending_flows (app_client sample_ready) = []"
  "c_queue_capacity (app_client sample_ready) = 1024" "\<not> c_stop_requested (app_client sample_ready)"
proof -
  have start: "c_worker (app_client sample_started) = W_waiting"
    "c_queue_capacity (app_client sample_started) = 1024"
    by (simp_all add: sample_started_def controller_start_def new_controller_def Let_def sample_settings_def
        supervised_def supervisor_start_def start_attempt_def new_supervisor_def default_ai_config_def
        set_state_def effect_def remove_socket_def socket_removed_def on_state_def set_offline_def
        client_start_def new_client_def)
  show "c_worker (app_client sample_ready) = W_waiting" "c_pending_flows (app_client sample_ready) = []"
    "c_queue_capacity (app_client sample_ready) = 1024" "\<not> c_stop_requested (app_client sample_ready)"
    using start sample_started_client
    by (simp_all add: sample_ready_def supervised_def handle_stdout_def Let_def next_line_def chop_cr_def
        handle_stdout_line_def ready_line_def ready_parse_def is_object_def member_def is_number_integer_def
        get_int_def set_state_def effect_def on_ready_def on_state_def set_online_def)
qed

definition sample_asking :: app_controller where
  "sample_asking = sample_ready\<lparr>app_client := the (worker_pick (snd (client_consume 0 (sample_record ''7-1'') (app_client sample_ready))))\<rparr>"

definition sample_failing :: app_controller where
  "sample_failing = sample_asking\<lparr>app_client :=
     worker_exchange (\<lambda>r. ''request'') (Exchanged False 500 None) (sample_record ''7-1'')
       (c_generation (app_client sample_ready)) (c_endpoint (app_client sample_ready))
       (c_model_version (app_client sample_ready)) (app_client sample_asking)\<rparr>"

lemma sample_failing_reach:
  "app_reach (\<lambda>r. ''request'') ready_parse (\<lambda>e v. None) sample_settings 7 ''/ips'' sample_failing"
proof -
  let ?c = "app_client sample_ready"
  let ?c1 = "snd (client_consume 0 (sample_record ''7-1'') ?c)"
  let ?ask = "W_exchanging (sample_record ''7-1'') (c_generation ?c) (c_endpoint ?c) (c_model_version ?c)"
  have c1: "?c1 = ?c\<lparr>c_pending_flows := [sample_record ''7-1''], c_stats := c_stats ?c1\<rparr>"
    using sample_ready_client sample_ready_online by (simp add: client_consume_def Let_def)
  have pick: "worker_pick ?c1 = Some (?c1\<lparr>c_pending_flows := [], c_worker := ?ask\<rparr>)"
    using sample_ready_client sample_ready_online by (subst (1 2) c1) (simp add: worker_pick_def)
  have w1: "c_worker ?c1 = W_waiting" using sample_ready_client by (subst c1) simp
  have s1: "app_step (\<lambda>r. ''request'') ready_parse (\<lambda>e v. None) sample_ready (sample_ready\<lparr>app_client := ?c1\<rparr>)"
    by (rule Client_turn [OF Consumes])
  have "client_runs (\<lambda>r. ''request'') ready_parse (app_client (sample_ready\<lparr>app_client := ?c1\<rparr>)) (the (worker_pick ?c1))"
    by (rule Picks) (use w1 pick in simp_all)
  from Client_turn [OF this]
  have s2: "app_step (\<lambda>r. ''request'') ready_parse (\<lambda>e v. None) (sample_ready\<lparr>app_client := ?c1\<rparr>) sample_asking"
    by (simp add: sample_asking_def)
  have ask: "c_worker (app_client sample_asking) = ?ask" by (simp add: sample_asking_def pick)
  have s3: "app_step (\<lambda>r. ''request'') ready_parse (\<lambda>e v. None) sample_asking sample_failing"
    unfolding sample_failing_def by (rule Client_turn [OF Exchanges [OF ask]])
  show ?thesis by (rule Runs [OF Runs [OF Runs [OF sample_ready_reach s1] s2] s3])
qed

lemma sample_failing_client:
  "c_online (app_client sample_failing)"
  "c_worker (app_client sample_failing) = W_failing Send_timeout True (c_generation (app_client sample_failing))"
proof -
  let ?c = "app_client sample_ready"
  let ?c1 = "snd (client_consume 0 (sample_record ''7-1'') ?c)"
  have c1: "?c1 = ?c\<lparr>c_pending_flows := [sample_record ''7-1''], c_stats := c_stats ?c1\<rparr>"
    using sample_ready_client sample_ready_online by (simp add: client_consume_def Let_def)
  have "c_online (app_client sample_asking)" "c_generation (app_client sample_asking) = c_generation ?c"
    unfolding sample_asking_def using sample_ready_client sample_ready_online
    by (subst c1, simp add: worker_pick_def)+
  then show "c_online (app_client sample_failing)"
    "c_worker (app_client sample_failing) = W_failing Send_timeout True (c_generation (app_client sample_failing))"
    by (simp_all add: sample_failing_def worker_exchange_def worker_send_def worker_connect_def Let_def split: option.split)
qed

theorem failed_exchange_restarts_server_witness:
  "\<exists>(a :: app_controller) (z :: app_controller). c_online (app_client a) \<and> \<not> c_online (app_client z) \<and>
     sv_state (app_supervisor z) \<in> {RESTART_WAIT, OFFLINE}"
proof -
  let ?b = "sample_failing\<lparr>app_client :=
    worker_fail Send_timeout True (c_generation (app_client sample_failing)) (app_client sample_failing)\<rparr>"
  let ?z = "posted_transport_failure (report_transport_failure
    (stop_process ready_parse (\<lambda>e v. None) (Stopping [] True [] True)) ''send'') ?b"
  from failed_exchange_restarts_server [OF sample_settings_max sample_failing_reach sample_failing_client refl refl,
      of "Stopping [] True [] True" "''send''"]
  have "\<not> c_online (app_client ?z)" "sv_state (app_supervisor ?z) \<in> {RESTART_WAIT, OFFLINE}"
    by (simp_all add: Let_def)
  with sample_failing_client(1) show ?thesis by blast
qed

end
