(* ===== verification/Artifact_Files.thy ===== *)
theory Artifact_Files
  imports Online_Server Supervisor
begin

text \<open>
  ml/artifacts.py: what the server reads before it announces itself. Three files with fixed names, in a
  directory that only root can change when the server asks for it (\<open>require_secure_permissions\<close>), are
  checked and read; the numbers of the scaler are checked as well. A path is the list of its parts under
  the root. The file system, json, numpy and torch are parameters. An exception is a text.
\<close>

section \<open>The surroundings\<close>

type_synonym posix_path = "string list"

text \<open>\<open>lstat\<close> and \<open>stat\<close>, \<open>resolve(strict=True)\<close>, \<open>is_dir\<close>, and the contents of a file as json, numpy and
  torch read them. \<open>ae_network\<close> is the network with its weights: the score of features that are scaled
  with a mean and a scale.\<close>

record artifact_env =
  ae_lstat :: "posix_path \<Rightarrow> file_stat option"
  ae_stat :: "posix_path \<Rightarrow> file_stat option"
  ae_resolve :: "posix_path \<Rightarrow> posix_path option"
  ae_is_dir :: "posix_path \<Rightarrow> bool"
  ae_json :: "posix_path \<Rightarrow> py option"
  ae_scaler :: "posix_path \<Rightarrow> (double list \<times> double list) option"
  ae_network :: "posix_path \<Rightarrow> (double list \<Rightarrow> double list \<Rightarrow> double list \<Rightarrow> double option) option"

section \<open>Paths\<close>

definition require_root_owned :: "file_stat \<Rightarrow> string + unit" where
  "require_root_owned s =
     (if st_uid s \<noteq> 0 then Inl ''not owned by root''
      else if writable_by_others s then Inl ''writable by group or other''
      else Inr ())"

text \<open>The loop over the parts, from the directory below the root to the directory itself.\<close>

fun secure_parts :: "artifact_env \<Rightarrow> posix_path \<Rightarrow> posix_path \<Rightarrow> string + unit" where
  "secure_parts env current [] = Inr ()"
| "secure_parts env current (part # parts) =
     (let current = current @ [part] in
      case ae_lstat env current of
        None \<Rightarrow> Inl ''lstat''
      | Some s \<Rightarrow>
          if file_type s = 0xA000 then Inl ''symbolic link''
          else if file_type s \<noteq> 0x4000 then Inl ''no directory''
          else ebind (require_root_owned s) (\<lambda>_. secure_parts env current parts))"

definition require_secure_directory_tree :: "artifact_env \<Rightarrow> posix_path \<Rightarrow> string + unit" where
  "require_secure_directory_tree env directory = secure_parts env [] directory"

definition require_regular_file :: "artifact_env \<Rightarrow> posix_path \<Rightarrow> bool \<Rightarrow> string + unit" where
  "require_regular_file env path require_secure_permissions =
     (case (if require_secure_permissions then ae_lstat env path else ae_stat env path) of
        None \<Rightarrow> Inl ''stat''
      | Some s \<Rightarrow>
          if require_secure_permissions \<and> file_type s = 0xA000 then Inl ''symbolic link''
          else if file_type s \<noteq> 0x8000 then Inl ''no regular file''
          else if require_secure_permissions then require_root_owned s
          else Inr ())"

definition resolve_artifact_paths ::
    "artifact_env \<Rightarrow> posix_path \<Rightarrow> bool \<Rightarrow> string + posix_path \<times> posix_path \<times> posix_path" where
  "resolve_artifact_paths env configured_directory require_secure_permissions =
     ebind (if require_secure_permissions then require_secure_directory_tree env configured_directory else Inr ()) (\<lambda>_.
     case ae_resolve env configured_directory of
       None \<Rightarrow> Inl ''resolve''
     | Some directory \<Rightarrow>
         if \<not> ae_is_dir env directory then Inl ''no directory''
         else
           let model_path = directory @ [''autoencoder.pt''];
               scaler_path = directory @ [''scaler.npz''];
               metadata_path = directory @ [''metadata.json'']
           in ebind (require_regular_file env model_path require_secure_permissions) (\<lambda>_.
              ebind (require_regular_file env scaler_path require_secure_permissions) (\<lambda>_.
              ebind (require_regular_file env metadata_path require_secure_permissions) (\<lambda>_.
                Inr (model_path, scaler_path, metadata_path)))))"

section \<open>Contents\<close>

text \<open>Only arrays of one dimension are considered; any other shape is refused as well.\<close>

definition load_scaler :: "artifact_env \<Rightarrow> posix_path \<Rightarrow> string + double list \<times> double list" where
  "load_scaler env scaler_path =
     (case ae_scaler env scaler_path of
        None \<Rightarrow> Inl ''scaler''
      | Some (mean, scale) \<Rightarrow>
          if length mean \<noteq> length FEATURES \<or> length scale \<noteq> length FEATURES then Inl ''size of the scaler''
          else if \<not> list_all isfinite mean \<or> \<not> list_all isfinite scale then Inl ''values of the scaler''
          else if \<not> list_all (double_less (Finite 0)) scale then Inl ''scale''
          else Inr (mean, scale))"

definition load_artifact_files ::
    "artifact_env \<Rightarrow> (string \<Rightarrow> double option) \<Rightarrow> posix_path \<Rightarrow> bool \<Rightarrow> artifacts option" where
  "load_artifact_files env float_of_text configured_directory require_secure_permissions =
     (case resolve_artifact_paths env configured_directory require_secure_permissions of
        Inl e \<Rightarrow> None
      | Inr (model_path, scaler_path, metadata_path) \<Rightarrow>
          Option.bind (ae_json env metadata_path) (\<lambda>metadata.
          Option.bind (load_metadata float_of_text metadata) (\<lambda>_.
            case load_scaler env scaler_path of
              Inl e \<Rightarrow> None
            | Inr (mean, scale) \<Rightarrow>
                Option.bind (ae_network env model_path) (\<lambda>network.
                  load_artifacts float_of_text metadata (network mean scale)))))"

section \<open>What the server has read\<close>

definition root_directory :: "artifact_env \<Rightarrow> posix_path \<Rightarrow> bool" where
  "root_directory env path \<longleftrightarrow>
     (\<exists>s. ae_lstat env path = Some s \<and> file_type s = 0x4000 \<and> st_uid s = 0 \<and> \<not> writable_by_others s)"

definition root_file :: "artifact_env \<Rightarrow> posix_path \<Rightarrow> bool" where
  "root_file env path \<longleftrightarrow>
     (\<exists>s. ae_lstat env path = Some s \<and> file_type s = 0x8000 \<and> st_uid s = 0 \<and> \<not> writable_by_others s)"

lemma root_owned_Inr: "require_root_owned s = Inr () \<longleftrightarrow> st_uid s = 0 \<and> \<not> writable_by_others s"
  by (simp add: require_root_owned_def)

lemma ebind_Inr: "ebind m f = Inr y \<longleftrightarrow> (\<exists>x. m = Inr x \<and> f x = Inr y)"
  by (auto simp: ebind_def split: sum.splits)

lemma secure_parts_Inr:
  "secure_parts env current parts = Inr () \<longleftrightarrow>
     (\<forall>i < length parts. root_directory env (current @ take (Suc i) parts))"
proof (induction parts arbitrary: current)
  case (Cons part parts)
  have step: "(\<forall>i < length (part # parts). root_directory env (current @ take (Suc i) (part # parts))) \<longleftrightarrow>
      root_directory env (current @ [part]) \<and> (\<forall>i < length parts. root_directory env ((current @ [part]) @ take (Suc i) parts))"
    by (auto simp: less_Suc_eq_0_disj)
  show ?case unfolding step Cons.IH [of "current @ [part]", symmetric]
    by (auto simp: Let_def ebind_Inr root_owned_Inr root_directory_def split: option.split)
qed simp

lemma secure_file_Inr: "require_regular_file env path True = Inr () \<longleftrightarrow> root_file env path"
  by (auto simp: require_regular_file_def root_owned_Inr root_file_def split: option.split)

text \<open>C30. The server scores with nothing that anybody but root could have put there: when it has loaded
  its artifacts, every directory on the way to them and the three files are root's, are no links and
  cannot be written by others; the metadata fit the features of the sensor, and the scaler has a
  positive scale for each of them.\<close>

theorem server_artifacts_trusted:
  assumes "load_artifact_files env float_of_text dir True = Some a"
  shows "(\<forall>i < length dir. root_directory env (take (Suc i) dir)) \<and>
    (\<exists>d metadata mean scale network. ae_resolve env dir = Some d \<and>
       list_all (root_file env) [d @ [''autoencoder.pt''], d @ [''scaler.npz''], d @ [''metadata.json'']] \<and>
       ae_json env (d @ [''metadata.json'']) = Some metadata \<and>
       py_get metadata ''features'' = PList (map PStr FEATURES) \<and>
       py_get metadata ''model_version'' = PStr (ar_model_version a) \<and>
       ae_scaler env (d @ [''scaler.npz'']) = Some (mean, scale) \<and>
       length mean = 27 \<and> length scale = 27 \<and> list_all isfinite mean \<and>
       list_all (\<lambda>x. isfinite x \<and> double_less (Finite 0) x) scale \<and>
       ae_network env (d @ [''autoencoder.pt'']) = Some network \<and> ar_model a = network mean scale)"
proof -
  have n: "length FEATURES = 27" by (simp add: FEATURES_def)
  obtain mp sp pp where paths: "resolve_artifact_paths env dir True = Inr (mp, sp, pp)"
    and load: "Option.bind (ae_json env pp) (\<lambda>metadata. Option.bind (load_metadata float_of_text metadata) (\<lambda>_.
        case load_scaler env sp of Inl e \<Rightarrow> None | Inr (mean, scale) \<Rightarrow>
          Option.bind (ae_network env mp) (\<lambda>network. load_artifacts float_of_text metadata (network mean scale)))) = Some a"
    using assms by (auto simp: load_artifact_files_def split: sum.splits)
  from load obtain metadata mean scale network where parts: "ae_json env pp = Some metadata"
    "load_scaler env sp = Inr (mean, scale)" "ae_network env mp = Some network"
    "load_artifacts float_of_text metadata (network mean scale) = Some a"
    by (cases "load_scaler env sp") (auto simp: bind_eq_Some_conv)
  from paths obtain d where d: "ae_resolve env dir = Some d" "mp = d @ [''autoencoder.pt'']"
    "sp = d @ [''scaler.npz'']" "pp = d @ [''metadata.json'']"
    "root_file env mp" "root_file env sp" "root_file env pp"
    "\<forall>i < length dir. root_directory env (take (Suc i) dir)"
    by (auto simp: resolve_artifact_paths_def require_secure_directory_tree_def ebind_Inr secure_parts_Inr
        secure_file_Inr Let_def split: option.splits if_splits)
  have "py_get metadata ''features'' = PList (map PStr FEATURES) \<and>
      py_get metadata ''model_version'' = PStr (ar_model_version a) \<and> ar_model a = network mean scale"
    using parts(4) by (auto simp: load_artifacts_def load_metadata_def split: if_splits py.splits option.splits)
  moreover have "ae_scaler env sp = Some (mean, scale) \<and> length mean = 27 \<and> length scale = 27 \<and> list_all isfinite mean \<and>
      list_all (\<lambda>x. isfinite x \<and> double_less (Finite 0) x) scale"
    using parts(2) by (auto simp: load_scaler_def n list_all_iff split: option.splits if_splits)
  ultimately show ?thesis using d parts by auto
qed

text \<open>An installation in one directory of root.\<close>

definition sample_installation :: artifact_env where
  "sample_installation =
     \<lparr>ae_lstat = (\<lambda>p. Some \<lparr>st_mode = (if length p = 1 then 0x41ED else 0x81A4), st_uid = 0\<rparr>), ae_stat = (\<lambda>p. None),
      ae_resolve = Some, ae_is_dir = (\<lambda>p. True),
      ae_json = (\<lambda>p. Some (PDict [(''features'', PList (map PStr FEATURES)), (''n_features'', PInt 27),
        (''feature_schema_version'', PInt 1), (''model_version'', PStr ''v1''), (''threshold'', PFloat (Finite 2))])),
      ae_scaler = (\<lambda>p. Some (replicate 27 (Finite 0), replicate 27 (Finite 1))),
      ae_network = (\<lambda>p. Some (\<lambda>mean scale features. Some (Finite 3)))\<rparr>"

theorem server_artifacts_trusted_witness:
  "\<exists>a. load_artifact_files sample_installation (\<lambda>s. None) [''artifacts''] True = Some a \<and>
     root_directory sample_installation [''artifacts''] \<and> ar_model_version a = ''v1''"
proof -
  have n: "length FEATURES = 27" by (simp add: FEATURES_def)
  have paths: "resolve_artifact_paths sample_installation [''artifacts''] True =
      Inr ([''artifacts'', ''autoencoder.pt''], [''artifacts'', ''scaler.npz''], [''artifacts'', ''metadata.json''])"
    by (simp add: resolve_artifact_paths_def require_secure_directory_tree_def require_regular_file_def Let_def
        sample_installation_def file_type_def require_root_owned_def writable_by_others_def)
  have scaler: "load_scaler sample_installation p = Inr (replicate 27 (Finite 0), replicate 27 (Finite 1))" for p
    by (simp add: load_scaler_def sample_installation_def n list_all_iff isfinite_def)
  have "\<exists>a. load_artifact_files sample_installation (\<lambda>s. None) [''artifacts''] True = Some a \<and> ar_model_version a = ''v1''"
    by (simp add: load_artifact_files_def paths scaler)
      (simp add: sample_installation_def load_artifacts_def load_metadata_def is_dict_def py_get_def py_eq_int_def n
        FEATURE_SCHEMA_VERSION_def to_float_def isfinite_def)
  then obtain a where a: "load_artifact_files sample_installation (\<lambda>s. None) [''artifacts''] True = Some a"
    "ar_model_version a = ''v1''" by blast
  from server_artifacts_trusted [OF a(1)] have "root_directory sample_installation [''artifacts'']" by simp
  with a show ?thesis by blast
qed

end
