(* ===== verification/Spec2Isabelle.thy ===== *)
theory Spec2Isabelle
  imports State_Machine Firewall_Properties Kernel_Verdicts Client_Session Sensor_Spec Record_Log Exchange_Properties
    Artifact_Files
begin

text \<open>
  A verification library for the intrusion prevention system under src/src and for the server under
  src/ml that scores its flows.

  \<^bold>\<open>The program.\<close> Packets reach the program through a kernel queue that a chain of its own in the
  packet filter feeds. The capture thread parses a packet, keeps statistics of its conversation and of
  its source, asks the rules, and answers accept or drop; violating sources go on a block list for a
  time. Conversations that end are handed to a client, which asks a Python process for a score; the
  anomalies that come back block their sources as well. A supervisor starts, watches and restarts that
  process. A controller on the Qt event loop wires these parts to a tray icon and shuts them down.

  \<^bold>\<open>Theories and sources.\<close> A theory defines the state of its component as a record and each member
  function as one definition, in the order and with the names of the code.

    \<^item> Ips_Prelude, Ieee_Double, Json: words of the machine's widths, the clock, rounding of doubles,
      decimal text, JSON values and the accessors of nlohmann::json the code calls.
    \<^item> Five_Tuple (common/five_tuple), Packet_Parser (capture/packet_parser): the key of a
      conversation, and the parser with every read checked against the buffer.
    \<^item> Unordered_Map: std::unordered_map bucket by bucket, because the sweep depends on the buckets.
      Flow_Stats (flow/flow.h), Flow_Manager (flow/flow_manager): the two tables, the index by source
      and the incremental sweep. Flow_Table holds the invariant and the effect of each operation on the
      tables as finite maps, Flow_Properties the properties over all sequences of operations.
    \<^item> Detect_Rules (detect/), White_List and Block_List (response/), Flow_Features
      (ai/flow_features), Config (config/): the rules, the two lists, the vector of features, and the
      reading of the configuration.
    \<^item> Packet_Capture (capture/packet_capture), Capture_Properties: the pipeline, over any consumer of
      ended flows and any clock. Sensor_Spec: what the pipeline promises, on finite maps and with one
      rule for both directions, and that it is implemented.
    \<^item> Ai_Protocol (ai/ai_protocol), Async_Client (ai/async_ai_client), Client_Properties: requests and
      answers, and the client with its worker thread. Each section under the mutex is an atomic step,
      and the steps of all threads interleave freely. Client_Session: the interleavings as lists of
      actions, the session with the server that the client implements, and the end of its worker.
    \<^item> Supervisor (app/ai_process_supervisor), Supervisor_Properties: the slots of the supervisor, and
      the signals that Qt delivers inside a slot which waits for the process to end. State_Machine: the
      state machine it implements.
    \<^item> Firewall_Guard (capture/firewall_queue_guard), Firewall_Properties: the iptables commands in
      their order, with every status, as a program over the state only iptables can read.
    \<^item> Packet_Source (capture/packet_source and the start and stop of PacketCapture),
      Source_Properties: opening, the receive loop, the callback of the queue, and the clean-up.
      Kernel_Verdicts: the answer the kernel gets for each packet.
    \<^item> Tray (ui/tray_controller), Application (app/application_controller and main.cpp),
      Application_Properties: what the desktop shows, and the controller with everything that runs
      under it as one step relation, from main to its return.
    \<^item> Online_Server (ml/online_server.py, ml/features.py, the metadata of ml/artifacts.py): the Python
      values, the checks of a request in their order with their error codes, the verdict, and the loop
      of the server with its status. Artifact_Files (ml/artifacts.py): the checks of the files it reads,
      and what they guarantee.
    \<^item> Server_Properties: one JSON text read by both sides, and what the two make of an exchange.
      Request_Properties: from the packets to the requests. Record_Log: the records any consumer is
      given. Exchange_Properties: the whole system, from the ready line of the server to the packets that are dropped.

  \<^bold>\<open>What is shown.\<close> For the sensor: the parser reads inside its buffer and reads back a segment in wire
  format; the flow manager keeps its invariant and refines two finite maps; an idle flow is collected
  by eleven ticks and nothing younger ever is; a source is blocked exactly until its last block ends, a
  violation blocks for the whole time, a whitelisted address never is blocked; a record is numbered and
  submitted once; a model that accuses nobody changes no verdict; and the pipeline as a whole is a
  refinement of a sensor on finite maps, in which a tick may forget what has expired. For the
  edges: an accepted configuration and an accepted answer say what their texts say, a request determines
  its record, a chain of somebody else is never erased, a failed installation is taken back, uninstalling
  restores the packet filter, the
  receive loop is the serial run of the pipeline, the answers in the kernel's queue are the verdicts of
  the pipeline, and whatever was opened is closed. For the processes:
  the client with its threads is a session that asks about one record at a time, so that no decision of
  an earlier connection is handed out and those of the current one come in the order of their records,
  the two threads that a shutdown joins come to an end, one failure is reacted to once however the signals
  of the dying process nest, what the supervisor announces is a trace of its state machine, restarts are
  bounded, a stop is final, the process is started only from paths, and scores only with files, that
  only root can change. For the whole: the client is online only while the supervisor holds that
  very process online, the tray shows the supervisor's state, a shutdown stops every part for good, and
  main leaves nothing running: the worker has left its loop, and the process has ended unless it survived
  the kill. For the two programs together: whatever packets come, the server takes
  every request of the sensor, an answer means the same on both sides, an anomaly the sensor acts on was
  scored above the threshold, a server that has loaded its model comes online with its one line, a flow
  scored above the threshold has its source blocked at the next tick, and a failed exchange takes the
  client offline and restarts the server.

  \<^bold>\<open>Interfaces.\<close> The locale \<open>keyed_store\<close> (Unordered_Map) is what the flow manager uses of a table,
  \<open>min_queue\<close> (Block_List) what the block list uses of its heap, \<open>decision_source\<close> (Capture_Properties)
  what the pipeline relies on in a consumer, \<open>quiet_stop\<close> (Supervisor_Properties) what the slots rely on
  in a wait for the process, and \<open>packet_filter\<close> (Firewall_Properties) what the guard relies on in
  iptables. The first four are interpreted on the model of the code that provides them. Request_Properties
  and State_Machine extend \<open>decision_source\<close> and \<open>quiet_stop\<close> in contexts of their own.

  \<^bold>\<open>Parameters.\<close> Code that is not under src/ is an argument: the JSON parser, inet_pton and inet_ntop,
  the bucket counts of the standard library, the clock, libnetfilter_queue and \<open>recv\<close>, ZeroMQ (any
  outcome of an exchange), QProcess (any sequence of signals), the file system (\<open>path_env\<close>),
  iptables, and on the side of Python json.loads and json.dumps, ipaddress, and the network with its
  scaler (a function from the features to a score or an exception). That a text written by one JSON
  library is read by the other as the same value is a hypothesis about the one text of the exchange
  (\<open>server_reads\<close>, \<open>client_reads\<close>), with the value written out (\<open>py_of_json\<close>, \<open>json_of_py\<close>).
  The contract \<open>iptables_ok\<close> is its documented behaviour for the commands used; a table in memory fulfils
  it. The safety of a foreign chain needs no contract at all: a monitor over the commands
  and their statuses decides it.

  \<^bold>\<open>Bounds.\<close> The receive loop is a function of the turns it meets; while they last without an end it is
  \<open>Looping\<close>, and \<open>start\<close> has not returned; Source_Properties shows that the first turn that finds a
  request to stop or a failed socket brings it back, and Client_Session that the worker of the client
  needs at most three turns to leave; a shutdown, which joins it, runs these turns (\<open>join_worker\<close>). The loop over complete lines of output gets the number of
  line ends in the buffer as its bound: each round takes one line, and the slots that run inside a round
  add none (lemma \<open>loop_split\<close>: the result is that of all the lines). The removal of jumps and the walk
  up a directory tree may run forever in a world that never lets them end; they are
  \<open>partial_function (option)\<close>, and \<open>guard_calls_end\<close> shows that the first ends with an iptables that
  keeps its contract. A clean-up of the block list takes at most 16384 entries, as in the code. Time points are unbounded integers; lemma
  \<open>expiry_in_range\<close> shows that an accepted configuration keeps them in 64 bits. A double that the
  statistics form is a real number rounded to 53 bits; overflow of the exponent is out of reach there.
  The connection counter of the client is a 64-bit word, and runs of fewer than 2^64 connections are
  considered. The receive loop runs over any consumer: what other threads do to the
  client between two calls of the pipeline is the beginning of the later call. When an exchange fails, the
  client counts a timeout and calls its failure handler right after the section under the mutex; both are
  part of that section's step, so the instant between them, in which another thread could see the client
  offline and the timeout not yet counted, is not a state of the model.

  \<^bold>\<open>Not modelled.\<close> Log lines; the drawing of the icon and the wording of the texts on the desktop
  (Tray has the values put into them); in main the set-up of logging and of the signal handlers, and the
  Qt event loop, which is any sequence of steps. Of the Python side the arithmetic of the network and the
  scaling (libraries, and weights that are data), the set-up of its socket and signals, and the offline
  tools for training, evaluation, plotting and the audit of data sets, which never run with the sensor.
\<close>

end
